(* ===== verification/Prelude.thy ===== *)
theory Prelude
  imports Main "HOL-Library.Word" "HOL-Library.List_Lexorder" "HOL-Library.Char_ord"
begin

text \<open>
  Shared vocabulary of the development: the part of the C and C++ standard library that the
  gateway is written against, over \<open>string\<close> (a list of bytes), and the lemmas about it that the
  component theories share.

  \<^item> machine integers: \<open>byte\<close>, \<open>u16\<close>, \<open>u32\<close>, \<open>u64\<close> are words; a C \<open>int\<close> or \<open>long\<close> is an
    \<open>int\<close> kept in range by \<open>to_int32\<close> and \<open>to_int64\<close>;
  \<^item> C strings: \<open>cstr\<close> cuts a buffer at its first NUL;
  \<^item> \<open>std::string\<close>: \<open>str_find\<close>, \<open>str_rfind\<close>, \<open>str_substr\<close> (\<open>None\<close> is the exception
    \<open>std::out_of_range\<close>), \<open>str_replace\<close>;
  \<^item> \<open>atoi\<close>, \<open>atol\<close>, the \<open>printf\<close> conversions \<open>%d\<close>, \<open>%02d\<close>, \<open>%04d\<close>;
  \<^item> \<open>strtok_r\<close> run to the end of its input is \<open>tokens\<close>;
  \<^item> \<open>std::map\<close> is an association list in key order (\<open>smap_put\<close>, \<open>smap_insert\<close>).
\<close>

named_theorems str_simps \<open>rewriting of the std::string operations on known shapes\<close>
named_theorems byte_simps \<open>conversions between characters and bytes\<close>

section \<open>Bytes and machine integers\<close>

type_synonym byte = "8 word"
type_synonym u16 = "16 word"
type_synonym u32 = "32 word"
type_synonym u64 = "64 word"

definition byte_of :: "char \<Rightarrow> byte" where
  "byte_of c = word_of_nat (of_char c)"

definition char_of_byte :: "byte \<Rightarrow> char" where
  "char_of_byte b = char_of (unat b)"

definition to_int32 :: "int \<Rightarrow> int" where
  "to_int32 x = signed_take_bit 31 x"

definition to_int64 :: "int \<Rightarrow> int" where
  "to_int64 x = signed_take_bit 63 x"

definition NUL :: char where
  "NUL = CHR 0x00"

definition cstr :: "string \<Rightarrow> string" where
  "cstr s = takeWhile (\<lambda>c. c \<noteq> NUL) s"

section \<open>Character classes of the C locale\<close>

definition isdigit :: "char \<Rightarrow> bool" where
  "isdigit c \<longleftrightarrow> (48::nat) \<le> of_char c \<and> of_char c \<le> (57::nat)"

definition isupper :: "char \<Rightarrow> bool" where
  "isupper c \<longleftrightarrow> (65::nat) \<le> of_char c \<and> of_char c \<le> (90::nat)"

definition islower :: "char \<Rightarrow> bool" where
  "islower c \<longleftrightarrow> (97::nat) \<le> of_char c \<and> of_char c \<le> (122::nat)"

definition isalnum :: "char \<Rightarrow> bool" where
  "isalnum c \<longleftrightarrow> isdigit c \<or> isupper c \<or> islower c"

definition isspace :: "char \<Rightarrow> bool" where
  "isspace c \<longleftrightarrow> of_char c = (32::nat) \<or> ((9::nat) \<le> of_char c \<and> of_char c \<le> (13::nat))"

definition tolower :: "char \<Rightarrow> char" where
  "tolower c = (if isupper c then char_of (of_char c + (32::nat)) else c)"

section \<open>std::string\<close>

definition starts_with :: "string \<Rightarrow> string \<Rightarrow> bool" where
  "starts_with pat s \<longleftrightarrow> take (length pat) s = pat"

fun find_sub :: "string \<Rightarrow> string \<Rightarrow> nat option" where
  "find_sub pat [] = (if pat = [] then Some 0 else None)"
| "find_sub pat (c # cs) =
     (if starts_with pat (c # cs) then Some 0 else map_option Suc (find_sub pat cs))"

text \<open>\<open>s.find(pat, pos)\<close>; \<open>None\<close> is \<open>npos\<close>.\<close>

definition str_find :: "string \<Rightarrow> string \<Rightarrow> nat \<Rightarrow> nat option" where
  "str_find s pat pos =
     (if length s < pos then None else map_option ((+) pos) (find_sub pat (drop pos s)))"

text \<open>\<open>s.rfind(c, s.length())\<close> for one character.\<close>

definition str_rfind :: "string \<Rightarrow> char \<Rightarrow> nat option" where
  "str_rfind s c =
     (if c \<in> set s then Some (length s - 1 - length (takeWhile (\<lambda>x. x \<noteq> c) (rev s))) else None)"

text \<open>\<open>s.substr(pos, n)\<close>; \<open>None\<close> is the exception thrown when \<open>pos\<close> is past the end.\<close>

definition str_substr :: "string \<Rightarrow> nat \<Rightarrow> nat \<Rightarrow> string option" where
  "str_substr s pos n = (if length s < pos then None else Some (take n (drop pos s)))"

definition str_substr_end :: "string \<Rightarrow> nat \<Rightarrow> string option" where
  "str_substr_end s pos = (if length s < pos then None else Some (drop pos s))"

definition str_replace :: "string \<Rightarrow> nat \<Rightarrow> nat \<Rightarrow> string \<Rightarrow> string" where
  "str_replace s pos n new = take pos s @ new @ drop (pos + n) s"

text \<open>An \<open>npos\<close> stored in an \<open>int\<close> is \<open>-1\<close>; in an \<open>unsigned int\<close> it is \<open>2 ^ 32 - 1\<close>.\<close>

definition pos_int :: "nat option \<Rightarrow> int" where
  "pos_int p = (case p of None \<Rightarrow> -1 | Some i \<Rightarrow> to_int32 (int i))"

definition pos_uint :: "nat option \<Rightarrow> u32" where
  "pos_uint p = (case p of None \<Rightarrow> - 1 | Some i \<Rightarrow> word_of_nat i)"

section \<open>Numbers as text\<close>

definition digit_char :: "nat \<Rightarrow> char" where
  "digit_char d = char_of (48 + d)"

fun show_nat :: "nat \<Rightarrow> string" where
  "show_nat n = (if n < 10 then [digit_char n] else show_nat (n div 10) @ [digit_char (n mod 10)])"

declare show_nat.simps [simp del]

definition show_int :: "int \<Rightarrow> string" where
  "show_int i = (if i < 0 then CHR ''-'' # show_nat (nat (- i)) else show_nat (nat i))"

definition pad_left :: "char \<Rightarrow> nat \<Rightarrow> string \<Rightarrow> string" where
  "pad_left c w s = replicate (w - length s) c @ s"

definition show_02d :: "nat \<Rightarrow> string" where
  "show_02d n = pad_left CHR ''0'' 2 (show_nat n)"

definition show_04d :: "nat \<Rightarrow> string" where
  "show_04d n = pad_left CHR ''0'' 4 (show_nat n)"

definition show_4d :: "nat \<Rightarrow> string" where
  "show_4d n = pad_left CHR '' '' 4 (show_nat n)"

definition digit_val :: "char \<Rightarrow> nat" where
  "digit_val c = of_char c - 48"

definition read_digits :: "string \<Rightarrow> nat" where
  "read_digits s = foldl (\<lambda>acc c. acc * 10 + digit_val c) 0 (takeWhile isdigit s)"

text \<open>
  \<open>strtol(s, NULL, 10)\<close>: white space, an optional sign, digits; saturates at the ends of a
  64-bit \<open>long\<close>. \<open>atoi\<close> converts the same \<open>long\<close> to \<open>int\<close>.
\<close>

definition atol :: "string \<Rightarrow> int" where
  "atol s = (let t = dropWhile isspace (cstr s) in
     case t of
       [] \<Rightarrow> 0
     | c # cs \<Rightarrow>
         (if c = CHR ''-'' then max (- (2 ^ 63)) (- int (read_digits cs))
          else if c = CHR ''+'' then min (2 ^ 63 - 1) (int (read_digits cs))
          else min (2 ^ 63 - 1) (int (read_digits t))))"

definition atoi :: "string \<Rightarrow> int" where
  "atoi s = to_int32 (atol s)"

section \<open>strtok\_r\<close>

fun split_on :: "char \<Rightarrow> string \<Rightarrow> string list" where
  "split_on d [] = [[]]"
| "split_on d (c # cs) =
     (if c = d then [] # split_on d cs
      else (case split_on d cs of [] \<Rightarrow> [[c]] | t # ts \<Rightarrow> (c # t) # ts))"

definition tokens :: "char \<Rightarrow> string \<Rightarrow> string list" where
  "tokens d s = filter (\<lambda>t. t \<noteq> []) (split_on d (cstr s))"

section \<open>std::map\<close>

type_synonym 'v smap = "(string \<times> 'v) list"

text \<open>\<open>m[k] = v\<close>: overwrites, keeps the keys in order.\<close>

fun smap_put :: "string \<Rightarrow> 'v \<Rightarrow> 'v smap \<Rightarrow> 'v smap" where
  "smap_put k v [] = [(k, v)]"
| "smap_put k v ((k', v') # m) =
     (if k < k' then (k, v) # (k', v') # m
      else if k = k' then (k, v) # m
      else (k', v') # smap_put k v m)"

text \<open>\<open>m.insert(pair(k, v))\<close>: leaves an existing entry alone.\<close>

definition smap_insert :: "string \<Rightarrow> 'v \<Rightarrow> 'v smap \<Rightarrow> 'v smap" where
  "smap_insert k v m = (case map_of m k of None \<Rightarrow> smap_put k v m | Some _ \<Rightarrow> m)"

abbreviation smap_find :: "'v smap \<Rightarrow> string \<Rightarrow> 'v option" where
  "smap_find m k \<equiv> map_of m k"

definition smap_ok :: "'v smap \<Rightarrow> bool" where
  "smap_ok m \<longleftrightarrow> sorted (map fst m) \<and> distinct (map fst m)"

section \<open>The interface of an encoding\<close>

text \<open>
  What a client relies on when it stores or sends encoded text: decoding an encoded value gives
  the value back (\<open>None\<close> stands for an exception of the decoder), on the values \<open>ok\<close> describes.
\<close>

locale codec =
  fixes enc :: "'a \<Rightarrow> 'b" and dec :: "'b \<Rightarrow> 'a option" and ok :: "'a \<Rightarrow> bool"
  assumes dec_enc: "ok x \<Longrightarrow> dec (enc x) = Some x"
begin

lemma enc_inject: "ok x \<Longrightarrow> ok y \<Longrightarrow> enc x = enc y \<longleftrightarrow> x = y"
  using dec_enc by (metis option.inject)

lemma dec_map_enc: "list_all ok xs \<Longrightarrow> map dec (map enc xs) = map Some xs"
  by (induction xs) (auto simp: dec_enc)

end

section \<open>Lemmas on bytes and characters\<close>

lemma unat_byte_of [byte_simps, simp]: "unat (byte_of c) = of_char c"
  by (simp add: byte_of_def unat_of_nat)

lemma char_of_byte_of [byte_simps, simp]: "char_of_byte (byte_of c) = c"
  by (simp add: char_of_byte_def)

lemma byte_of_char_of_byte [byte_simps, simp]: "byte_of (char_of_byte b) = b"
proof -
  have "unat b < 256"
    using unsigned_less [of b] by simp
  then have "unat (byte_of (char_of_byte b)) = unat b"
    by (simp add: char_of_byte_def)
  then show ?thesis
    by (simp add: word_unat_eq_iff)
qed

lemma byte_of_inject [simp]: "byte_of c = byte_of d \<longleftrightarrow> c = d"
  by (metis char_of_byte_of)

lemma char_of_byte_inject [simp]: "char_of_byte b = char_of_byte b' \<longleftrightarrow> b = b'"
  by (metis byte_of_char_of_byte)

lemma map_char_of_byte_of [byte_simps, simp]: "map char_of_byte (map byte_of s) = s"
  by (induction s) auto

lemma map_byte_of_char_of [byte_simps, simp]: "map byte_of (map char_of_byte bs) = bs"
  by (induction bs) auto

lemma below_Suc_all: "(\<forall>n < Suc k. P n) \<longleftrightarrow> P k \<and> (\<forall>n < k. P n)"
  by (auto simp: less_Suc_eq)

lemmas below_numeral_all = eval_nat_numeral below_Suc_all

text \<open>Two bytes are equal when their eight bits are.\<close>

lemma byte_bits_eqI:
  "(bit x 0 = bit y 0 \<and> bit x 1 = bit y 1 \<and> bit x 2 = bit y 2 \<and> bit x 3 = bit y 3 \<and>
    bit x 4 = bit y 4 \<and> bit x 5 = bit y 5 \<and> bit x 6 = bit y 6 \<and> bit x 7 = bit y 7) \<Longrightarrow> x = (y :: byte)"
proof (rule bit_word_eqI)
  fix n
  assume "bit x 0 = bit y 0 \<and> bit x 1 = bit y 1 \<and> bit x 2 = bit y 2 \<and> bit x 3 = bit y 3 \<and>
    bit x 4 = bit y 4 \<and> bit x 5 = bit y 5 \<and> bit x 6 = bit y 6 \<and> bit x 7 = bit y 7"
  then have "\<forall>n < 8. bit x n = bit y n" by (simp add: below_numeral_all)
  moreover assume "n < LENGTH(8)"
  ultimately show "bit x n = bit y n" by simp
qed

lemma to_int32_id: "- (2 ^ 31) \<le> x \<Longrightarrow> x < 2 ^ 31 \<Longrightarrow> to_int32 x = x"
  by (simp add: to_int32_def signed_take_bit_int_eq_self_iff)

lemma to_int32_bounds: "- (2 ^ 31) \<le> to_int32 x \<and> to_int32 x < 2 ^ 31"
  using signed_take_bit_int_greater_eq_minus_exp [of 31 x] signed_take_bit_int_less_exp [of 31 x]
  by (simp add: to_int32_def)

lemma to_int32_small [simp]: "n < 2147483648 \<Longrightarrow> to_int32 (int n) = int n"
  by (rule to_int32_id) auto

section \<open>Lemmas on C strings\<close>

lemma cstr_Nil [simp]: "cstr [] = []"
  by (simp add: cstr_def)

lemma cstr_no_NUL [simp]: "NUL \<notin> set (cstr s)"
  by (auto simp: cstr_def dest: set_takeWhileD)

lemma cstr_id [simp]: "NUL \<notin> set s \<Longrightarrow> cstr s = s"
  by (auto simp: cstr_def takeWhile_eq_all_conv)

lemma cstr_idem [simp]: "cstr (cstr s) = cstr s"
  by simp

lemma cstr_append: "NUL \<notin> set s \<Longrightarrow> cstr (s @ t) = s @ cstr t"
  by (induction s) (auto simp: cstr_def)

lemma cstr_NUL_cut [simp]: "NUL \<notin> set s \<Longrightarrow> cstr (s @ NUL # t) = s"
  by (simp add: cstr_append) (simp add: cstr_def)

lemma length_cstr: "length (cstr s) \<le> length s"
  by (simp add: cstr_def length_takeWhile_le)

section \<open>Lemmas on searching and cutting\<close>

lemma starts_with_append [str_simps, simp]: "starts_with pat (pat @ s)"
  by (simp add: starts_with_def)

lemma starts_withE:
  assumes "starts_with pat s"
  obtains t where "s = pat @ t"
  using assms by (metis append_take_drop_id starts_with_def)

lemma starts_with_iff: "starts_with pat s \<longleftrightarrow> (\<exists>t. s = pat @ t)"
  by (auto elim: starts_withE)

lemma find_sub_Some:
  "find_sub pat s = Some i \<Longrightarrow> \<exists>t. s = take i s @ pat @ t"
proof (induction s arbitrary: i)
  case Nil
  then show ?case by (auto split: if_splits)
next
  case (Cons c cs)
  show ?case
  proof (cases "starts_with pat (c # cs)")
    case True
    with Cons.prems show ?thesis by (auto simp: starts_with_iff)
  next
    case False
    with Cons.prems obtain j where "find_sub pat cs = Some j" "i = Suc j" by auto
    with Cons.IH [of j] show ?thesis by auto
  qed
qed

lemma find_sub_bound: "find_sub pat s = Some i \<Longrightarrow> i + length pat \<le> length s"
proof (induction s arbitrary: i)
  case (Cons c cs)
  show ?case
  proof (cases "starts_with pat (c # cs)")
    case True
    with Cons.prems show ?thesis
      by (metis add_0 find_sub.simps(2) length_append le_add1 option.inject starts_withE)
  next
    case False
    with Cons show ?thesis by auto
  qed
qed (auto split: if_splits)

lemma find_sub_skip:
  "pat \<noteq> [] \<Longrightarrow> hd pat \<notin> set a \<Longrightarrow> find_sub pat (a @ s) = map_option ((+) (length a)) (find_sub pat s)"
proof (induction a)
  case Nil
  then show ?case by (cases "find_sub pat s") simp_all
next
  case (Cons c cs)
  then have "\<not> starts_with pat (c # cs @ s)"
    by (cases pat) (auto simp: starts_with_def)
  with Cons show ?case
    by (simp add: option.map_comp comp_def)
qed

lemma find_sub_here [str_simps]: "find_sub pat (pat @ s) = Some 0"
proof (cases "pat @ s")
  case (Cons c cs)
  moreover have "starts_with pat (c # cs)" by (simp add: starts_with_def flip: Cons)
  ultimately show ?thesis by simp
qed simp

lemma find_sub_at [str_simps]:
  "pat \<noteq> [] \<Longrightarrow> hd pat \<notin> set a \<Longrightarrow> find_sub pat (a @ pat @ s) = Some (length a)"
  by (simp add: find_sub_skip find_sub_here)

lemma find_sub_char_None [str_simps]: "c \<notin> set s \<Longrightarrow> find_sub [c] s = None"
  by (induction s) (auto simp: starts_with_def)

lemma find_sub_char_at [str_simps]: "c \<notin> set a \<Longrightarrow> find_sub [c] (a @ c # s) = Some (length a)"
  using find_sub_at [of "[c]" a s] by simp

lemma str_find_0 [str_simps]: "str_find s pat 0 = find_sub pat s"
  by (cases "find_sub pat s") (simp_all add: str_find_def)

lemma str_find_bound: "str_find s pat pos = Some i \<Longrightarrow> pos \<le> i \<and> i + length pat \<le> length s"
  by (auto simp: str_find_def split: if_splits dest!: find_sub_bound)

lemma str_find_append [str_simps]:
  "str_find (a @ s) pat (length a) = map_option ((+) (length a)) (find_sub pat s)"
  by (simp add: str_find_def)

lemma str_rfind_at [str_simps]: "c \<notin> set b \<Longrightarrow> str_rfind (a @ c # b) c = Some (length a)"
proof -
  assume "c \<notin> set b"
  then have "takeWhile (\<lambda>x. x \<noteq> c) (rev b @ c # rev a) = rev b"
    by (subst takeWhile_append2) auto
  then show ?thesis by (simp add: str_rfind_def)
qed

lemma str_rfind_None [str_simps]: "c \<notin> set s \<Longrightarrow> str_rfind s c = None"
  by (simp add: str_rfind_def)

lemma str_substr_append [str_simps]: "str_substr (a @ s) (length a) n = Some (take n s)"
  by (simp add: str_substr_def)

lemma str_substr_0 [str_simps]: "str_substr s 0 n = Some (take n s)"
  by (simp add: str_substr_def)

section \<open>Lemmas on numbers as text\<close>

lemma isdigit_digit_char [simp]: "d < 10 \<Longrightarrow> isdigit (digit_char d)"
  by (simp add: isdigit_def digit_char_def)

lemma digit_val_digit_char [simp]: "d < 10 \<Longrightarrow> digit_val (digit_char d) = d"
  by (simp add: digit_val_def digit_char_def)

lemma show_nat_digits: "c \<in> set (show_nat n) \<Longrightarrow> isdigit c"
proof (induction n rule: show_nat.induct)
  case (1 n)
  then show ?case by (subst (asm) show_nat.simps) (auto split: if_splits)
qed

lemma show_nat_not_Nil [simp]: "show_nat n \<noteq> []"
  by (subst show_nat.simps) simp

lemma takeWhile_isdigit_show_nat: "takeWhile isdigit (show_nat n) = show_nat n"
  by (auto simp: takeWhile_eq_all_conv dest: show_nat_digits)

lemma read_digits_show_nat_append:
  assumes "\<And>c cs. t = c # cs \<Longrightarrow> \<not> isdigit c"
  shows "read_digits (show_nat n @ t) = n"
proof -
  have t: "takeWhile isdigit t = []"
    using assms by (cases t) auto
  have "foldl (\<lambda>acc c. acc * 10 + digit_val c) 0 (show_nat n) = n"
  proof (induction n rule: show_nat.induct)
    case (1 n)
    then show ?case by (subst show_nat.simps) auto
  qed
  moreover have "takeWhile isdigit (show_nat n @ t) = show_nat n"
    by (subst takeWhile_append2) (auto dest: show_nat_digits simp: t)
  ultimately show ?thesis by (simp add: read_digits_def)
qed

lemma isdigit_range: "isdigit c \<Longrightarrow> c \<noteq> NUL \<and> \<not> isspace c \<and> c \<noteq> CHR ''-'' \<and> c \<noteq> CHR ''+''"
  by (auto simp: isdigit_def NUL_def isspace_def)

lemma hd_show_nat: "isdigit (hd (show_nat n))"
  by (rule show_nat_digits [of _ n]) simp

lemma NUL_not_show_nat [simp]: "NUL \<notin> set (show_nat n)"
  using isdigit_range show_nat_digits by blast

lemma not_digit_show_nat: "\<not> isdigit c \<Longrightarrow> c \<notin> set (show_nat n)"
  using show_nat_digits by blast

lemma atol_show_nat_append:
  assumes "\<And>c cs. t = c # cs \<Longrightarrow> \<not> isdigit c" and "n < 2 ^ 63"
  shows "atol (show_nat n @ t) = int n"
proof -
  obtain c cs where c: "show_nat n = c # cs" by (cases "show_nat n") auto
  then have dc: "isdigit c" using hd_show_nat [of n] by simp
  have "cstr (show_nat n @ t) = show_nat n @ cstr t" by (simp add: cstr_append)
  moreover have "read_digits (show_nat n @ cstr t) = n"
  proof (rule read_digits_show_nat_append)
    fix x xs assume "cstr t = x # xs"
    then show "\<not> isdigit x" using assms(1) by (cases t) (auto simp: cstr_def split: if_splits)
  qed
  moreover from assms(2) have "int n < 2 ^ 63" by (metis of_nat_less_iff of_nat_numeral of_nat_power)
  ultimately show ?thesis
    using isdigit_range [OF dc] by (simp add: atol_def c Let_def)
qed

lemma atol_show_nat [simp]: "n < 2 ^ 63 \<Longrightarrow> atol (show_nat n) = int n"
  using atol_show_nat_append [of "[]" n] by simp

lemma atoi_show_nat [simp]: "n < 2 ^ 31 \<Longrightarrow> atoi (show_nat n) = int n"
  by (simp add: atoi_def)

lemma atoi_show_nat_append:
  "(\<And>c cs. t = c # cs \<Longrightarrow> \<not> isdigit c) \<Longrightarrow> n < 2 ^ 31 \<Longrightarrow> atoi (show_nat n @ t) = int n"
  by (simp add: atoi_def atol_show_nat_append)

text \<open>Evaluation on a literal.\<close>

lemmas atoi_eval = atoi_def atol_def cstr_def NUL_def isspace_def read_digits_def isdigit_def
  digit_val_def to_int32_def

lemma atoi_bounds: "- (2 ^ 31) \<le> atoi s \<and> atoi s < 2 ^ 31"
  unfolding atoi_def by (rule to_int32_bounds)

section \<open>Lemmas on strtok\<close>

lemma split_on_not_Nil [simp]: "split_on d s \<noteq> []"
  by (cases s) (auto split: list.splits)

lemma split_on_no_delim [simp]: "d \<notin> set s \<Longrightarrow> split_on d s = [s]"
  by (induction s) auto

lemma split_on_append [simp]: "d \<notin> set a \<Longrightarrow> split_on d (a @ d # b) = a # split_on d b"
  by (induction a) auto

lemma in_split_on_no_delim: "t \<in> set (split_on d s) \<Longrightarrow> d \<notin> set t"
  by (induction s arbitrary: t) (fastforce split: if_splits list.splits)+

lemma in_split_on_subset: "t \<in> set (split_on d s) \<Longrightarrow> set t \<subseteq> set s"
proof (induction s arbitrary: t)
  case Nil
  then show ?case by simp
next
  case (Cons c cs)
  show ?case
  proof (cases "c = d")
    case True
    with Cons show ?thesis by fastforce
  next
    case False
    obtain u us where u: "split_on d cs = u # us" by (cases "split_on d cs") auto
    have "set x \<subseteq> set cs" if "x = u \<or> x \<in> set us" for x
      using Cons.IH [of x] u that by auto
    then have "set u \<subseteq> set cs" "\<And>x. x \<in> set us \<Longrightarrow> set x \<subseteq> set cs" by auto
    with Cons.prems u False show ?thesis by fastforce
  qed
qed

lemma tokens_Nil [simp]: "tokens d [] = []"
  by (simp add: tokens_def)

lemma tokens_single [simp]:
  "d \<notin> set s \<Longrightarrow> NUL \<notin> set s \<Longrightarrow> s \<noteq> [] \<Longrightarrow> tokens d s = [s]"
  by (simp add: tokens_def)

lemma tokens_cons [simp]:
  "d \<notin> set s \<Longrightarrow> NUL \<notin> set s \<Longrightarrow> s \<noteq> [] \<Longrightarrow> d \<noteq> NUL \<Longrightarrow> tokens d (s @ d # t) = s # tokens d t"
  by (simp add: tokens_def cstr_append) (simp add: cstr_def)

lemma tokens_sound:
  "t \<in> set (tokens d s) \<Longrightarrow> t \<noteq> [] \<and> d \<notin> set t \<and> NUL \<notin> set t \<and> set t \<subseteq> set s"
  using in_split_on_no_delim in_split_on_subset cstr_no_NUL
  by (fastforce simp: tokens_def cstr_def dest: set_takeWhileD)

section \<open>Lemmas on std::map\<close>

lemma smap_put_keys: "set (map fst (smap_put k v m)) = insert k (set (map fst m))"
  by (induction k v m rule: smap_put.induct) auto

lemma smap_ok_Cons: "smap_ok ((k, v) # m) \<longleftrightarrow> smap_ok m \<and> (\<forall>x \<in> set (map fst m). k < x)"
  by (auto simp: smap_ok_def order_less_le)

lemma smap_put_ok [simp]: "smap_ok m \<Longrightarrow> smap_ok (smap_put k v m)"
proof (induction k v m rule: smap_put.induct)
  case (1 k v)
  then show ?case by (simp add: smap_ok_def)
next
  case (2 k v k' v' m)
  consider "k < k'" | "k = k'" | "k' < k" by fastforce
  then show ?case
  proof cases
    case 1
    with "2.prems" show ?thesis by (auto simp: smap_ok_Cons intro: order_less_trans)
  next
    case 2
    with "2.prems" show ?thesis by (simp add: smap_ok_Cons)
  next
    case 3
    with "2" show ?thesis by (auto simp: smap_ok_Cons smap_put_keys simp del: set_map)
  qed
qed

lemma smap_put_lookup [simp]: "map_of (smap_put k v m) = (map_of m)(k \<mapsto> v)"
  by (induction k v m rule: smap_put.induct) (auto simp: fun_eq_iff)

lemma smap_ok_Nil [simp]: "smap_ok []"
  by (simp add: smap_ok_def)

lemma smap_insert_ok [simp]: "smap_ok m \<Longrightarrow> smap_ok (smap_insert k v m)"
  by (simp add: smap_insert_def split: option.split)

lemma smap_insert_lookup:
  "map_of (smap_insert k v m) =
     (map_of m)(k := Some (case map_of m k of None \<Rightarrow> v | Some v' \<Rightarrow> v'))"
  by (auto simp: smap_insert_def fun_eq_iff split: option.split)

end
