(* ===== verification/Conf.thy ===== *)
theory Conf
  imports Prelude
begin

text \<open>
  \<open>src/CommonTools/Conf/Conf.cpp\<close>: the configuration file reader \<open>CConf\<close>, and its two string
  substitution loops. A stream is the text already read and the text still to read; a line buffer
  is the C string it holds. The methods that edit a line in place return the edited line;
  \<open>None\<close> marks an access before the start of the buffer (\<open>ConfTrimRight\<close>).
\<close>

section \<open>Definitions\<close>

abbreviation SUCCESS :: int where "SUCCESS \<equiv> 0"
abbreviation ERR_OEN :: int where "ERR_OEN \<equiv> 1"
abbreviation ERR_SEC :: int where "ERR_SEC \<equiv> 2"
abbreviation ERR_KEY :: int where "ERR_KEY \<equiv> 3"
abbreviation ERR_VAL :: int where "ERR_VAL \<equiv> 4"
abbreviation ERR_CLS :: int where "ERR_CLS \<equiv> 5"
abbreviation ERR_OTH :: int where "ERR_OTH \<equiv> 6"

abbreviation CTRL_T :: char where "CTRL_T \<equiv> CHR 0x09"
abbreviation CTRL_R :: char where "CTRL_R \<equiv> CHR 0x0D"
abbreviation CTRL_N :: char where "CTRL_N \<equiv> CHR 0x0A"
abbreviation BLANK :: char where "BLANK \<equiv> CHR '' ''"
abbreviation EQUAL :: char where "EQUAL \<equiv> CHR ''=''"
abbreviation REMARK :: char where "REMARK \<equiv> CHR ''#''"
abbreviation SEC_L :: char where "SEC_L \<equiv> CHR ''[''"

abbreviation PACKET :: nat where "PACKET \<equiv> 1024"

record cfile =
  f_read :: string
  f_rest :: string

record CConf =
  m_pstFile :: "cfile option"

text \<open>A file system that maps names to contents stands for \<open>fopen\<close>.\<close>

definition ConfOpen :: "(string \<Rightarrow> string option) \<Rightarrow> string \<Rightarrow> int \<times> CConf" where
  "ConfOpen fs pszFile =
     (case fs pszFile of
        None \<Rightarrow> (ERR_OEN, \<lparr>m_pstFile = None\<rparr>)
      | Some txt \<Rightarrow> (SUCCESS, \<lparr>m_pstFile = Some \<lparr>f_read = [], f_rest = txt\<rparr>\<rparr>))"

definition ConfClose :: "CConf \<Rightarrow> CConf" where
  "ConfClose c = (if m_pstFile c \<noteq> None then c\<lparr>m_pstFile := None\<rparr> else c)"

definition rewind_file :: "cfile \<Rightarrow> cfile" where
  "rewind_file f = \<lparr>f_read = [], f_rest = f_read f @ f_rest f\<rparr>"

text \<open>\<open>fgets\<close> reads at most \<open>size - 1\<close> characters, up to and including a newline.\<close>

fun upto_newline :: "nat \<Rightarrow> string \<Rightarrow> string" where
  "upto_newline 0 s = []"
| "upto_newline (Suc n) [] = []"
| "upto_newline (Suc n) (c # cs) = (if c = CTRL_N then [c] else c # upto_newline n cs)"

definition fgets :: "nat \<Rightarrow> cfile \<Rightarrow> (string \<times> cfile) option" where
  "fgets iSize f =
     (if f_rest f = [] then None
      else let l = upto_newline (iSize - 1) (f_rest f)
           in Some (cstr l, \<lparr>f_read = f_read f @ l, f_rest = drop (length l) (f_rest f)\<rparr>))"

text \<open>The line of a failed call is not used by any caller.\<close>

definition ConfGetLine :: "CConf \<Rightarrow> nat \<Rightarrow> int \<times> string \<times> CConf" where
  "ConfGetLine c iSize =
     (case m_pstFile c of
        None \<Rightarrow> (ERR_OEN, [], c)
      | Some f \<Rightarrow>
          (case fgets iSize f of
             None \<Rightarrow> (ERR_OTH, [], c)
           | Some (l, f') \<Rightarrow> (SUCCESS, l, c\<lparr>m_pstFile := Some f'\<rparr>)))"

definition is_blank :: "char \<Rightarrow> bool" where
  "is_blank c \<longleftrightarrow> c = CTRL_T \<or> c = CTRL_R \<or> c = CTRL_N \<or> c = BLANK"

definition ConfTrimLeft :: "string \<Rightarrow> string" where
  "ConfTrimLeft pszLine = dropWhile is_blank pszLine"

text \<open>
  Cuts at the first \<open>#\<close>, then steps back over blanks. When nothing but blanks (or nothing at all)
  precedes the cut, the pointer leaves the buffer at its start.
\<close>

definition ConfTrimRight :: "string \<Rightarrow> string option" where
  "ConfTrimRight pszLine =
     (if pszLine = [] then Some []
      else let body = rev (dropWhile is_blank (rev (takeWhile (\<lambda>c. c \<noteq> REMARK) pszLine)))
           in if body = [] then None else Some body)"

definition ConfTrim :: "string \<Rightarrow> string option" where
  "ConfTrim pszLine = ConfTrimRight (ConfTrimLeft pszLine)"

text \<open>\<open>ConfIsValid\<close> also trims the line it is given.\<close>

definition ConfIsValid :: "string \<Rightarrow> bool \<times> string" where
  "ConfIsValid pszLine =
     (if take 1 pszLine \<noteq> [REMARK]
      then let l = ConfTrimLeft pszLine in (if length l = 0 then (False, l) else (True, l))
      else (False, pszLine))"

definition ConfIsSection :: "string \<Rightarrow> bool" where
  "ConfIsSection pszLine \<longleftrightarrow> take 1 pszLine = [SEC_L]"

text \<open>The two overloads of \<open>ConfKeyValue\<close>: by value, and into the line buffer.\<close>

definition ConfKeyValue :: "string \<Rightarrow> string \<Rightarrow> int \<times> string" where
  "ConfKeyValue pszLine pszVal =
     (let key = takeWhile (\<lambda>c. c \<noteq> EQUAL) pszLine in
      if length key \<noteq> length pszLine
      then (SUCCESS, ConfTrimLeft (drop (length key + 1) pszLine))
      else (ERR_VAL, pszVal))"

definition ConfKeyValue_ptr :: "string \<Rightarrow> (string \<times> string) option option" where
  "ConfKeyValue_ptr pszLine =
     (let key = takeWhile (\<lambda>c. c \<noteq> EQUAL) pszLine in
      if length key \<noteq> length pszLine
      then map_option (\<lambda>k. Some (k, ConfTrimLeft (drop (length key + 1) pszLine))) (ConfTrimRight key)
      else Some None)"

definition has_prefix_ci :: "string \<Rightarrow> string \<Rightarrow> bool" where
  "has_prefix_ci pat s \<longleftrightarrow> map tolower (take (length pat) s) = map tolower pat"

text \<open>
  Every loop \<open>while (SUCCESS == ConfGetLine(line, size))\<close> of the program: the body goes on with a
  new state (\<open>Inl\<close>) or leaves the loop with a result (\<open>Inr\<close>). The program only uses sizes above 1;
  below that \<open>fgets\<close> would not advance.
\<close>

lemma upto_newline_not_Nil: "n \<noteq> 0 \<Longrightarrow> s \<noteq> [] \<Longrightarrow> upto_newline n s \<noteq> []"
  by (cases n; cases s) auto

function (sequential) line_loop :: "nat \<Rightarrow> ('s \<Rightarrow> string \<Rightarrow> ('s + 'r) option) \<Rightarrow> 's \<Rightarrow> CConf
    \<Rightarrow> (('s + 'r) \<times> CConf) option" where
  "line_loop iSize body s c =
     (if iSize < 2 then None
      else case ConfGetLine c iSize of
        (rc, l, c') \<Rightarrow>
          (if rc = SUCCESS then
             (case body s l of
                None \<Rightarrow> None
              | Some (Inl s') \<Rightarrow> line_loop iSize body s' c'
              | Some (Inr r) \<Rightarrow> Some (Inr r, c'))
           else Some (Inl s, c')))"
  by pat_completeness auto
termination
  by (relation "measure (\<lambda>(iSize, body, s, c). case m_pstFile c of None \<Rightarrow> 0 | Some f \<Rightarrow> length (f_rest f))")
    (auto simp: ConfGetLine_def fgets_def Let_def upto_newline_not_Nil intro!: diff_less
        split: option.splits if_splits)

declare line_loop.simps [simp del]

definition conf_rewind :: "CConf \<Rightarrow> CConf" where
  "conf_rewind c = c\<lparr>m_pstFile := map_option rewind_file (m_pstFile c)\<rparr>"

text \<open>The result of a finished search loop.\<close>

definition conf_found :: "(('s + 'r) \<times> CConf) option \<Rightarrow> ('s \<Rightarrow> 'a) \<Rightarrow> ('r \<Rightarrow> 'a) \<Rightarrow> ('a \<times> CConf) option" where
  "conf_found res eof found =
     map_option (\<lambda>(r, c). (case r of Inl s \<Rightarrow> eof s | Inr x \<Rightarrow> found x, c)) res"

definition ConfGetSec :: "CConf \<Rightarrow> string \<Rightarrow> (int \<times> CConf) option" where
  "ConfGetSec c pszSec =
     (if m_pstFile c \<noteq> None then
        conf_found
          (line_loop (PACKET - 1)
            (\<lambda>s l. case ConfIsValid l of (v, l) \<Rightarrow>
               Some (if \<not> v then Inl s
                     else if ConfIsSection l \<and> has_prefix_ci pszSec (drop 1 l) then Inr SUCCESS
                     else Inl s))
            () (conf_rewind c))
          (\<lambda>_. ERR_SEC) (\<lambda>r. r)
      else Some (ERR_OEN, c))"

text \<open>The section flag and the return code are the state of the two key searches.\<close>

definition conf_enter_section :: "string \<Rightarrow> bool \<times> int \<Rightarrow> string \<Rightarrow> bool \<times> int" where
  "conf_enter_section pszSec st l =
     (if \<not> fst st then (if has_prefix_ci pszSec (drop 1 l) then (True, ERR_KEY) else st)
      else (False, snd st))"

definition ConfGetKey :: "CConf \<Rightarrow> string \<Rightarrow> string \<Rightarrow> (int \<times> CConf) option" where
  "ConfGetKey c pszSec pszKey =
     (if m_pstFile c \<noteq> None then
        conf_found
          (line_loop (PACKET - 1)
            (\<lambda>st l. case ConfIsValid l of (v, l) \<Rightarrow>
               Some (if \<not> v then Inl st
                     else if ConfIsSection l then Inl (conf_enter_section pszSec st l)
                     else if fst st \<and> has_prefix_ci pszKey l then Inr SUCCESS
                     else Inl st))
            (False, ERR_SEC) (conf_rewind c))
          snd (\<lambda>r. r)
      else Some (ERR_OEN, c))"

definition ConfGetVal :: "CConf \<Rightarrow> string \<Rightarrow> string \<Rightarrow> string \<Rightarrow> ((int \<times> string) \<times> CConf) option" where
  "ConfGetVal c pszSec pszKey pszVal =
     (if m_pstFile c \<noteq> None then
        conf_found
          (line_loop (PACKET - 1)
            (\<lambda>st l. case ConfIsValid l of (v, l) \<Rightarrow>
               if \<not> v then Some (Inl st)
               else if ConfIsSection l then Some (Inl (conf_enter_section pszSec st l))
               else if fst st \<and> has_prefix_ci pszKey l
                 then map_option (\<lambda>l. Inr (ConfKeyValue l pszVal)) (ConfTrimRight l)
               else Some (Inl st))
            (False, ERR_SEC) (conf_rewind c))
          (\<lambda>st. (snd st, pszVal)) (\<lambda>r. r)
      else Some ((ERR_OEN, pszVal), c))"

section \<open>Substitution\<close>

text \<open>
  \<open>replace_all\<close> searches again from the start after each replacement and may not end;
  \<open>replace_all_distinct\<close> goes on behind the replacement.
\<close>

partial_function (option) replace_all :: "string \<Rightarrow> string \<Rightarrow> string \<Rightarrow> string option" where
  "replace_all str old_value new_value =
     (case str_find str old_value 0 of
        Some pos \<Rightarrow> replace_all (str_replace str pos (length old_value) new_value) old_value new_value
      | None \<Rightarrow> Some str)"

partial_function (option) replace_all_distinct_from :: "nat \<Rightarrow> string \<Rightarrow> string \<Rightarrow> string \<Rightarrow> string option" where
  "replace_all_distinct_from pos str old_value new_value =
     (case str_find str old_value pos of
        Some pos \<Rightarrow>
          replace_all_distinct_from (pos + length new_value)
            (str_replace str pos (length old_value) new_value) old_value new_value
      | None \<Rightarrow> Some str)"

definition replace_all_distinct :: "string \<Rightarrow> string \<Rightarrow> string \<Rightarrow> string option" where
  "replace_all_distinct str old_value new_value = replace_all_distinct_from 0 str old_value new_value"

text \<open>The reference: one pass from left to right.\<close>

function subst_all :: "string \<Rightarrow> string \<Rightarrow> string \<Rightarrow> string" where
  "subst_all old new s =
     (if old = [] then s
      else case find_sub old s of
        None \<Rightarrow> s
      | Some i \<Rightarrow> take i s @ new @ subst_all old new (drop (i + length old) s))"
  by pat_completeness auto
termination
  by (relation "measure (\<lambda>(old, new, s). length s)") (auto dest!: find_sub_bound intro!: diff_less)

declare subst_all.simps [simp del]

section \<open>Lemmas on substitution\<close>

lemma find_sub_first:
  assumes "find_sub pat s = Some i"
  shows "take i s @ pat @ drop (i + length pat) s = s"
proof -
  obtain t where t: "s = take i s @ pat @ t" using find_sub_Some [OF assms] by blast
  have "i \<le> length s" using find_sub_bound [OF assms] by simp
  then have "drop (i + length pat) (take i s @ pat @ t) = t" by (simp add: min_def)
  with t show ?thesis by metis
qed

text \<open>A pattern cannot start before, or reach into, text that shares no character with it.\<close>

lemma find_sub_over_foreign:
  assumes "find_sub old s = Some i" and "old \<noteq> []" and "new \<noteq> []" and "set old \<inter> set new = {}"
  shows "find_sub old (take i s @ new @ t) = map_option ((+) (i + length new)) (find_sub old t)"
  using assms(1)
proof (induction s arbitrary: i)
  case Nil
  with assms show ?case by simp
next
  case (Cons c cs)
  have here: "find_sub old (new @ t) = map_option ((+) (length new)) (find_sub old t)"
    using assms by (intro find_sub_skip) (auto simp: disjoint_iff)
  show ?case
  proof (cases "starts_with old (c # cs)")
    case True
    with Cons.prems here show ?thesis by simp
  next
    case False
    then obtain j where j: "find_sub old cs = Some j" "i = Suc j" using Cons.prems by auto
    have "\<not> starts_with old (c # take j cs @ new @ t)"
    proof
      assume a: "starts_with old (c # take j cs @ new @ t)"
      have "length old \<le> Suc j"
      proof (rule ccontr)
        assume "\<not> length old \<le> Suc j"
        moreover have "length (take j cs) = j" using find_sub_bound [OF j(1)] by simp
        moreover obtain r where "c # take j cs @ new @ t = old @ r"
          using a by (auto simp: starts_with_iff)
        then have "(c # take j cs @ new @ t) ! Suc j = (old @ r) ! Suc j" by simp
        ultimately have "old ! Suc j = hd new"
          using \<open>new \<noteq> []\<close> by (simp add: nth_append hd_conv_nth)
        then show False
          using assms(4) \<open>\<not> length old \<le> Suc j\<close> \<open>new \<noteq> []\<close> by (metis disjoint_iff hd_in_set not_le nth_mem)
      qed
      then show False
        using a False find_sub_bound [OF j(1)] by (simp add: starts_with_def take_Cons' min_def split: if_splits)
    qed
    with Cons.IH [OF j(1)] j(2) show ?thesis by (simp add: option.map_comp comp_def)
  qed
qed

lemma subst_all_Nil [simp]: "subst_all old new [] = []"
  by (subst subst_all.simps) simp

text \<open>The part in front of a position that the search has passed stays as it is.\<close>

lemma replace_all_returns_at:
  assumes "old \<noteq> []" "new \<noteq> []" "set old \<inter> set new = {}"
    and "\<forall>t. find_sub old (p @ t) = map_option ((+) (length p)) (find_sub old t)"
  shows "replace_all (p @ s) old new = Some (p @ subst_all old new s)"
  using assms(4)
proof (induction s arbitrary: p rule: length_induct)
  case (1 s)
  show ?case
  proof (cases "find_sub old s")
    case None
    then have "find_sub old (p @ s) = None" using "1.prems" by simp
    then show ?thesis
      using None assms(1) by (subst replace_all.simps, subst subst_all.simps) (simp add: str_find_0)
  next
    case (Some i)
    let ?q = "p @ take i s @ new" and ?r = "drop (i + length old) s"
    have i: "i + length old \<le> length s" by (rule find_sub_bound [OF Some])
    have "\<forall>t. find_sub old (?q @ t) = map_option ((+) (length ?q)) (find_sub old t)"
    proof
      fix t
      show "find_sub old (?q @ t) = map_option ((+) (length ?q)) (find_sub old t)"
        using "1.prems" find_sub_over_foreign [OF Some assms(1-3)] i
        by (cases "find_sub old t") (simp_all add: add.assoc)
    qed
    moreover have "length ?r < length s" using i assms(1) by (cases old) auto
    ultimately have "replace_all (?q @ ?r) old new = Some (?q @ subst_all old new ?r)"
      using "1.IH" by blast
    moreover have "str_replace (p @ s) (length p + i) (length old) new = ?q @ ?r"
      by (simp add: str_replace_def add.assoc)
    moreover have "subst_all old new s = take i s @ new @ subst_all old new ?r"
      using Some assms(1) by (subst subst_all.simps) simp
    ultimately show ?thesis
      using Some "1.prems" by (subst replace_all.simps) (simp add: str_find_0)
  qed
qed

lemma replace_all_subst:
  "old \<noteq> [] \<Longrightarrow> new \<noteq> [] \<Longrightarrow> set old \<inter> set new = {} \<Longrightarrow> replace_all s old new = Some (subst_all old new s)"
  using replace_all_returns_at [of old new "[]" s] by (simp add: map_option_case split: option.split)

lemma find_sub_within: "find_sub pat s \<noteq> None \<longleftrightarrow> (\<exists>a b. s = a @ pat @ b)"
proof
  assume "find_sub pat s \<noteq> None"
  then show "\<exists>a b. s = a @ pat @ b" using find_sub_Some by blast
next
  assume "\<exists>a b. s = a @ pat @ b"
  then obtain a b where s: "s = a @ pat @ b" by blast
  have "find_sub pat (a @ pat @ b) \<noteq> None"
    by (induction a) (auto simp: find_sub_here)
  with s show "find_sub pat s \<noteq> None" by simp
qed

lemma replace_all_keeps_occurrence:
  assumes "find_sub old new \<noteq> None" and "find_sub old s = Some i"
  shows "find_sub old (str_replace s i (length old) new) \<noteq> None"
proof -
  obtain a b where "new = a @ old @ b" using assms(1) find_sub_within by blast
  then have "str_replace s i (length old) new = (take i s @ a) @ old @ (b @ drop (i + length old) s)"
    by (simp add: str_replace_def)
  then show ?thesis unfolding find_sub_within by blast
qed

lemma replace_all_returns_only:
  "replace_all s old new = Some r \<Longrightarrow> find_sub old new \<noteq> None \<Longrightarrow> find_sub old s = None"
proof (induction s old new r rule: replace_all.raw_induct [rotated, consumes 1, case_names 1])
  case (1 f s old new r)
  show ?case
  proof (cases "find_sub old s")
    case (Some i)
    then have "f (str_replace s i (length old) new) old new = Some r"
      using 1(2) by (simp add: str_find_0)
    then have "find_sub old (str_replace s i (length old) new) = None"
      using 1(1,3) by blast
    with replace_all_keeps_occurrence [OF 1(3) Some] show ?thesis by simp
  qed
qed

lemma replace_all_shrinks:
  "old \<noteq> [] \<Longrightarrow> length new < length old \<Longrightarrow> \<exists>r. replace_all s old new = Some r"
proof (induction s rule: length_induct)
  case (1 s)
  show ?case
  proof (cases "find_sub old s")
    case None
    then show ?thesis by (subst replace_all.simps) (simp add: str_find_0)
  next
    case (Some i)
    have "length (str_replace s i (length old) new) < length s"
      using find_sub_bound [OF Some] 1(3) by (simp add: str_replace_def)
    with 1 have "\<exists>r. replace_all (str_replace s i (length old) new) old new = Some r" by blast
    with Some show ?thesis by (subst replace_all.simps) (simp add: str_find_0)
  qed
qed

lemma replace_all_result: "replace_all s old new = Some r \<Longrightarrow> find_sub old r = None"
proof (induction s old new r rule: replace_all.raw_induct [rotated, consumes 1, case_names 1])
  case (1 f s old new r)
  then show ?case by (auto simp: str_find_0 split: option.splits)
qed

lemma replace_all_distinct_from_subst:
  "old \<noteq> [] \<Longrightarrow>
   replace_all_distinct_from (length p) (p @ s) old new = Some (p @ subst_all old new s)"
proof (induction s arbitrary: p rule: length_induct)
  case (1 s)
  show ?case
  proof (cases "find_sub old s")
    case None
    with 1(2) show ?thesis
      by (subst replace_all_distinct_from.simps, subst subst_all.simps) (simp add: str_find_append)
  next
    case (Some i)
    let ?q = "p @ take i s @ new" and ?r = "drop (i + length old) s"
    have i: "i + length old \<le> length s" by (rule find_sub_bound [OF Some])
    then have "length ?r < length s" using 1(2) by (cases old) auto
    with 1 have "replace_all_distinct_from (length ?q) (?q @ ?r) old new = Some (?q @ subst_all old new ?r)"
      by blast
    moreover have "str_replace (p @ s) (length p + i) (length old) new = ?q @ ?r"
      by (simp add: str_replace_def add.assoc)
    moreover have "length ?q = length p + i + length new" using i by simp
    ultimately show ?thesis
      using Some 1(2)
      by (subst replace_all_distinct_from.simps, subst subst_all.simps) (simp add: str_find_append add.assoc)
  qed
qed

section \<open>Properties\<close>

text \<open>
  Substitution from the start of the string: \<open>replace_all\<close> returns the left-to-right
  substitution whenever the new text is not empty and shares no character with the old text.
\<close>

theorem replace_all_is_subst:
  "old_value \<noteq> [] \<Longrightarrow> new_value \<noteq> [] \<Longrightarrow> set old_value \<inter> set new_value = {} \<Longrightarrow>
   replace_all str old_value new_value = Some (subst_all old_value new_value str)"
  by (rule replace_all_subst)

theorem replace_all_is_subst_witness:
  "replace_all ''GET /a b c'' '' '' ''%20'' = Some ''GET%20/a%20b%20c''"
proof -
  have "subst_all '' '' ''%20'' ''GET /a b c'' = ''GET%20/a%20b%20c''"
    by (simp add: subst_all.simps starts_with_def)
  then show ?thesis
    using replace_all_is_subst [of "'' ''" "''%20''" "''GET /a b c''"] by simp
qed

text \<open>
  C37. When the new text contains the old one, \<open>replace_all\<close> never returns on a string in which
  the old text occurs.
\<close>

theorem replace_all_diverges:
  assumes "find_sub old_value new_value \<noteq> None" and "find_sub old_value str \<noteq> None"
  shows "replace_all str old_value new_value = None"
  using replace_all_returns_only assms by (metis not_None_eq)

theorem replace_all_diverges_witness: "replace_all ''x=P1'' ''P1'' ''aP1b'' = None"
  by (rule replace_all_diverges) (simp_all add: starts_with_def)

text \<open>
  \<open>replace_all_distinct\<close> returns the left-to-right substitution for every non-empty old text,
  also when the new text contains it.
\<close>

theorem replace_all_distinct_is_subst:
  "old_value \<noteq> [] \<Longrightarrow>
   replace_all_distinct str old_value new_value = Some (subst_all old_value new_value str)"
  using replace_all_distinct_from_subst [of old_value "[]" str new_value]
  by (simp add: replace_all_distinct_def)

theorem replace_all_distinct_is_subst_witness:
  "replace_all_distinct ''x=P1'' ''P1'' ''aP1b'' = Some ''x=aP1b''"
proof -
  have "subst_all ''P1'' ''aP1b'' ''x=P1'' = ''x=aP1b''"
    by (simp add: subst_all.simps starts_with_def)
  then show ?thesis
    using replace_all_distinct_is_subst [of "''P1''" "''x=P1''" "''aP1b''"] by simp
qed

end
