(* ===== verification/MainConfig.thy ===== *)
theory MainConfig
  imports Conf
begin

text \<open>
  The configuration of the gateway: \<open>BdxInitConfig\<close> and the section readers of
  \<open>src/UserQueryMain/UserQueryMain.cpp\<close>, with the parameter structures of
  \<open>src/UserQueryStruct/UserQueryStruct.h\<close>. All section readers run the same loop over the lines of
  the open file (\<open>section_loop\<close>) and differ in what they do with a key and a value. The loop of
  \<open>BdxInitConfig\<close> need not end, so it is a partial function: \<open>None\<close> is an endless loop, \<open>Some UB\<close> an
  access outside a buffer.
\<close>

section \<open>Parameter structures\<close>

datatype LOG_RANK = DEBUG | INFO | WARNING | ERROR | REQUIRED

record LOGPRMS_S =
  m_Rank :: LOG_RANK
  m_strPath :: string
  m_strFileName :: string
  m_uiMaxLine :: u32

record STATISTICSPRM_S =
  m_strStatisticsPath :: string
  m_strStatisticsFileName :: string
  m_uiStatisticsTime :: u32

text \<open>
  A \<open>char[128]\<close> filled by \<open>memcpy(dst, val, 128)\<close> holds the first 128 bytes from \<open>val\<close>: as text,
  \<open>val\<close> itself when it is shorter.
\<close>

record IPPORT_S =
  m_pchIp :: string
  m_uiPort :: u16
  m_idx :: int
  m_count :: int

record SERVERINFO_S =
  m_stRedisServer :: IPPORT_S
  m_stLocalServer :: IPPORT_S
  m_stTokenServer :: IPPORT_S
  m_stGoodsServer :: IPPORT_S

record MYSQL_SERVERINFO_S =
  m_stMysqlLinkInfo :: IPPORT_S
  pchUserName :: string
  pchPassWord :: string
  pchDbName :: string

record QUERYAPIINFO_S =
  mParam :: string
  mCarrierOperator :: string
  mProvince :: int
  mQueryLimits :: int

record MORNITORAPI_INFO_S =
  m_stMonitorApi :: IPPORT_S
  m_stEmailServer :: IPPORT_S
  m_strUserName :: string
  m_strPassWord :: string
  m_strMailFrom :: string
  m_strRcptTo :: string
  m_strSubject :: string
  m_strErrorMsg :: string

text \<open>The fields of \<open>CUserQueryMain\<close> and the globals its readers set.\<close>

record CUserQueryMain =
  m_stLogPrms :: LOGPRMS_S
  m_stServerInfo :: SERVERINFO_S
  m_stMysqlInfo :: MYSQL_SERVERINFO_S
  m_uiThreadsNum :: u32
  m_stStatisticsPrm :: STATISTICSPRM_S
  m_stHiveLogPrm :: STATISTICSPRM_S
  g_monitor :: MORNITORAPI_INFO_S
  strSslKeyPath :: string
  strSslKeyPassWord :: string
  iAPIQpsLimit :: int
  g_vecUrlAPIS :: "QUERYAPIINFO_S smap"

section \<open>What the readers do with one key\<close>

definition memcpy128 :: "string \<Rightarrow> string" where
  "memcpy128 v = take 128 v"

definition log_rank_of :: "string \<Rightarrow> LOG_RANK" where
  "log_rank_of v =
     (if v = ''DEBUG'' then DEBUG else if v = ''INFO'' then INFO
      else if v = ''WARNING'' then WARNING else if v = ''ERROR'' then ERROR
      else if v = ''REQUIRED'' then REQUIRED else DEBUG)"

definition set_log :: "LOGPRMS_S \<Rightarrow> string \<Rightarrow> string \<Rightarrow> LOGPRMS_S" where
  "set_log p k v =
     (if k = ''RANK'' then p\<lparr>m_Rank := log_rank_of v\<rparr>
      else if k = ''FILE'' then p\<lparr>m_strFileName := v\<rparr>
      else if k = ''PATH'' then p\<lparr>m_strPath := v\<rparr>
      else if k = ''MAXLINE'' then p\<lparr>m_uiMaxLine := word_of_int (atoi v)\<rparr>
      else p)"

definition set_statistics :: "STATISTICSPRM_S \<Rightarrow> string \<Rightarrow> string \<Rightarrow> STATISTICSPRM_S" where
  "set_statistics p k v =
     (if k = ''PATH'' then p\<lparr>m_strStatisticsPath := v\<rparr>
      else if k = ''FILE'' then p\<lparr>m_strStatisticsFileName := v\<rparr>
      else if k = ''TIME'' then p\<lparr>m_uiStatisticsTime := word_of_int (atoi v)\<rparr>
      else p)"

definition set_server :: "IPPORT_S \<Rightarrow> string \<Rightarrow> string \<Rightarrow> IPPORT_S" where
  "set_server p k v =
     (if k = ''IP'' then p\<lparr>m_pchIp := memcpy128 v\<rparr>
      else if k = ''PORT'' then p\<lparr>m_uiPort := word_of_int (atoi v)\<rparr>
      else if k = ''IDX'' then p\<lparr>m_idx := atoi v\<rparr>
      else if k = ''NUMS'' then p\<lparr>m_count := atoi v\<rparr>
      else p)"

definition set_monitor :: "MORNITORAPI_INFO_S \<Rightarrow> string \<Rightarrow> string \<Rightarrow> MORNITORAPI_INFO_S" where
  "set_monitor p k v =
     (if k = ''APIIP'' then p\<lparr>m_stMonitorApi := (m_stMonitorApi p)\<lparr>m_pchIp := memcpy128 v\<rparr>\<rparr>
      else if k = ''APIPORT'' then p\<lparr>m_stMonitorApi := (m_stMonitorApi p)\<lparr>m_uiPort := word_of_int (atoi v)\<rparr>\<rparr>
      else if k = ''EMAILIP'' then p\<lparr>m_stEmailServer := (m_stEmailServer p)\<lparr>m_pchIp := memcpy128 v\<rparr>\<rparr>
      else if k = ''EMAILPORT'' then p\<lparr>m_stEmailServer := (m_stEmailServer p)\<lparr>m_uiPort := word_of_int (atoi v)\<rparr>\<rparr>
      else if k = ''USERNAME'' then p\<lparr>m_strUserName := v\<rparr>
      else if k = ''PASSWORD'' then p\<lparr>m_strPassWord := v\<rparr>
      else if k = ''FROM'' then p\<lparr>m_strMailFrom := v\<rparr>
      else if k = ''TO'' then p\<lparr>m_strRcptTo := v\<rparr>
      else if k = ''SUBJECT'' then p\<lparr>m_strSubject := v\<rparr>
      else if k = ''ERRORMSG'' then p\<lparr>m_strErrorMsg := v\<rparr>
      else p)"

definition set_mysql :: "MYSQL_SERVERINFO_S \<Rightarrow> string \<Rightarrow> string \<Rightarrow> MYSQL_SERVERINFO_S" where
  "set_mysql p k v =
     (if k = ''IP'' then p\<lparr>m_stMysqlLinkInfo := (m_stMysqlLinkInfo p)\<lparr>m_pchIp := memcpy128 v\<rparr>\<rparr>
      else if k = ''PORT'' then p\<lparr>m_stMysqlLinkInfo := (m_stMysqlLinkInfo p)\<lparr>m_uiPort := word_of_int (atoi v)\<rparr>\<rparr>
      else if k = ''USERNAME'' then p\<lparr>pchUserName := memcpy128 v\<rparr>
      else if k = ''PASSWORD'' then p\<lparr>pchPassWord := memcpy128 v\<rparr>
      else if k = ''DBNAME'' then p\<lparr>pchDbName := memcpy128 v\<rparr>
      else p)"

text \<open>
  \<open>BdxGetServerUrlAPI\<close> keeps an array \<open>temp\<close> of tokens over the whole section and adds an API at
  every fifth token, wherever the semicolons are. The tokens of an earlier line point into a
  buffer that has been overwritten since: they are \<open>None\<close>. \<open>temp\<close> has 1024 entries.
\<close>

type_synonym url_state = "string option list \<times> QUERYAPIINFO_S smap"

definition url_token :: "url_state \<Rightarrow> string \<Rightarrow> url_state option" where
  "url_token st tok =
     (case st of (temp, apis) \<Rightarrow>
        let temp = temp @ [Some tok]; index = length temp - 1 in
        if PACKET \<le> index + 1 then None
        else if index mod 5 = 4 then
          (case (temp ! (index - 4), temp ! (index - 3), temp ! (index - 2), temp ! (index - 1)) of
             (Some name, Some param, Some prov, Some oper) \<Rightarrow>
               Some (temp, smap_put name \<lparr>mParam = memcpy128 param, mCarrierOperator = take 8 oper,
                       mProvince = atol prov, mQueryLimits = atol tok\<rparr> apis)
           | _ \<Rightarrow> None)
        else Some (temp, apis))"

fun url_tokens :: "url_state \<Rightarrow> string list \<Rightarrow> url_state option" where
  "url_tokens st [] = Some st"
| "url_tokens st (tok # toks) = Option.bind (url_token st tok) (\<lambda>st. url_tokens st toks)"

definition set_urls :: "url_state \<Rightarrow> string \<Rightarrow> string \<Rightarrow> url_state option" where
  "set_urls st k v =
     (let st = (map (\<lambda>_. None) (fst st), snd st) in
      if k = ''URLS'' then url_tokens st (concat (map (tokens CHR '','') (tokens CHR '';'' v)))
      else Some st)"

section \<open>The section readers\<close>

text \<open>
  One pass of the loop body: a skipped line or a key keeps the reader going (\<open>Inl\<close>), a section
  header ends it (\<open>Inr\<close>).
\<close>

definition section_body :: "('s \<Rightarrow> string \<Rightarrow> string \<Rightarrow> 's option) \<Rightarrow> 's \<Rightarrow> string \<Rightarrow> ('s + 's \<times> string) option" where
  "section_body assign st szLine =
     (case ConfIsValid szLine of (valid, l) \<Rightarrow>
        if \<not> valid then Some (Inl st)
        else Option.bind (ConfTrim l) (\<lambda>l.
          if ConfIsSection l then Some (Inr (st, l))
          else Option.bind (ConfKeyValue_ptr l) (\<lambda>kv.
            case kv of None \<Rightarrow> Some (Inl st)
            | Some (k, v) \<Rightarrow> map_option Inl (assign st k v))))"

text \<open>At the end of the file the section buffer becomes the empty string.\<close>

definition section_loop :: "('s \<Rightarrow> string \<Rightarrow> string \<Rightarrow> 's option) \<Rightarrow> 's \<Rightarrow> CConf \<Rightarrow> ('s \<times> string \<times> CConf) option" where
  "section_loop assign st c =
     map_option (\<lambda>(r, c). case r of Inl st \<Rightarrow> (st, [], c) | Inr (st, szSection) \<Rightarrow> (st, szSection, c))
       (line_loop PACKET (section_body assign) st c)"

definition BdxGetLogPrms :: "LOGPRMS_S \<Rightarrow> CConf \<Rightarrow> (LOGPRMS_S \<times> string \<times> CConf) option" where
  "BdxGetLogPrms p c = section_loop (\<lambda>p k v. Some (set_log p k v)) p c"

definition BdxGetHiveLogPrms :: "STATISTICSPRM_S \<Rightarrow> CConf \<Rightarrow> (STATISTICSPRM_S \<times> string \<times> CConf) option" where
  "BdxGetHiveLogPrms p c = section_loop (\<lambda>p k v. Some (set_statistics p k v)) p c"

definition set_statistics_globals :: "CUserQueryMain \<Rightarrow> string \<Rightarrow> string \<Rightarrow> CUserQueryMain" where
  "set_statistics_globals m k v =
     (if k = ''PATH'' \<or> k = ''FILE'' \<or> k = ''TIME''
      then m\<lparr>m_stStatisticsPrm := set_statistics (m_stStatisticsPrm m) k v\<rparr>
      else if k = ''SSLPATH'' then m\<lparr>strSslKeyPath := v\<rparr>
      else if k = ''SSLPASSWORD'' then m\<lparr>strSslKeyPassWord := v\<rparr>
      else if k = ''APIQPSLIMIT'' then m\<lparr>iAPIQpsLimit := atoi v\<rparr>
      else m)"

definition BdxGetStatisticPrms :: "CUserQueryMain \<Rightarrow> CConf \<Rightarrow> (CUserQueryMain \<times> string \<times> CConf) option" where
  "BdxGetStatisticPrms m c = section_loop (\<lambda>m k v. Some (set_statistics_globals m k v)) m c"

definition BdxGetServerPrms :: "IPPORT_S \<Rightarrow> CConf \<Rightarrow> (IPPORT_S \<times> string \<times> CConf) option" where
  "BdxGetServerPrms stIpPort c = section_loop (\<lambda>p k v. Some (set_server p k v)) stIpPort c"

definition BdxGetMonitorApiPrms :: "MORNITORAPI_INFO_S \<Rightarrow> CConf \<Rightarrow> (MORNITORAPI_INFO_S \<times> string \<times> CConf) option" where
  "BdxGetMonitorApiPrms p c = section_loop (\<lambda>p k v. Some (set_monitor p k v)) p c"

definition BdxGetMysqlServerPrms :: "MYSQL_SERVERINFO_S \<Rightarrow> CConf \<Rightarrow> (MYSQL_SERVERINFO_S \<times> string \<times> CConf) option" where
  "BdxGetMysqlServerPrms p c = section_loop (\<lambda>p k v. Some (set_mysql p k v)) p c"

definition BdxGetServerUrlAPI :: "QUERYAPIINFO_S smap \<Rightarrow> CConf \<Rightarrow> (QUERYAPIINFO_S smap \<times> string \<times> CConf) option" where
  "BdxGetServerUrlAPI apis c =
     map_option (\<lambda>((temp, apis), sec, c). (apis, sec, c)) (section_loop set_urls ([], apis) c)"

definition BdxGetThreadsPrm :: "u32 \<Rightarrow> CConf \<Rightarrow> (u32 \<times> string \<times> CConf) option" where
  "BdxGetThreadsPrm n c =
     section_loop (\<lambda>n k v. Some (if k = ''NUM'' then word_of_int (atoi v) else n)) n c"

section \<open>Reading the whole file\<close>

text \<open>The chain of comparisons on the section name; an unknown name changes nothing.\<close>

definition into :: "('a \<Rightarrow> 'm) \<Rightarrow> ('a \<times> string \<times> CConf) option \<Rightarrow> ('m \<times> string \<times> CConf) option" where
  "into f r = map_option (\<lambda>(x, sec, c). (f x, sec, c)) r"

definition read_section :: "string \<Rightarrow> CUserQueryMain \<Rightarrow> CConf \<Rightarrow> (CUserQueryMain \<times> string \<times> CConf) option" where
  "read_section szSection m c =
     (if szSection = ''[LOG]'' then
        into (\<lambda>x. m\<lparr>m_stLogPrms := x\<rparr>) (BdxGetLogPrms (m_stLogPrms m) c)
      else if szSection = ''[TRAFFICHIVELOG]'' then
        into (\<lambda>x. m\<lparr>m_stHiveLogPrm := x\<rparr>) (BdxGetHiveLogPrms (m_stHiveLogPrm m) c)
      else if szSection = ''[TRAFFICSTATISTICS]'' then BdxGetStatisticPrms m c
      else if szSection = ''[REDISSERVER]'' then
        into (\<lambda>x. m\<lparr>m_stServerInfo := (m_stServerInfo m)\<lparr>m_stRedisServer := x\<rparr>\<rparr>)
          (BdxGetServerPrms (m_stRedisServer (m_stServerInfo m)) c)
      else if szSection = ''[MYSQLSERVER]'' then
        into (\<lambda>x. m\<lparr>m_stMysqlInfo := x\<rparr>) (BdxGetMysqlServerPrms (m_stMysqlInfo m) c)
      else if szSection = ''[LOCALSERVER]'' then
        into (\<lambda>x. m\<lparr>m_stServerInfo := (m_stServerInfo m)\<lparr>m_stLocalServer := x\<rparr>\<rparr>)
          (BdxGetServerPrms (m_stLocalServer (m_stServerInfo m)) c)
      else if szSection = ''[WORKTHREADS]'' then
        into (\<lambda>x. m\<lparr>m_uiThreadsNum := x\<rparr>) (BdxGetThreadsPrm (m_uiThreadsNum m) c)
      else if szSection = ''[QUERYAPIS]'' then
        into (\<lambda>x. m\<lparr>g_vecUrlAPIS := x\<rparr>) (BdxGetServerUrlAPI (g_vecUrlAPIS m) c)
      else if szSection = ''[MONITORAPIINFO]'' then
        into (\<lambda>x. m\<lparr>g_monitor := x\<rparr>) (BdxGetMonitorApiPrms (g_monitor m) c)
      else Some (m, szSection, c))"

datatype 'a run = UB | Ret 'a

partial_function (option) init_loop :: "string \<Rightarrow> CUserQueryMain \<Rightarrow> CConf \<Rightarrow> CUserQueryMain run option" where
  "init_loop szSection m c =
     (if length szSection \<noteq> 0 then
        (case read_section szSection m c of
           None \<Rightarrow> Some UB
         | Some (m, szSection, c) \<Rightarrow> init_loop szSection m c)
      else Some (Ret m))"

text \<open>The \<open>do\<close> loop in front of it: the first section header, or failure at the end of the file.\<close>

definition first_section_body :: "unit \<Rightarrow> string \<Rightarrow> (unit + string) option" where
  "first_section_body u szLine =
     map_option (\<lambda>l. case ConfIsValid l of (valid, l) \<Rightarrow>
         if \<not> valid \<or> \<not> ConfIsSection l then Inl () else Inr l)
       (ConfTrim szLine)"

definition BdxInitConfig :: "(string \<Rightarrow> string option) \<Rightarrow> string \<Rightarrow> CUserQueryMain \<Rightarrow> (bool \<times> CUserQueryMain) run option" where
  "BdxInitConfig fs pszCfgFile m =
     (case ConfOpen fs pszCfgFile of (rc, c) \<Rightarrow>
        if rc \<noteq> SUCCESS then Some (Ret (False, m))
        else case line_loop PACKET first_section_body () c of
          None \<Rightarrow> Some UB
        | Some (Inl _, c) \<Rightarrow> Some (Ret (False, m))
        | Some (Inr szSection, c) \<Rightarrow>
            (case init_loop szSection m c of
               None \<Rightarrow> None
             | Some UB \<Rightarrow> Some UB
             | Some (Ret m) \<Rightarrow> Some (Ret (True, m))))"

section \<open>Configuration files as text\<close>

text \<open>
  A file in the documented format: sections with lines \<open>key = value\<close>, blanks anywhere around key
  and value, an optional trailing remark, remark lines and empty lines.
\<close>

datatype item = Pair string string string string string string | Note string | Empty string

definition blanks :: "string \<Rightarrow> bool" where
  "blanks s \<longleftrightarrow> list_all (\<lambda>c. is_blank c \<and> c \<noteq> CTRL_N) s"

fun print_item :: "item \<Rightarrow> string" where
  "print_item (Pair k b1 b2 v b3 r) = k @ b1 @ EQUAL # b2 @ v @ b3 @ r @ [CTRL_N]"
| "print_item (Note r) = REMARK # r @ [CTRL_N]"
| "print_item (Empty b) = b @ [CTRL_N]"

definition tight :: "string \<Rightarrow> bool" where
  "tight s \<longleftrightarrow> s = [] \<or> \<not> is_blank (hd s) \<and> \<not> is_blank (last s)"

definition plain :: "string \<Rightarrow> bool" where
  "plain s \<longleftrightarrow> NUL \<notin> set s \<and> CTRL_N \<notin> set s \<and> REMARK \<notin> set s"

fun item_ok :: "item \<Rightarrow> bool" where
  "item_ok (Pair k b1 b2 v b3 r) \<longleftrightarrow>
     k \<noteq> [] \<and> tight k \<and> plain k \<and> EQUAL \<notin> set k \<and> hd k \<noteq> SEC_L \<and> blanks b1 \<and> blanks b2 \<and>
     tight v \<and> plain v \<and> blanks b3 \<and> (r = [] \<or> hd r = REMARK) \<and> NUL \<notin> set r \<and> CTRL_N \<notin> set r \<and>
     length (print_item (Pair k b1 b2 v b3 r)) < PACKET"
| "item_ok (Note r) \<longleftrightarrow> NUL \<notin> set r \<and> CTRL_N \<notin> set r \<and> length r < PACKET - 2"
| "item_ok (Empty b) \<longleftrightarrow> blanks b \<and> length b < PACKET - 1"

fun item_pairs :: "item \<Rightarrow> (string \<times> string) list" where
  "item_pairs (Pair k b1 b2 v b3 r) = [(k, v)]"
| "item_pairs _ = []"

definition header :: "string \<Rightarrow> string" where
  "header n = SEC_L # n @ '']''"

definition header_ok :: "string \<Rightarrow> bool" where
  "header_ok n \<longleftrightarrow> plain n \<and> length n < PACKET - 3"

definition print_items :: "item list \<Rightarrow> string" where
  "print_items its = concat (map print_item its)"

definition pairs_of :: "item list \<Rightarrow> (string \<times> string) list" where
  "pairs_of its = concat (map item_pairs its)"

definition print_section :: "string \<times> item list \<Rightarrow> string" where
  "print_section ni = header (fst ni) @ CTRL_N # print_items (snd ni)"

abbreviation conf_at :: "string \<Rightarrow> string \<Rightarrow> CConf" where
  "conf_at r t \<equiv> \<lparr>m_pstFile = Some \<lparr>f_read = r, f_rest = t\<rparr>\<rparr>"

fun assign_all :: "('s \<Rightarrow> string \<Rightarrow> string \<Rightarrow> 's option) \<Rightarrow> 's \<Rightarrow> (string \<times> string) list \<Rightarrow> 's option" where
  "assign_all assign s [] = Some s"
| "assign_all assign s ((k, v) # kvs) = Option.bind (assign s k v) (\<lambda>s. assign_all assign s kvs)"

lemma assign_all_append:
  "assign_all a s (xs @ ys) = Option.bind (assign_all a s xs) (\<lambda>s. assign_all a s ys)"
  by (induction a s xs rule: assign_all.induct) (auto simp: bind_eq_Some_conv split: bind_splits)

lemma assign_all_pure:
  "assign_all (\<lambda>s k v. Some (f s k v)) s kvs = Some (foldl (\<lambda>s (k, v). f s k v) s kvs)"
  by (induction kvs arbitrary: s) auto

section \<open>Trimming\<close>

definition rstrip :: "string \<Rightarrow> string" where
  "rstrip s = rev (dropWhile is_blank (rev s))"

lemma rstrip_blanks: "list_all is_blank b \<Longrightarrow> rstrip (a @ b) = rstrip a"
  by (auto simp: rstrip_def dropWhile_append list_all_iff)

lemma rstrip_tight: "a = [] \<or> \<not> is_blank (last a) \<Longrightarrow> rstrip a = a"
  by (cases a rule: rev_cases) (auto simp: rstrip_def)

lemma not_blank_chars:
  "\<not> is_blank NUL" "\<not> is_blank REMARK" "\<not> is_blank EQUAL" "\<not> is_blank SEC_L" "\<not> is_blank CHR '']''"
  by (simp_all add: is_blank_def NUL_def)

lemma is_blank_newline [simp]: "is_blank CTRL_N"
  by (simp add: is_blank_def)

lemma blanks_list_all: "blanks b \<Longrightarrow> list_all is_blank b"
  unfolding blanks_def list_all_iff by blast

lemma blanks_plain: "blanks b \<Longrightarrow> plain b \<and> EQUAL \<notin> set b"
  unfolding blanks_def plain_def list_all_iff using not_blank_chars by blast

lemma ConfTrimRight_body:
  assumes "REMARK \<notin> set a" "a \<noteq> []" "\<not> is_blank (last a)" "list_all is_blank b" "r = [] \<or> hd r = REMARK"
  shows "ConfTrimRight (a @ b @ r) = Some a"
proof -
  have "REMARK \<notin> set (a @ b)"
    using assms(1,4) not_blank_chars(2) unfolding list_all_iff by auto
  then have "takeWhile (\<lambda>c. c \<noteq> REMARK) ((a @ b) @ r) = (a @ b) @ takeWhile (\<lambda>c. c \<noteq> REMARK) r"
    by (intro takeWhile_append2) blast
  moreover have "takeWhile (\<lambda>c. c \<noteq> REMARK) r = []"
    using assms(5) by (cases r) simp_all
  ultimately have "takeWhile (\<lambda>c. c \<noteq> REMARK) (a @ b @ r) = a @ b"
    by (simp only: append_assoc append_Nil2)
  then have "rev (dropWhile is_blank (rev (takeWhile (\<lambda>c. c \<noteq> REMARK) (a @ b @ r)))) = a"
    using rstrip_blanks [OF assms(4), of a] rstrip_tight [of a] assms by (simp add: rstrip_def)
  then show ?thesis using assms(2) by (simp add: ConfTrimRight_def)
qed

lemma ConfTrimLeft_tight [simp]: "s = [] \<or> \<not> is_blank (hd s) \<Longrightarrow> ConfTrimLeft (s @ t) = (if s = [] then ConfTrimLeft t else s @ t)"
  by (cases s) (auto simp: ConfTrimLeft_def)

lemma ConfTrimLeft_blanks: "list_all is_blank b \<Longrightarrow> ConfTrimLeft (b @ t) = ConfTrimLeft t"
  by (auto simp: ConfTrimLeft_def list_all_iff)

section \<open>What the readers make of one line\<close>

lemma ConfIsValid_line:
  assumes "k \<noteq> []" "\<not> is_blank (hd k)" "hd k \<noteq> REMARK"
  shows "ConfIsValid (k @ t) = (True, k @ t)"
  using assms by (cases k) (simp_all add: ConfIsValid_def ConfTrimLeft_def)

lemma ConfKeyValue_ptr_line:
  assumes "k \<noteq> []" "tight k" "plain k" "EQUAL \<notin> set k" "blanks b"
  shows "ConfKeyValue_ptr (k @ b @ EQUAL # w) = Some (Some (k, ConfTrimLeft w))"
proof -
  have "EQUAL \<notin> set (k @ b)" using assms blanks_plain by simp
  then have "takeWhile (\<lambda>c. c \<noteq> EQUAL) ((k @ b) @ EQUAL # w) = k @ b"
    by (subst takeWhile_append2) (blast, simp)
  then have "takeWhile (\<lambda>c. c \<noteq> EQUAL) (k @ b @ EQUAL # w) = k @ b" by simp
  moreover have "ConfTrimRight (k @ b @ []) = Some k"
    using assms blanks_list_all by (intro ConfTrimRight_body) (auto simp: tight_def plain_def)
  ultimately show ?thesis by (simp add: ConfKeyValue_ptr_def)
qed

lemma ConfTrim_pair:
  assumes "item_ok (Pair k b1 b2 v b3 r)"
  shows "\<exists>w. ConfTrim (print_item (Pair k b1 b2 v b3 r)) = Some (k @ b1 @ EQUAL # w) \<and> ConfTrimLeft w = v"
proof -
  define e where "e = (if r = [] then b3 @ [CTRL_N] else b3)"
  define r' where "r' = (if r = [] then [] else r @ [CTRL_N])"
  have hk: "k \<noteq> []" "\<not> is_blank (hd k)" "REMARK \<notin> set k" "REMARK \<notin> set v" "REMARK \<notin> set b1" "REMARK \<notin> set b2"
    using assms blanks_plain by (auto simp: tight_def plain_def)
  have e: "list_all is_blank e" "list_all is_blank b2"
    using assms blanks_list_all by (auto simp: e_def)
  have r': "r' = [] \<or> hd r' = REMARK" using assms by (auto simp: r'_def)
  have line: "print_item (Pair k b1 b2 v b3 r) = k @ b1 @ EQUAL # b2 @ v @ e @ r'"
    by (simp add: e_def r'_def)
  have tl: "ConfTrimLeft (k @ t) = k @ t" for t using hk by simp
  show ?thesis
  proof (cases "v = []")
    case True
    have "ConfTrimRight ((k @ b1 @ [EQUAL]) @ (b2 @ e) @ r') = Some (k @ b1 @ [EQUAL])"
      using hk e r' by (intro ConfTrimRight_body) (auto simp: not_blank_chars)
    with True show ?thesis
      unfolding line ConfTrim_def tl by (intro exI [of _ "[]"]) (simp add: ConfTrimLeft_def)
  next
    case False
    have "ConfTrimRight ((k @ b1 @ EQUAL # b2 @ v) @ e @ r') = Some (k @ b1 @ EQUAL # b2 @ v)"
      using hk e r' False assms by (intro ConfTrimRight_body) (auto simp: not_blank_chars tight_def)
    moreover have "ConfTrimLeft (b2 @ v) = v"
      using ConfTrimLeft_tight [of v "[]"] False assms by (simp add: ConfTrimLeft_blanks [OF e(2)] tight_def)
    ultimately show ?thesis
      unfolding line ConfTrim_def tl by (intro exI [of _ "b2 @ v"]) simp
  qed
qed

lemma body_pair:
  assumes "item_ok (Pair k b1 b2 v b3 r)"
  shows "section_body assign st (print_item (Pair k b1 b2 v b3 r)) = map_option Inl (assign st k v)"
proof -
  obtain w where w: "ConfTrim (print_item (Pair k b1 b2 v b3 r)) = Some (k @ b1 @ EQUAL # w)" "ConfTrimLeft w = v"
    using ConfTrim_pair [OF assms] by blast
  have k: "k \<noteq> []" "\<not> is_blank (hd k)" "hd k \<noteq> REMARK" "hd k \<noteq> SEC_L"
    using assms by (auto simp: tight_def plain_def hd_in_set dest!: hd_in_set)
  then have "\<not> ConfIsSection (k @ b1 @ EQUAL # w)"
    by (cases k) (simp_all add: ConfIsSection_def)
  moreover have "ConfKeyValue_ptr (k @ b1 @ EQUAL # w) = Some (Some (k, v))"
    using assms w(2) by (simp add: ConfKeyValue_ptr_line)
  moreover have "ConfIsValid (print_item (Pair k b1 b2 v b3 r)) = (True, print_item (Pair k b1 b2 v b3 r))"
    using ConfIsValid_line [OF k(1-3)] by simp
  ultimately show ?thesis
    using w(1) unfolding section_body_def by simp
qed

lemma body_note: "section_body assign st (print_item (Note r)) = Some (Inl st)"
  by (simp add: section_body_def ConfIsValid_def)

lemma body_empty: "blanks b \<Longrightarrow> section_body assign st (print_item (Empty b)) = Some (Inl st)"
proof -
  assume "blanks b"
  then have a: "list_all is_blank (b @ [CTRL_N])"
    using blanks_list_all by (simp add: is_blank_def)
  then have "ConfTrimLeft (b @ [CTRL_N]) = []"
    using ConfTrimLeft_blanks [OF a, of "[]"] by (simp add: ConfTrimLeft_def)
  moreover have "take 1 (b @ [CTRL_N]) \<noteq> [REMARK]"
    using a not_blank_chars(2) by (cases b) auto
  ultimately show ?thesis by (simp add: section_body_def ConfIsValid_def Let_def)
qed

lemma ConfTrim_header:
  assumes "header_ok n"
  shows "ConfTrim (header n @ [CTRL_N]) = Some (header n)"
proof -
  have "ConfTrimRight (header n @ [CTRL_N] @ []) = Some (header n)"
    using assms by (intro ConfTrimRight_body)
      (auto simp: header_def header_ok_def plain_def not_blank_chars is_blank_def)
  then show ?thesis by (simp add: ConfTrim_def header_def not_blank_chars ConfTrimLeft_def)
qed

lemma body_header:
  assumes "header_ok n"
  shows "section_body assign st (header n @ [CTRL_N]) = Some (Inr (st, header n))"
  using ConfTrim_header [OF assms] ConfIsValid_line [of "header n" "[CTRL_N]"] not_blank_chars(4)
  by (simp add: section_body_def header_def ConfIsSection_def)

section \<open>Line by line through a file\<close>

lemma upto_newline_line:
  "CTRL_N \<notin> set l \<Longrightarrow> length l < n \<Longrightarrow> upto_newline n (l @ CTRL_N # t) = l @ [CTRL_N]"
proof (induction l arbitrary: n)
  case Nil
  then show ?case by (cases n) auto
next
  case (Cons c l)
  then show ?case by (cases n) auto
qed

lemma line_loop_line:
  assumes "CTRL_N \<notin> set l" "NUL \<notin> set l" "length l < PACKET - 1"
  shows "line_loop PACKET body s (conf_at r (l @ CTRL_N # t)) =
     (case body s (l @ [CTRL_N]) of
        None \<Rightarrow> None
      | Some (Inl s') \<Rightarrow> line_loop PACKET body s' (conf_at (r @ l @ [CTRL_N]) t)
      | Some (Inr x) \<Rightarrow> Some (Inr x, conf_at (r @ l @ [CTRL_N]) t))"
proof -
  have "upto_newline (PACKET - 1) (l @ CTRL_N # t) = l @ [CTRL_N]"
    using assms by (intro upto_newline_line) auto
  moreover have "cstr (l @ [CTRL_N]) = l @ [CTRL_N]"
    using assms(2) by (intro cstr_id) (simp add: NUL_def)
  ultimately have "ConfGetLine (conf_at r (l @ CTRL_N # t)) PACKET
      = (SUCCESS, l @ [CTRL_N], conf_at (r @ l @ [CTRL_N]) t)"
    by (simp add: ConfGetLine_def fgets_def Let_def)
  then show ?thesis by (subst line_loop.simps) simp
qed

lemma line_loop_end: "line_loop PACKET body s (conf_at r []) = Some (Inl s, conf_at r [])"
  by (subst line_loop.simps) (simp add: ConfGetLine_def fgets_def)

lemma item_line:
  assumes "item_ok it"
  obtains l where "print_item it = l @ [CTRL_N]" "CTRL_N \<notin> set l" "NUL \<notin> set l" "length l < PACKET - 1"
proof (cases it)
  case (Pair k b1 b2 v b3 r)
  let ?l = "k @ b1 @ EQUAL # b2 @ v @ b3 @ r"
  have "CTRL_N \<notin> set ?l" "NUL \<notin> set ?l"
    using assms Pair blanks_plain by (auto simp: plain_def NUL_def)
  moreover have "length ?l < PACKET - 1" using assms Pair by simp
  ultimately show thesis using that [of ?l] Pair by simp
next
  case (Note r)
  then show thesis using that [of "REMARK # r"] assms by (simp add: NUL_def)
next
  case (Empty b)
  then show thesis using that [of b] assms blanks_plain by (simp add: plain_def)
qed

lemma line_loop_item:
  assumes "item_ok it"
  shows "line_loop PACKET body s (conf_at r (print_item it @ t)) =
     (case body s (print_item it) of
        None \<Rightarrow> None
      | Some (Inl s') \<Rightarrow> line_loop PACKET body s' (conf_at (r @ print_item it) t)
      | Some (Inr x) \<Rightarrow> Some (Inr x, conf_at (r @ print_item it) t))"
proof -
  obtain l where l: "print_item it = l @ [CTRL_N]" "CTRL_N \<notin> set l" "NUL \<notin> set l" "length l < PACKET - 1"
    using item_line [OF assms] by blast
  show ?thesis
    unfolding l(1) append_assoc using line_loop_line [OF l(2-4)] by (simp only: append.simps)
qed

lemma section_loop_items:
  "list_all item_ok its \<Longrightarrow> assign_all assign st (pairs_of its) = Some st' \<Longrightarrow>
   section_loop assign st (conf_at r (print_items its @ t)) = section_loop assign st' (conf_at (r @ print_items its) t)"
proof (induction its arbitrary: st r)
  case Nil
  then show ?case by (simp add: print_items_def pairs_of_def)
next
  case (Cons it its)
  have ok: "item_ok it" "list_all item_ok its" using Cons.prems by simp_all
  obtain st1 where st1: "assign_all assign st (item_pairs it) = Some st1"
      "assign_all assign st1 (pairs_of its) = Some st'"
    using Cons.prems(2) by (auto simp: pairs_of_def assign_all_append bind_eq_Some_conv)
  have "section_body assign st (print_item it) = Some (Inl st1)"
    using st1(1) ok(1)
    by (cases it) (simp_all add: body_pair body_note body_empty del: print_item.simps item_ok.simps(1))
  then have "section_loop assign st (conf_at r (print_items (it # its) @ t))
      = section_loop assign st1 (conf_at (r @ print_item it) (print_items its @ t))"
    using line_loop_item [OF ok(1), of "section_body assign" st r "print_items its @ t"]
    by (simp add: section_loop_def print_items_def)
  with Cons.IH [OF ok(2) st1(2)] show ?case by (simp add: print_items_def)
qed

lemma section_loop_next:
  assumes "header_ok n"
  shows "section_loop assign st (conf_at r (header n @ CTRL_N # t)) = Some (st, header n, conf_at (r @ header n @ [CTRL_N]) t)"
proof -
  have "CTRL_N \<notin> set (header n)" "NUL \<notin> set (header n)" "length (header n) < PACKET - 1"
    using assms by (auto simp: header_def header_ok_def plain_def NUL_def)
  then show ?thesis
    by (simp add: section_loop_def line_loop_line body_header [OF assms])
qed

lemma section_loop_last:
  "section_loop assign st (conf_at r []) = Some (st, [], conf_at r [])"
  by (simp add: section_loop_def line_loop_end)

section \<open>The contract of a section reader\<close>

text \<open>What stands at the position of the stream after the header of the next section.\<close>

definition print_sections :: "(string \<times> item list) list \<Rightarrow> string" where
  "print_sections secs = concat (map print_section secs)"

fun next_header :: "(string \<times> item list) list \<Rightarrow> string" where
  "next_header [] = []"
| "next_header ((n, its) # secs) = header n"

fun after_header :: "(string \<times> item list) list \<Rightarrow> string" where
  "after_header [] = []"
| "after_header ((n, its) # secs) = print_items its @ print_sections secs"

definition section_ok :: "string \<times> item list \<Rightarrow> bool" where
  "section_ok ni \<longleftrightarrow> header_ok (fst ni) \<and> list_all item_ok (snd ni)"

text \<open>
  A section reader updates its parameters with the pairs of the section, hands over the name of
  the next section, or the empty string at the end of the file, and leaves the stream behind it.
\<close>

locale section_reader =
  fixes read :: "'c \<Rightarrow> CConf \<Rightarrow> ('c \<times> string \<times> CConf) option"
    and update :: "'c \<Rightarrow> (string \<times> string) list \<Rightarrow> 'c option"
  assumes read_next:
      "list_all item_ok its \<Longrightarrow> update p (pairs_of its) = Some p' \<Longrightarrow> header_ok n \<Longrightarrow>
       read p (conf_at r (print_items its @ header n @ CTRL_N # t)) =
         Some (p', header n, conf_at (r @ print_items its @ header n @ [CTRL_N]) t)"
    and read_last:
      "list_all item_ok its \<Longrightarrow> update p (pairs_of its) = Some p' \<Longrightarrow>
       read p (conf_at r (print_items its)) = Some (p', [], conf_at (r @ print_items its) [])"
begin

lemma read_rest:
  assumes "list_all item_ok its" "update p (pairs_of its) = Some p'" "list_all section_ok secs"
  shows "\<exists>r'. into f (read p (conf_at r (print_items its @ print_sections secs))) =
           Some (f p', next_header secs, conf_at r' (after_header secs))"
proof (cases secs)
  case Nil
  then show ?thesis
    using read_last [OF assms(1,2), of r] by (simp add: into_def print_sections_def)
next
  case (Cons ni secs')
  obtain n its' where ni: "ni = (n, its')" by (cases ni)
  have "header_ok n" using assms(3) Cons ni by (simp add: section_ok_def)
  from read_next [OF assms(1,2) this, of r "print_items its' @ print_sections secs'"] show ?thesis
    unfolding Cons ni by (simp add: into_def print_sections_def print_section_def)
qed

end

lemma section_loop_reader: "section_reader (section_loop assign) (assign_all assign)"
  by unfold_locales (simp_all add: section_loop_items section_loop_next section_loop_last
      section_loop_items [where t = "[]", simplified])

lemma section_loop_pure_reader:
  "section_reader (section_loop (\<lambda>p k v. Some (f p k v))) (\<lambda>p kvs. Some (foldl (\<lambda>p (k, v). f p k v) p kvs))"
  using section_loop_reader [of "\<lambda>p k v. Some (f p k v)"] unfolding assign_all_pure .

interpretation log_reader: section_reader BdxGetLogPrms
  "\<lambda>p kvs. Some (foldl (\<lambda>p (k, v). set_log p k v) p kvs)"
  unfolding BdxGetLogPrms_def by (rule section_loop_pure_reader)

interpretation hive_reader: section_reader BdxGetHiveLogPrms
  "\<lambda>p kvs. Some (foldl (\<lambda>p (k, v). set_statistics p k v) p kvs)"
  unfolding BdxGetHiveLogPrms_def by (rule section_loop_pure_reader)

interpretation statistic_reader: section_reader BdxGetStatisticPrms
  "\<lambda>m kvs. Some (foldl (\<lambda>m (k, v). set_statistics_globals m k v) m kvs)"
  unfolding BdxGetStatisticPrms_def by (rule section_loop_pure_reader)

interpretation server_reader: section_reader BdxGetServerPrms
  "\<lambda>p kvs. Some (foldl (\<lambda>p (k, v). set_server p k v) p kvs)"
  unfolding BdxGetServerPrms_def by (rule section_loop_pure_reader)

interpretation mysql_reader: section_reader BdxGetMysqlServerPrms
  "\<lambda>p kvs. Some (foldl (\<lambda>p (k, v). set_mysql p k v) p kvs)"
  unfolding BdxGetMysqlServerPrms_def by (rule section_loop_pure_reader)

interpretation monitor_reader: section_reader BdxGetMonitorApiPrms
  "\<lambda>p kvs. Some (foldl (\<lambda>p (k, v). set_monitor p k v) p kvs)"
  unfolding BdxGetMonitorApiPrms_def by (rule section_loop_pure_reader)

interpretation threads_reader: section_reader BdxGetThreadsPrm
  "\<lambda>n kvs. Some (foldl (\<lambda>n (k, v). if k = ''NUM'' then word_of_int (atoi v) else n) n kvs)"
  unfolding BdxGetThreadsPrm_def by (rule section_loop_pure_reader)

interpretation url_reader: section_reader BdxGetServerUrlAPI
  "\<lambda>apis kvs. map_option snd (assign_all set_urls ([], apis) kvs)"
proof -
  have r: "section_reader (section_loop set_urls) (assign_all set_urls)" by (rule section_loop_reader)
  show "section_reader BdxGetServerUrlAPI (\<lambda>apis kvs. map_option snd (assign_all set_urls ([], apis) kvs))"
    unfolding BdxGetServerUrlAPI_def
    by unfold_locales
      (auto simp: section_reader.read_next [OF r] section_reader.read_last [OF r] split: prod.splits)
qed

section \<open>The meaning of a configuration file\<close>

text \<open>
  The specification: a section sets the parameters of its component from its pairs, in order;
  \<open>None\<close> where the code gives the section no meaning.
\<close>

definition section_update :: "string \<Rightarrow> CUserQueryMain \<Rightarrow> (string \<times> string) list \<Rightarrow> CUserQueryMain option" where
  "section_update n m kvs =
     (if n = ''LOG'' then
        Some (m\<lparr>m_stLogPrms := foldl (\<lambda>p (k, v). set_log p k v) (m_stLogPrms m) kvs\<rparr>)
      else if n = ''TRAFFICHIVELOG'' then
        Some (m\<lparr>m_stHiveLogPrm := foldl (\<lambda>p (k, v). set_statistics p k v) (m_stHiveLogPrm m) kvs\<rparr>)
      else if n = ''TRAFFICSTATISTICS'' then
        Some (foldl (\<lambda>m (k, v). set_statistics_globals m k v) m kvs)
      else if n = ''REDISSERVER'' then
        Some (m\<lparr>m_stServerInfo := (m_stServerInfo m)\<lparr>m_stRedisServer :=
          foldl (\<lambda>p (k, v). set_server p k v) (m_stRedisServer (m_stServerInfo m)) kvs\<rparr>\<rparr>)
      else if n = ''MYSQLSERVER'' then
        Some (m\<lparr>m_stMysqlInfo := foldl (\<lambda>p (k, v). set_mysql p k v) (m_stMysqlInfo m) kvs\<rparr>)
      else if n = ''LOCALSERVER'' then
        Some (m\<lparr>m_stServerInfo := (m_stServerInfo m)\<lparr>m_stLocalServer :=
          foldl (\<lambda>p (k, v). set_server p k v) (m_stLocalServer (m_stServerInfo m)) kvs\<rparr>\<rparr>)
      else if n = ''WORKTHREADS'' then
        Some (m\<lparr>m_uiThreadsNum :=
          foldl (\<lambda>n (k, v). if k = ''NUM'' then word_of_int (atoi v) else n) (m_uiThreadsNum m) kvs\<rparr>)
      else if n = ''QUERYAPIS'' then
        map_option (\<lambda>apis. m\<lparr>g_vecUrlAPIS := apis\<rparr>)
          (map_option snd (assign_all set_urls ([], g_vecUrlAPIS m) kvs))
      else if n = ''MONITORAPIINFO'' then
        Some (m\<lparr>g_monitor := foldl (\<lambda>p (k, v). set_monitor p k v) (g_monitor m) kvs\<rparr>)
      else None)"

fun config_meaning :: "CUserQueryMain \<Rightarrow> (string \<times> item list) list \<Rightarrow> CUserQueryMain option" where
  "config_meaning m [] = Some m"
| "config_meaning m ((n, its) # secs) =
     Option.bind (section_update n m (pairs_of its)) (\<lambda>m. config_meaning m secs)"

definition known_sections :: "string list" where
  "known_sections = [''LOG'', ''TRAFFICHIVELOG'', ''TRAFFICSTATISTICS'', ''REDISSERVER'', ''MYSQLSERVER'',
     ''LOCALSERVER'', ''WORKTHREADS'', ''QUERYAPIS'', ''MONITORAPIINFO'']"

lemma header_inject [simp]: "header n = header n' \<longleftrightarrow> n = n'"
  by (simp add: header_def)

lemma header_names:
  "''[LOG]'' = header ''LOG''" "''[TRAFFICHIVELOG]'' = header ''TRAFFICHIVELOG''"
  "''[TRAFFICSTATISTICS]'' = header ''TRAFFICSTATISTICS''" "''[REDISSERVER]'' = header ''REDISSERVER''"
  "''[MYSQLSERVER]'' = header ''MYSQLSERVER''" "''[LOCALSERVER]'' = header ''LOCALSERVER''"
  "''[WORKTHREADS]'' = header ''WORKTHREADS''" "''[QUERYAPIS]'' = header ''QUERYAPIS''"
  "''[MONITORAPIINFO]'' = header ''MONITORAPIINFO''"
  by (simp_all add: header_def)

lemma into_id: "into (\<lambda>x. x) r = r"
  by (cases r) (simp_all add: into_def)

lemma section_update_known: "section_update n m kvs = Some m' \<Longrightarrow> n \<in> set known_sections"
  by (simp add: section_update_def known_sections_def split: if_splits)

lemma read_section_meaning:
  assumes "section_update n m (pairs_of its) = Some m'" "list_all item_ok its" "list_all section_ok secs"
  shows "\<exists>r'. read_section (header n) m (conf_at r (print_items its @ print_sections secs)) =
           Some (m', next_header secs, conf_at r' (after_header secs))"
proof -
  note readers =
    log_reader.read_rest [OF assms(2) refl assms(3)]
    hive_reader.read_rest [OF assms(2) refl assms(3)]
    statistic_reader.read_rest [OF assms(2) refl assms(3), where f = "\<lambda>x. x", unfolded into_id]
    server_reader.read_rest [OF assms(2) refl assms(3)]
    mysql_reader.read_rest [OF assms(2) refl assms(3)]
    monitor_reader.read_rest [OF assms(2) refl assms(3)]
    threads_reader.read_rest [OF assms(2) refl assms(3)]
  have url: "\<exists>r'. into f (BdxGetServerUrlAPI apis (conf_at r (print_items its @ print_sections secs))) =
      Some (f apis', next_header secs, conf_at r' (after_header secs))"
    if "map_option snd (assign_all set_urls ([], apis) (pairs_of its)) = Some apis'"
    for f :: "QUERYAPIINFO_S smap \<Rightarrow> CUserQueryMain" and apis apis'
    using url_reader.read_rest [OF assms(2) that assms(3)] .
  from section_update_known [OF assms(1)] assms(1) show ?thesis
    unfolding known_sections_def list.set insert_iff empty_iff simp_thms
    by (elim disjE; simp only: section_update_def read_section_def header_names header_inject
          list.inject char.inject simp_thms if_True if_False option.inject)
      (auto intro: readers url)
qed

section \<open>The loop over the sections\<close>

lemma init_loop_prefix:
  "config_meaning m secs = Some m' \<Longrightarrow> list_all section_ok (secs @ rest) \<Longrightarrow>
   \<exists>r'. init_loop (next_header (secs @ rest)) m (conf_at r (after_header (secs @ rest))) =
        init_loop (next_header rest) m' (conf_at r' (after_header rest))"
proof (induction secs arbitrary: m r)
  case Nil
  then show ?case by auto
next
  case (Cons ni secs)
  obtain n its where ni: "ni = (n, its)" by (cases ni)
  obtain m1 where m1: "section_update n m (pairs_of its) = Some m1" "config_meaning m1 secs = Some m'"
    using Cons.prems(1) ni by (auto simp: bind_eq_Some_conv)
  have ok: "list_all item_ok its" "list_all section_ok (secs @ rest)"
    using Cons.prems(2) ni by (simp_all add: section_ok_def [of "(n, its)"])
  obtain r1 where "read_section (header n) m (conf_at r (print_items its @ print_sections (secs @ rest))) =
      Some (m1, next_header (secs @ rest), conf_at r1 (after_header (secs @ rest)))"
    using read_section_meaning [OF m1(1) ok] by blast
  then have "init_loop (header n) m (conf_at r (print_items its @ print_sections (secs @ rest))) =
      init_loop (next_header (secs @ rest)) m1 (conf_at r1 (after_header (secs @ rest)))"
    by (subst init_loop.simps) (simp add: header_def)
  with Cons.IH [OF m1(2) ok(2)] ni show ?case by auto
qed

lemma init_loop_done: "init_loop [] m c = Some (Ret m)"
  by (subst init_loop.simps) simp

lemma init_loop_needs_known:
  "init_loop sec m c = Some r \<Longrightarrow> sec = [] \<or> sec \<in> header ` set known_sections"
proof (induction sec m c r rule: init_loop.raw_induct [rotated, consumes 1, case_names step])
  case (step f sec m c r)
  show ?case
  proof (rule ccontr)
    assume u: "\<not> ?thesis"
    then have "read_section sec m c = Some (m, sec, c)"
      unfolding read_section_def header_names known_sections_def by simp
    with step(2) u have "f sec m c = Some r" by simp
    with step(1) u show False by blast
  qed
qed

lemma first_section_skip:
  assumes "list_all (\<lambda>b. blanks b \<and> length b < PACKET - 1) bs" "header_ok n"
  shows "\<exists>r'. line_loop PACKET first_section_body () (conf_at r (concat (map (\<lambda>b. b @ [CTRL_N]) bs) @ header n @ CTRL_N # t)) =
     Some (Inr (header n), conf_at r' t)"
  using assms(1)
proof (induction bs arbitrary: r)
  case Nil
  have "CTRL_N \<notin> set (header n)" "NUL \<notin> set (header n)" "length (header n) < PACKET - 1"
    using assms(2) by (auto simp: header_def header_ok_def plain_def NUL_def)
  moreover have "first_section_body () (header n @ [CTRL_N]) = Some (Inr (header n))"
    using ConfTrim_header [OF assms(2)] ConfIsValid_line [of "header n" "[]"] not_blank_chars(4)
    by (simp add: first_section_body_def ConfIsSection_def header_def)
  ultimately show ?case by (simp add: line_loop_line)
next
  case (Cons b bs)
  then have b: "blanks b" "length b < PACKET - 1" by simp_all
  have "list_all is_blank (b @ [CTRL_N])" using b blanks_list_all by simp
  then have "ConfTrimLeft (b @ [CTRL_N]) = []"
    using ConfTrimLeft_blanks [of "b @ [CTRL_N]" "[]"] by (simp add: ConfTrimLeft_def)
  then have "first_section_body () (b @ [CTRL_N]) = Some (Inl ())"
    by (simp add: first_section_body_def ConfTrim_def ConfTrimRight_def ConfIsValid_def ConfTrimLeft_def)
  then have "line_loop PACKET first_section_body () (conf_at r (b @ CTRL_N # u)) =
      line_loop PACKET first_section_body () (conf_at (r @ b @ [CTRL_N]) u)" for u
    using b blanks_plain by (simp add: line_loop_line plain_def)
  with Cons show ?case by simp
qed

definition print_config :: "string list \<Rightarrow> (string \<times> item list) list \<Rightarrow> string" where
  "print_config bs secs = concat (map (\<lambda>b. b @ [CTRL_N]) bs) @ print_sections secs"

definition config_ok :: "string list \<Rightarrow> (string \<times> item list) list \<Rightarrow> bool" where
  "config_ok bs secs \<longleftrightarrow>
     list_all (\<lambda>b. blanks b \<and> length b < PACKET - 1) bs \<and> list_all section_ok secs \<and> secs \<noteq> []"

lemma init_config_loop:
  assumes "config_ok bs secs" "fs pszCfgFile = Some (print_config bs secs)"
  shows "\<exists>r. BdxInitConfig fs pszCfgFile m =
     (case init_loop (next_header secs) m (conf_at r (after_header secs)) of
        None \<Rightarrow> None | Some UB \<Rightarrow> Some UB | Some (Ret m) \<Rightarrow> Some (Ret (True, m)))"
proof -
  obtain n its secs' where secs: "secs = (n, its) # secs'"
    using assms(1) by (cases secs) (auto simp: config_ok_def)
  have "list_all (\<lambda>b. blanks b \<and> length b < PACKET - 1) bs" "header_ok n"
    using assms(1) secs by (auto simp: config_ok_def section_ok_def)
  from first_section_skip [OF this, of "[]" "print_items its @ print_sections secs'"]
  obtain r where "line_loop PACKET first_section_body () (conf_at [] (print_config bs secs)) =
      Some (Inr (header n), conf_at r (print_items its @ print_sections secs'))"
    by (auto simp: print_config_def secs print_sections_def print_section_def)
  then show ?thesis
    using assms(2) by (intro exI [of _ r]) (simp add: BdxInitConfig_def ConfOpen_def secs)
qed

text \<open>The shipped configuration with concrete values, and a state before it is read.\<close>

definition example_config :: "(string \<times> item list) list" where
  "example_config =
    [(''LOG'', [Pair ''RANK'' '' '' [] ''INFO'' [] [], Pair ''FILE'' '' '' '' '' ''userQuery.log'' [] [],
       Pair ''PATH'' '' '' [] ''./logs'' '' '' [], Pair ''MAXLINE'' '' '' '' '' ''100000'' [] [], Empty []]),
     (''TRAFFICHIVELOG'', [Note '' remarks'', Pair ''TIME'' '' '' '' '' ''60'' '' '' ''# s'']),
     (''REDISSERVER'', [Pair ''IP'' '' '' ''  '' ''10.0.0.1'' [] [], Pair ''PORT'' '' '' '' '' ''6379'' [] [],
       Pair ''NUMS'' '' '' [] ''1'' [] []]),
     (''WORKTHREADS'', [Pair ''NUM'' '' '' [] ''8'' [] []])]"

definition zero_ipport :: IPPORT_S where
  "zero_ipport = \<lparr>m_pchIp = [], m_uiPort = 0, m_idx = 0, m_count = 0\<rparr>"

definition zero_config :: CUserQueryMain where
  "zero_config =
    \<lparr>m_stLogPrms = \<lparr>m_Rank = DEBUG, m_strPath = [], m_strFileName = [], m_uiMaxLine = 0\<rparr>,
     m_stServerInfo = \<lparr>m_stRedisServer = zero_ipport, m_stLocalServer = zero_ipport,
       m_stTokenServer = zero_ipport, m_stGoodsServer = zero_ipport\<rparr>,
     m_stMysqlInfo = \<lparr>m_stMysqlLinkInfo = zero_ipport, pchUserName = [], pchPassWord = [], pchDbName = []\<rparr>,
     m_uiThreadsNum = 0,
     m_stStatisticsPrm = \<lparr>m_strStatisticsPath = [], m_strStatisticsFileName = [], m_uiStatisticsTime = 0\<rparr>,
     m_stHiveLogPrm = \<lparr>m_strStatisticsPath = [], m_strStatisticsFileName = [], m_uiStatisticsTime = 0\<rparr>,
     g_monitor = \<lparr>m_stMonitorApi = zero_ipport, m_stEmailServer = zero_ipport, m_strUserName = [],
       m_strPassWord = [], m_strMailFrom = [], m_strRcptTo = [], m_strSubject = [], m_strErrorMsg = []\<rparr>,
     strSslKeyPath = [], strSslKeyPassWord = [], iAPIQpsLimit = 0, g_vecUrlAPIS = []\<rparr>"

lemma example_config_ok: "config_ok [[]] example_config"
  by code_simp

lemma example_config_unknown_ok: "config_ok [[]] (example_config @ [(''GOODS'', [])])"
  by code_simp

lemma example_config_meaning:
  "map_option (\<lambda>m. (m_uiThreadsNum m, m_Rank (m_stLogPrms m), m_pchIp (m_stRedisServer (m_stServerInfo m)),
      m_uiPort (m_stRedisServer (m_stServerInfo m)))) (config_meaning zero_config example_config)
   = Some (8, INFO, ''10.0.0.1'', 6379)"
  by (simp add: example_config_def zero_config_def zero_ipport_def pairs_of_def section_update_def
      set_log_def set_statistics_def set_server_def log_rank_of_def memcpy128_def atoi_eval)

lemma example_config_meaningE:
  obtains m' where "config_meaning zero_config example_config = Some m'" "m_uiThreadsNum m' = 8"
    "m_Rank (m_stLogPrms m') = INFO" "m_pchIp (m_stRedisServer (m_stServerInfo m')) = ''10.0.0.1''"
  using example_config_meaning by (auto simp: map_option_eq_Some)

section \<open>Properties\<close>

text \<open>
  C24. Reading a configuration file in the documented format ends, stays inside its buffers and
  gives every component the parameters that its section states, whatever blanks, remarks and empty
  lines the file contains (a remark may not precede the first section).
\<close>

theorem init_config_reads:
  assumes "config_ok bs secs" and "config_meaning m secs = Some m'"
    and "fs pszCfgFile = Some (print_config bs secs)"
  shows "BdxInitConfig fs pszCfgFile m = Some (Ret (True, m'))"
proof -
  obtain r where "BdxInitConfig fs pszCfgFile m =
     (case init_loop (next_header secs) m (conf_at r (after_header secs)) of
        None \<Rightarrow> None | Some UB \<Rightarrow> Some UB | Some (Ret m) \<Rightarrow> Some (Ret (True, m)))"
    using init_config_loop [of bs secs fs pszCfgFile m] assms(1,3) by blast
  moreover have "list_all section_ok (secs @ [])" using assms(1) by (simp add: config_ok_def)
  then have "init_loop (next_header secs) m (conf_at r (after_header secs)) = Some (Ret m')"
    using init_loop_prefix [OF assms(2), of "[]" r] by (auto simp: init_loop_done)
  ultimately show ?thesis by simp
qed

theorem init_config_reads_witness:
  "\<exists>m'. BdxInitConfig (\<lambda>_. Some (print_config [[]] example_config)) ''userQuery.conf'' zero_config
      = Some (Ret (True, m')) \<and> m_uiThreadsNum m' = 8 \<and> m_Rank (m_stLogPrms m') = INFO"
proof -
  obtain m' where "config_meaning zero_config example_config = Some m'" "m_uiThreadsNum m' = 8"
      "m_Rank (m_stLogPrms m') = INFO"
    using example_config_meaningE by blast
  then show ?thesis
    using init_config_reads [OF example_config_ok, of zero_config m' "\<lambda>_. Some (print_config [[]] example_config)"]
    by blast
qed

text \<open>
  C36. A section whose name the reader does not know makes it loop forever, wherever the section
  stands in an otherwise well-formed file.
\<close>

theorem init_config_unknown_section:
  assumes "config_ok bs (secs @ (n, its) # rest)" and "config_meaning m secs = Some m'"
    and "n \<notin> set known_sections"
    and "fs pszCfgFile = Some (print_config bs (secs @ (n, its) # rest))"
  shows "BdxInitConfig fs pszCfgFile m = None"
proof -
  let ?all = "secs @ (n, its) # rest"
  obtain r where r: "BdxInitConfig fs pszCfgFile m =
     (case init_loop (next_header ?all) m (conf_at r (after_header ?all)) of
        None \<Rightarrow> None | Some UB \<Rightarrow> Some UB | Some (Ret m) \<Rightarrow> Some (Ret (True, m)))"
    using init_config_loop [of bs ?all fs pszCfgFile m] assms(1,4) by blast
  have "list_all section_ok ?all" using assms(1) by (simp add: config_ok_def)
  then obtain r' where "init_loop (next_header ?all) m (conf_at r (after_header ?all)) =
      init_loop (header n) m' (conf_at r' (after_header ((n, its) # rest)))"
    using init_loop_prefix [OF assms(2), of "(n, its) # rest" r] by auto
  moreover have "header n \<noteq> [] \<and> header n \<notin> header ` set known_sections"
    using assms(3) by (auto simp: header_def)
  then have "init_loop (header n) m' c = None" for c
    using init_loop_needs_known by (metis not_None_eq)
  ultimately show ?thesis using r by simp
qed

theorem init_config_unknown_section_witness:
  "BdxInitConfig (\<lambda>_. Some (print_config [[]] (example_config @ [(''GOODS'', [])]))) ''userQuery.conf'' zero_config
     = None"
proof -
  obtain m' where "config_meaning zero_config example_config = Some m'"
    using example_config_meaningE by blast
  then show ?thesis
    using init_config_unknown_section [OF example_config_unknown_ok, of zero_config m'
        "\<lambda>_. Some (print_config [[]] (example_config @ [(''GOODS'', [])]))" "''userQuery.conf''"]
    by (simp add: known_sections_def)
qed

text \<open>
  A remark in front of the first section makes \<open>ConfTrimRight\<close> step in front of its buffer.
\<close>

theorem init_config_leading_remark:
  assumes "fs pszCfgFile = Some (REMARK # r @ CTRL_N # t)"
    and "CTRL_N \<notin> set r" "NUL \<notin> set r" "length r < PACKET - 2"
  shows "BdxInitConfig fs pszCfgFile m = Some UB"
proof -
  have "first_section_body () ((REMARK # r) @ [CTRL_N]) = None"
    by (simp add: first_section_body_def ConfTrim_def ConfTrimLeft_def ConfTrimRight_def not_blank_chars)
  then have "line_loop PACKET first_section_body () (conf_at [] ((REMARK # r) @ CTRL_N # t)) = None"
    using assms(2-4) by (subst line_loop_line) (simp_all add: NUL_def)
  then show ?thesis using assms(1) by (simp add: BdxInitConfig_def ConfOpen_def)
qed

theorem init_config_leading_remark_witness:
  "BdxInitConfig (\<lambda>_. Some (REMARK # '' gateway'' @ CTRL_N # ''[LOG]'')) ''userQuery.conf'' zero_config = Some UB"
  using init_config_leading_remark [where fs = "\<lambda>_. Some (REMARK # '' gateway'' @ CTRL_N # ''[LOG]'')"
      and r = "'' gateway''" and t = "''[LOG]''"] by (simp add: NUL_def)

end
