(* ===== verification/Redis.thy ===== *)
theory Redis
  imports Prelude
begin

text \<open>
  \<open>src/redisCommon/data_redis.cpp\<close>: the Redis connection \<open>CDataRedis\<close> and the parser of server
  lists. The hiredis library is a parameter: a record of its entry points over a world \<open>'w\<close>, with
  contexts named by numbers. An operation maps the world and the object to its result, the new
  world and the new object; \<open>None\<close> is a crash (a failed assertion, a null pointer, an overrun
  buffer). Allocation of replies is not modelled.
\<close>

section \<open>The hiredis interface\<close>

datatype reply_type = REDIS_REPLY_STRING | REDIS_REPLY_ARRAY | REDIS_REPLY_INTEGER
  | REDIS_REPLY_NIL | REDIS_REPLY_STATUS | REDIS_REPLY_ERROR

text \<open>\<open>str\<close> is \<open>None\<close> for a null pointer; \<open>len\<close> is its length.\<close>

datatype redisReply = Reply (reply_type: reply_type) (integer: int) (str: "string option")
  (element: "redisReply list")

definition reply_len :: "redisReply \<Rightarrow> nat" where
  "reply_len reply = (case str reply of None \<Rightarrow> 0 | Some s \<Rightarrow> length s)"

text \<open>\<open>std::string::assign(reply->str, reply->len)\<close>: a null pointer comes with length 0.\<close>

definition reply_text :: "redisReply \<Rightarrow> string" where
  "reply_text reply = (case str reply of None \<Rightarrow> [] | Some s \<Rightarrow> s)"

datatype rarg = AStr string | AInt int

text \<open>\<open>redisConnectWithTimeout\<close> gives no context, or one with its error flag.\<close>

record 'w hiredis =
  redisConnectWithTimeout :: "'w \<Rightarrow> string \<Rightarrow> u16 \<Rightarrow> nat \<Rightarrow> (nat \<times> bool) option \<times> 'w"
  redisFree :: "'w \<Rightarrow> nat \<Rightarrow> 'w"
  redisCommand :: "'w \<Rightarrow> nat \<Rightarrow> string \<Rightarrow> rarg list \<Rightarrow> redisReply option \<times> 'w"
  getenv :: "'w \<Rightarrow> string \<Rightarrow> string option"

section \<open>Server lists\<close>

definition serv_entry :: "string \<Rightarrow> (string \<times> u16 \<times> u16) option" where
  "serv_entry serv =
     (case find_sub '':'' serv of
        None \<Rightarrow> None
      | Some p \<Rightarrow>
          let port = drop p serv in
          Some (take p serv, word_of_int (atoi (drop 1 port)),
            (case find_sub '','' port of
               None \<Rightarrow> 0
             | Some q \<Rightarrow> word_of_int (atoi (drop (q + 1) port)))))"

text \<open>
  The loop over the announced number of entries. A missing semicolon leaves a null pointer that is
  used at once; an entry of 256 characters or more leaves no room for its terminator.
\<close>

fun serv_loop :: "nat \<Rightarrow> string option \<Rightarrow> (string \<times> u16 \<times> u16) list \<Rightarrow> (bool \<times> (string \<times> u16 \<times> u16) list) option" where
  "serv_loop 0 cur acc = Some (True, acc)"
| "serv_loop (Suc n) None acc = None"
| "serv_loop (Suc n) (Some cur) acc =
     (case find_sub '';'' cur of
        None \<Rightarrow> None
      | Some t \<Rightarrow>
          if 256 \<le> t then None
          else (case serv_entry (take t cur) of
                  None \<Rightarrow> Some (False, acc)
                | Some e \<Rightarrow> serv_loop n (Some (drop (t + 1) cur)) (acc @ [e])))"

definition redis_serv_list :: "string \<Rightarrow> (bool \<times> (string \<times> u16 \<times> u16) list) option" where
  "redis_serv_list serv_list_str =
     (let cur = cstr serv_list_str;
          cnt = unat (word_of_int (atoi cur) :: u32)
      in serv_loop cnt (map_option (\<lambda>t. drop (t + 1) cur) (find_sub '';'' cur)) [])"

section \<open>The connection\<close>

record CDataRedis =
  r_host :: string
  r_port :: u16
  r_idx :: u16
  r_context :: "nat option"

type_synonym 'w rstate = "'w \<times> CDataRedis"

definition new_CDataRedis :: CDataRedis where
  "new_CDataRedis = \<lparr>r_host = [], r_port = 0, r_idx = 0, r_context = None\<rparr>"

definition reply_failed :: "redisReply option \<Rightarrow> bool" where
  "reply_failed reply \<longleftrightarrow>
     (case reply of None \<Rightarrow> True | Some r \<Rightarrow> reply_type r = REDIS_REPLY_ERROR)"

definition DisConnect :: "'w hiredis \<Rightarrow> 'w rstate \<Rightarrow> 'w rstate" where
  "DisConnect h s =
     (let (w, r) = s in
        case r_context r of
          None \<Rightarrow> (w, r)
        | Some c \<Rightarrow> (redisFree h w c, r\<lparr>r_context := None\<rparr>))"

text \<open>A command on the open context, with the common treatment of a missing or an error reply.\<close>

definition send_command :: "'w hiredis \<Rightarrow> string \<Rightarrow> rarg list \<Rightarrow> 'w rstate \<Rightarrow> redisReply option \<times> 'w rstate" where
  "send_command h fmt args s =
     (let (w, r) = s in
        let (reply, w) = redisCommand h w (the (r_context r)) fmt args in
          if reply_failed reply then (None, DisConnect h (w, r)) else (reply, w, r))"

text \<open>\<open>SelectDB\<close> on an open context, where its own call of \<open>KeepConnect\<close> returns true at once.\<close>

definition select_open :: "'w hiredis \<Rightarrow> u16 \<Rightarrow> 'w rstate \<Rightarrow> bool \<times> 'w rstate" where
  "select_open h db_index s =
     (case send_command h ''select %d'' [AInt (uint db_index)] s of (reply, s) \<Rightarrow> (reply \<noteq> None, s))"

definition auth_open :: "'w hiredis \<Rightarrow> 'w rstate \<Rightarrow> 'w rstate" where
  "auth_open h s =
     (let (w, r) = s in
        let redisPass = (case getenv h w ''REDIS_PASSWORD'' of None \<Rightarrow> [] | Some p \<Rightarrow> p) in
        if redisPass \<noteq> []
        then (snd (redisCommand h w (the (r_context r)) ''AUTH %s'' [AStr redisPass]), r)
        else (w, r))"

definition KeepConnect :: "'w hiredis \<Rightarrow> nat \<Rightarrow> 'w rstate \<Rightarrow> bool \<times> 'w rstate" where
  "KeepConnect h timeout s =
     (let (w, r) = s in
        if r_context r \<noteq> None then (True, w, r)
        else
          case redisConnectWithTimeout h w (r_host r) (r_port r) (if timeout \<noteq> 0 then timeout else 800000) of
            (None, w) \<Rightarrow> (False, w, r)
          | (Some (c, err), w) \<Rightarrow>
              if err then (False, redisFree h w c, r)
              else
                let s = (w, r\<lparr>r_context := Some c\<rparr>);
                    (selected, s) = (if r_idx r \<noteq> 0 then select_open h (r_idx r) s else (True, s))
                in if \<not> selected then (False, s)
                   else
                     case send_command h ''PING'' [] (auth_open h s) of
                       (reply, s) \<Rightarrow> (reply \<noteq> None, s))"

definition Init :: "'w hiredis \<Rightarrow> string \<Rightarrow> u16 \<Rightarrow> u16 \<Rightarrow> 'w rstate \<Rightarrow> bool \<times> 'w rstate" where
  "Init h host port idx s =
     (let (w, r) = s in KeepConnect h 0 (w, r\<lparr>r_host := take 256 host, r_port := port, r_idx := idx\<rparr>))"

text \<open>The destructor.\<close>

definition delete_CDataRedis :: "'w hiredis \<Rightarrow> 'w rstate \<Rightarrow> 'w rstate" where
  "delete_CDataRedis h s = DisConnect h s"

section \<open>The operations\<close>

text \<open>Connect if necessary, send, drop the connection on failure.\<close>

definition command :: "'w hiredis \<Rightarrow> string \<Rightarrow> rarg list \<Rightarrow> 'w rstate \<Rightarrow> redisReply option \<times> 'w rstate" where
  "command h fmt args s =
     (let (connected, s) = KeepConnect h 0 s in
        if \<not> connected then (None, s) else send_command h fmt args s)"

definition simple_command :: "'w hiredis \<Rightarrow> string \<Rightarrow> rarg list \<Rightarrow> 'w rstate \<Rightarrow> bool \<times> 'w rstate" where
  "simple_command h fmt args s = (case command h fmt args s of (reply, s) \<Rightarrow> (reply \<noteq> None, s))"

definition DeleteKey :: "'w hiredis \<Rightarrow> string \<Rightarrow> 'w rstate \<Rightarrow> bool \<times> 'w rstate" where
  "DeleteKey h key s = simple_command h (take 1022 (''del '' @ key)) [] s"

text \<open>\<open>strcat\<close> of a list of words into a buffer of 4096 bytes.\<close>

definition cat_words :: "string \<Rightarrow> string list \<Rightarrow> string option" where
  "cat_words cmd ws =
     (let c = take 4095 cmd @ concat (map (\<lambda>w. CHR '' '' # w) ws)
      in if length c < 4096 then Some c else None)"

text \<open>\<open>assert(size>0)\<close> comes before the connection, the buffer after it.\<close>

definition words_command :: "'w hiredis \<Rightarrow> string \<Rightarrow> string list \<Rightarrow> 'w rstate \<Rightarrow> (bool \<times> 'w rstate) option" where
  "words_command h cmd ws s =
     (if ws = [] then None
      else let (connected, s) = KeepConnect h 0 s in
        if \<not> connected then Some (False, s)
        else map_option
          (\<lambda>c. case send_command h c [] s of (reply, s) \<Rightarrow> (reply \<noteq> None, s))
          (cat_words cmd ws))"

definition DeleteKeys :: "'w hiredis \<Rightarrow> string list \<Rightarrow> 'w rstate \<Rightarrow> (bool \<times> 'w rstate) option" where
  "DeleteKeys h keys s = words_command h ''del'' keys s"

text \<open>The texts of an array reply; a \<open>std::string\<close> cannot be made from a null pointer.\<close>

fun element_texts :: "redisReply list \<Rightarrow> string list option" where
  "element_texts [] = Some []"
| "element_texts (e # es) =
     (case (str e, element_texts es) of (Some s, Some ss) \<Rightarrow> Some (cstr s # ss) | _ \<Rightarrow> None)"

definition list_command :: "'w hiredis \<Rightarrow> string \<Rightarrow> rarg list \<Rightarrow> string list \<Rightarrow> 'w rstate \<Rightarrow> (bool \<times> string list \<times> 'w rstate) option" where
  "list_command h fmt args out s =
     (case command h fmt args s of
        (None, s) \<Rightarrow> Some (False, out, s)
      | (Some reply, s) \<Rightarrow> map_option (\<lambda>ts. (True, out @ ts, s)) (element_texts (element reply)))"

definition GetKeys :: "'w hiredis \<Rightarrow> string \<Rightarrow> string list \<Rightarrow> 'w rstate \<Rightarrow> (bool \<times> string list \<times> 'w rstate) option" where
  "GetKeys h regular_key keys s = list_command h ''keys %s'' [AStr regular_key] keys s"

text \<open>\<open>GetValue\<close> treats an empty reply, so also a missing key, as a failure of the connection.\<close>

definition GetValue :: "'w hiredis \<Rightarrow> string \<Rightarrow> string \<Rightarrow> 'w rstate \<Rightarrow> bool \<times> string \<times> 'w rstate" where
  "GetValue h key val s =
     (case command h ''GET %s'' [AStr key] s of
        (None, s) \<Rightarrow> (False, val, s)
      | (Some reply, s) \<Rightarrow>
          if reply_len reply = 0 then (False, val, DisConnect h s)
          else (True, reply_text reply, s))"

definition Rpush :: "'w hiredis \<Rightarrow> string \<Rightarrow> string \<Rightarrow> 'w rstate \<Rightarrow> bool \<times> 'w rstate" where
  "Rpush h key item s = simple_command h ''rpush %s %s'' [AStr key, AStr item] s"

definition Llen :: "'w hiredis \<Rightarrow> string \<Rightarrow> u32 \<Rightarrow> 'w rstate \<Rightarrow> bool \<times> u32 \<times> 'w rstate" where
  "Llen h key n s =
     (case command h ''llen %s'' [AStr key] s of
        (None, s) \<Rightarrow> (False, n, s)
      | (Some reply, s) \<Rightarrow> (True, word_of_int (integer reply), s))"

definition text_command :: "'w hiredis \<Rightarrow> string \<Rightarrow> rarg list \<Rightarrow> string \<Rightarrow> 'w rstate \<Rightarrow> bool \<times> string \<times> 'w rstate" where
  "text_command h fmt args val s =
     (case command h fmt args s of
        (None, s) \<Rightarrow> (False, val, s)
      | (Some reply, s) \<Rightarrow> (True, reply_text reply, s))"

definition Lpop :: "'w hiredis \<Rightarrow> string \<Rightarrow> string \<Rightarrow> 'w rstate \<Rightarrow> bool \<times> string \<times> 'w rstate" where
  "Lpop h key item s = text_command h ''lpop %s'' [AStr key] item s"

text \<open>
  The two sorted-set reads print fields of the reply before they check the pointer: a missing reply
  is a crash.
\<close>

fun last_string :: "string \<Rightarrow> redisReply list \<Rightarrow> string" where
  "last_string val [] = val"
| "last_string val (e # es) =
     last_string (if reply_type e = REDIS_REPLY_STRING then reply_text e else val) es"

definition GetValueSortedSet :: "'w hiredis \<Rightarrow> string \<Rightarrow> string \<Rightarrow> 'w rstate \<Rightarrow> (bool \<times> string \<times> 'w rstate) option" where
  "GetValueSortedSet h key val s =
     (let (connected, (w, r)) = KeepConnect h 0 s in
        if \<not> connected then Some (False, val, w, r)
        else case redisCommand h w (the (r_context r)) ''ZRANGE %s 0 0'' [AStr key] of
          (None, w) \<Rightarrow> None
        | (Some reply, w) \<Rightarrow>
            if reply_type reply \<noteq> REDIS_REPLY_ARRAY then Some (False, val, DisConnect h (w, r))
            else let val = last_string val (element reply)
                 in if length val = 0 then Some (False, val, w, r) else Some (True, val, w, r))"

definition RemoveSortedSet :: "'w hiredis \<Rightarrow> string \<Rightarrow> string \<Rightarrow> 'w rstate \<Rightarrow> (bool \<times> string \<times> 'w rstate) option" where
  "RemoveSortedSet h key val s =
     (let (connected, (w, r)) = KeepConnect h 0 s in
        if \<not> connected then Some (False, val, w, r)
        else case redisCommand h w (the (r_context r)) ''zremrangebyrank %s 0 0'' [AStr key] of
          (None, w) \<Rightarrow> None
        | (Some reply, w) \<Rightarrow>
            if reply_type reply = REDIS_REPLY_ERROR then Some (False, val, DisConnect h (w, r))
            else Some (True, reply_text reply, w, r))"

definition SetValueSortedSet :: "'w hiredis \<Rightarrow> string \<Rightarrow> string \<Rightarrow> string \<Rightarrow> 'w rstate \<Rightarrow> bool \<times> 'w rstate" where
  "SetValueSortedSet h key score val s =
     simple_command h ''ZADD %s %s %s'' [AStr key, AStr score, AStr val] s"

definition SelectDB :: "'w hiredis \<Rightarrow> u16 \<Rightarrow> 'w rstate \<Rightarrow> bool \<times> 'w rstate" where
  "SelectDB h db_index s =
     (let (connected, s) = KeepConnect h 0 s in
        if \<not> connected then (False, s) else select_open h db_index s)"

definition SetValue :: "'w hiredis \<Rightarrow> string \<Rightarrow> string \<Rightarrow> int \<Rightarrow> 'w rstate \<Rightarrow> bool \<times> 'w rstate" where
  "SetValue h key val expiration s =
     (if 0 < expiration
      then simple_command h ''SET %s %s ex %d'' [AStr key, AStr val, AInt expiration] s
      else simple_command h ''SET %s %s'' [AStr key, AStr val] s)"

definition DelValue :: "'w hiredis \<Rightarrow> string \<Rightarrow> string \<Rightarrow> int \<Rightarrow> 'w rstate \<Rightarrow> bool \<times> 'w rstate" where
  "DelValue h key val expiration s =
     (if 0 < expiration then simple_command h ''DEL %s'' [AStr key] s
      else simple_command h ''SET %s'' [AStr key] s)"

text \<open>The commands of the set and hash operations are built with \<open>snprintf\<close> and passed as formats.\<close>

definition Smove :: "'w hiredis \<Rightarrow> string \<Rightarrow> string \<Rightarrow> string \<Rightarrow> 'w rstate \<Rightarrow> bool \<times> 'w rstate" where
  "Smove h key dstkey mumb s =
     simple_command h (take 4095 (''smove '' @ key @ '' '' @ dstkey @ '' '' @ mumb)) [] s"

definition Sadd :: "'w hiredis \<Rightarrow> string \<Rightarrow> string \<Rightarrow> 'w rstate \<Rightarrow> bool \<times> 'w rstate" where
  "Sadd h key mumb s = simple_command h (take 4095 (''sadd '' @ key @ '' '' @ mumb)) [] s"

text \<open>A \<open>std::set\<close> is iterated in order.\<close>

definition Sadd_set :: "'w hiredis \<Rightarrow> string \<Rightarrow> string list \<Rightarrow> 'w rstate \<Rightarrow> (bool \<times> 'w rstate) option" where
  "Sadd_set h key mumbs s = words_command h (''sadd '' @ key) mumbs s"

definition Smembers :: "'w hiredis \<Rightarrow> string \<Rightarrow> string list \<Rightarrow> 'w rstate \<Rightarrow> (bool \<times> string list \<times> 'w rstate) option" where
  "Smembers h key membs s = list_command h ''smembers %s'' [AStr key] membs s"

definition Sremove :: "'w hiredis \<Rightarrow> string \<Rightarrow> string \<Rightarrow> 'w rstate \<Rightarrow> bool \<times> 'w rstate" where
  "Sremove h key mumb s = simple_command h (take 4095 (''srem '' @ key @ '' '' @ mumb)) [] s"

definition Sremove_set :: "'w hiredis \<Rightarrow> string \<Rightarrow> string list \<Rightarrow> 'w rstate \<Rightarrow> (bool \<times> 'w rstate) option" where
  "Sremove_set h key mumbs s = words_command h (''srem '' @ key) mumbs s"

definition Hset :: "'w hiredis \<Rightarrow> string \<Rightarrow> string \<Rightarrow> string \<Rightarrow> 'w rstate \<Rightarrow> bool \<times> 'w rstate" where
  "Hset h key field val s =
     simple_command h (take 4095 (''hset '' @ key @ '' '' @ field @ '' '' @ val)) [] s"

definition Hget :: "'w hiredis \<Rightarrow> string \<Rightarrow> string \<Rightarrow> string \<Rightarrow> 'w rstate \<Rightarrow> bool \<times> string \<times> 'w rstate" where
  "Hget h key field val s = text_command h ''hget %s %s'' [AStr key, AStr field] val s"

definition Hkeys :: "'w hiredis \<Rightarrow> string \<Rightarrow> string list \<Rightarrow> 'w rstate \<Rightarrow> (bool \<times> string list \<times> 'w rstate) option" where
  "Hkeys h key flds s = list_command h ''hkeys %s'' [AStr key] flds s"

definition Hvals :: "'w hiredis \<Rightarrow> string \<Rightarrow> string list \<Rightarrow> 'w rstate \<Rightarrow> (bool \<times> string list \<times> 'w rstate) option" where
  "Hvals h key vals s = list_command h ''hvals %s'' [AStr key] vals s"

definition IncrValue :: "'w hiredis \<Rightarrow> string \<Rightarrow> int \<Rightarrow> 'w rstate \<Rightarrow> bool \<times> 'w rstate" where
  "IncrValue h key expiration s =
     (if 0 < expiration then simple_command h ''incr %s  %d'' [AStr key, AInt expiration] s
      else simple_command h ''incr %s'' [AStr key] s)"

definition IncrByValue :: "'w hiredis \<Rightarrow> string \<Rightarrow> int \<Rightarrow> 'w rstate \<Rightarrow> bool \<times> 'w rstate" where
  "IncrByValue h key expiration s =
     (if 0 < expiration then simple_command h ''incrby %s  %d'' [AStr key, AInt expiration] s
      else simple_command h ''incr %s'' [AStr key] s)"

section \<open>Who owns the open contexts\<close>

text \<open>
  The documented life cycle of a hiredis context: \<open>redisConnectWithTimeout\<close> allocates a context
  that was not live, \<open>redisFree\<close> ends one, a command ends or allocates none.
\<close>

definition tracks_contexts :: "'w hiredis \<Rightarrow> ('w \<Rightarrow> nat set) \<Rightarrow> bool" where
  "tracks_contexts h live \<longleftrightarrow>
     (\<forall>w host port t c err w'. redisConnectWithTimeout h w host port t = (Some (c, err), w') \<longrightarrow>
        c \<notin> live w \<and> live w' = insert c (live w)) \<and>
     (\<forall>w host port t w'. redisConnectWithTimeout h w host port t = (None, w') \<longrightarrow> live w' = live w) \<and>
     (\<forall>w c. live (redisFree h w c) = live w - {c}) \<and>
     (\<forall>w c fmt args. live (snd (redisCommand h w c fmt args)) = live w)"

text \<open>An object is in order when its context, if it has one, is live and belongs to nobody else.\<close>

definition owns :: "('w \<Rightarrow> nat set) \<Rightarrow> nat set \<Rightarrow> 'w rstate \<Rightarrow> bool" where
  "owns live others s \<longleftrightarrow>
     (case s of (w, r) \<Rightarrow> live w = others \<union> set_option (r_context r) \<and> set_option (r_context r) \<inter> others = {})"

text \<open>
  The contract of an operation on a connection: it keeps the ownership of contexts, and it ends
  with a connection exactly when it does not report a failure (\<open>done\<close>). \<open>None\<close>, a crash, is exempt.
\<close>

locale redis_operation =
  fixes operation :: "'w hiredis \<Rightarrow> 'w rstate \<Rightarrow> (bool \<times> 'w rstate) option"
  assumes keeps_ownership:
      "tracks_contexts h live \<Longrightarrow> owns live others s \<Longrightarrow> operation h s = Some (b, s') \<Longrightarrow> owns live others s'"
    and connected_after: "operation h s = Some (True, s') \<Longrightarrow> r_context (snd s') \<noteq> None"
    and same_address: "operation h s = Some (b, s') \<Longrightarrow>
      r_host (snd s') = r_host (snd s) \<and> r_port (snd s') = r_port (snd s) \<and> r_idx (snd s') = r_idx (snd s)"
begin

text \<open>After any run of the operation the destructor leaves only the contexts of others.\<close>

lemma no_leak:
  assumes "tracks_contexts h live" "owns live others s" "operation h s = Some (b, s')"
  shows "live (fst (delete_CDataRedis h s')) = others"
proof -
  obtain w r where s': "s' = (w, r)" by (cases s')
  have "owns live others (w, r)" using keeps_ownership assms s' by blast
  moreover have "\<And>c. live (redisFree h w c) = live w - {c}" using assms(1) by (simp add: tracks_contexts_def)
  ultimately show ?thesis
    unfolding s' by (auto simp: delete_CDataRedis_def DisConnect_def owns_def split: option.split)
qed

end

lemma owns_DisConnect: "tracks_contexts h live \<Longrightarrow> owns live others s \<Longrightarrow> owns live others (DisConnect h s)"
  by (cases s) (auto simp: owns_def DisConnect_def tracks_contexts_def split: option.splits)

lemma DisConnect_context [simp]: "r_context (snd (DisConnect h s)) = None"
  by (cases s) (auto simp: DisConnect_def split: option.splits)

lemma DisConnect_address [simp]:
  "r_host (snd (DisConnect h s)) = r_host (snd s)" "r_port (snd (DisConnect h s)) = r_port (snd s)"
  "r_idx (snd (DisConnect h s)) = r_idx (snd s)"
  by (cases s; auto simp: DisConnect_def split: option.splits)+

lemma owns_command_world:
  "tracks_contexts h live \<Longrightarrow> owns live others (w, r) \<Longrightarrow> redisCommand h w c fmt args = (reply, w') \<Longrightarrow>
   owns live others (w', r)"
  unfolding tracks_contexts_def owns_def by (metis case_prod_conv snd_conv)

lemma send_command_cases:
  assumes "send_command h fmt args (w, r) = (reply, s')"
  obtains (ok) w' where "reply \<noteq> None" "s' = (w', r)" "redisCommand h w (the (r_context r)) fmt args = (reply, w')"
  | (failed) w' reply' where "reply = None" "s' = DisConnect h (w', r)"
      "redisCommand h w (the (r_context r)) fmt args = (reply', w')"
  using assms by (auto simp: send_command_def reply_failed_def split: prod.splits if_splits option.splits)

lemma owns_send_command:
  assumes "tracks_contexts h live" "owns live others s" "send_command h fmt args s = (reply, s')"
  shows "owns live others s'"
proof -
  obtain w r where s: "s = (w, r)" by (cases s)
  note world = owns_command_world [OF assms(1) assms(2) [unfolded s]]
  from assms(3) [unfolded s] show ?thesis
    by (cases rule: send_command_cases) (auto dest: world intro: owns_DisConnect [OF assms(1)])
qed

lemma send_command_context:
  assumes "send_command h fmt args s = (reply, s')" "r_context (snd s) \<noteq> None"
  shows "r_context (snd s') \<noteq> None \<longleftrightarrow> reply \<noteq> None"
  using assms by (cases s) (auto elim!: send_command_cases)

lemma send_command_address:
  assumes "send_command h fmt args s = (reply, s')"
  shows "r_host (snd s') = r_host (snd s) \<and> r_port (snd s') = r_port (snd s) \<and> r_idx (snd s') = r_idx (snd s)"
  using assms by (cases s) (auto elim!: send_command_cases)

text \<open>\<open>KeepConnect\<close>: an open context, or a new one that has been selected and answered \<open>PING\<close>.\<close>

lemma auth_open_object [simp]: "snd (auth_open h s) = snd s"
  by (cases s) (simp add: auth_open_def Let_def)

lemma owns_auth_open: "tracks_contexts h live \<Longrightarrow> owns live others s \<Longrightarrow> owns live others (auth_open h s)"
  by (cases s) (auto simp: auth_open_def Let_def owns_def tracks_contexts_def)

definition handshake :: "'w hiredis \<Rightarrow> 'w rstate \<Rightarrow> bool \<times> 'w rstate" where
  "handshake h s =
     (let (selected, s) = (if r_idx (snd s) \<noteq> 0 then select_open h (r_idx (snd s)) s else (True, s))
      in if \<not> selected then (False, s)
         else case send_command h ''PING'' [] (auth_open h s) of (reply, s) \<Rightarrow> (reply \<noteq> None, s))"

lemma KeepConnect_handshake:
  "KeepConnect h timeout (w, r) =
     (if r_context r \<noteq> None then (True, w, r)
      else case redisConnectWithTimeout h w (r_host r) (r_port r) (if timeout \<noteq> 0 then timeout else 800000) of
        (None, w) \<Rightarrow> (False, w, r)
      | (Some (c, err), w) \<Rightarrow>
          if err then (False, redisFree h w c, r) else handshake h (w, r\<lparr>r_context := Some c\<rparr>))"
  by (simp add: KeepConnect_def handshake_def Let_def split: option.splits prod.splits)

lemma select_open_props:
  assumes "select_open h db s = (b, s')" "r_context (snd s) \<noteq> None"
  shows "r_context (snd s') \<noteq> None \<longleftrightarrow> b"
    and "r_host (snd s') = r_host (snd s) \<and> r_port (snd s') = r_port (snd s) \<and> r_idx (snd s') = r_idx (snd s)"
    and "tracks_contexts h live \<Longrightarrow> owns live others s \<Longrightarrow> owns live others s'"
proof -
  obtain reply where r: "send_command h ''select %d'' [AInt (uint db)] s = (reply, s')" "b = (reply \<noteq> None)"
    using assms(1) by (auto simp: select_open_def split: prod.splits)
  show "r_context (snd s') \<noteq> None \<longleftrightarrow> b"
    unfolding r(2) by (rule send_command_context [OF r(1) assms(2)])
  show "r_host (snd s') = r_host (snd s) \<and> r_port (snd s') = r_port (snd s) \<and> r_idx (snd s') = r_idx (snd s)"
    by (rule send_command_address [OF r(1)])
  show "owns live others s'" if "tracks_contexts h live" "owns live others s"
    by (rule owns_send_command [OF that r(1)])
qed

lemma handshake_props:
  assumes "handshake h s = (b, s')" "r_context (snd s) \<noteq> None"
  shows "r_context (snd s') \<noteq> None \<longleftrightarrow> b"
    and "r_host (snd s') = r_host (snd s) \<and> r_port (snd s') = r_port (snd s) \<and> r_idx (snd s') = r_idx (snd s)"
    and "tracks_contexts h live \<Longrightarrow> owns live others s \<Longrightarrow> owns live others s'"
proof -
  obtain sel s1 where s1: "(if r_idx (snd s) \<noteq> 0 then select_open h (r_idx (snd s)) s else (True, s)) = (sel, s1)"
    by (metis prod.exhaust)
  have p: "r_context (snd s1) \<noteq> None \<longleftrightarrow> sel"
    "r_host (snd s1) = r_host (snd s) \<and> r_port (snd s1) = r_port (snd s) \<and> r_idx (snd s1) = r_idx (snd s)"
    "tracks_contexts h live \<Longrightarrow> owns live others s \<Longrightarrow> owns live others s1"
    using s1 assms(2) select_open_props [of h "r_idx (snd s)" s sel s1] by (auto split: if_splits)
  obtain reply s2 where s2: "send_command h ''PING'' [] (auth_open h s1) = (reply, s2)" by (cases "send_command h ''PING'' [] (auth_open h s1)")
  have r: "b = (sel \<and> reply \<noteq> None)" "s' = (if sel then s2 else s1)"
    using assms(1) s1 s2 by (auto simp: handshake_def Let_def split: if_splits)
  show "r_context (snd s') \<noteq> None \<longleftrightarrow> b"
    using r p(1) send_command_context [OF s2] by auto
  show "r_host (snd s') = r_host (snd s) \<and> r_port (snd s') = r_port (snd s) \<and> r_idx (snd s') = r_idx (snd s)"
    using r p(2) send_command_address [OF s2] by auto
  show "owns live others s'" if "tracks_contexts h live" "owns live others s"
    using r p(3) [OF that] owns_send_command [OF that(1) _ s2] owns_auth_open [OF that(1)] by auto
qed

lemma KeepConnect_props:
  assumes "KeepConnect h timeout s = (b, s')"
  shows "r_context (snd s') \<noteq> None \<longleftrightarrow> b"
    and "r_host (snd s') = r_host (snd s) \<and> r_port (snd s') = r_port (snd s) \<and> r_idx (snd s') = r_idx (snd s)"
    and "tracks_contexts h live \<Longrightarrow> owns live others s \<Longrightarrow> owns live others s'"
proof -
  obtain w r where s: "s = (w, r)" by (cases s)
  obtain conn w1 where c: "redisConnectWithTimeout h w (r_host r) (r_port r)
      (if timeout \<noteq> 0 then timeout else 800000) = (conn, w1)" by (metis prod.exhaust)
  consider (held) "r_context r \<noteq> None" "b" "s' = s"
    | (none) "r_context r = None" "conn = None" "\<not> b" "s' = (w1, r)"
    | (err) x where "r_context r = None" "conn = Some (x, True)" "\<not> b" "s' = (redisFree h w1 x, r)"
    | (new) x where "r_context r = None" "conn = Some (x, False)"
        "handshake h (w1, r\<lparr>r_context := Some x\<rparr>) = (b, s')"
    using assms c unfolding s KeepConnect_handshake
    by (cases conn) (auto split: if_splits)
  note cases = this
  from cases show "r_context (snd s') \<noteq> None \<longleftrightarrow> b"
    by cases (auto simp: s dest: handshake_props(1))
  from cases show "r_host (snd s') = r_host (snd s) \<and> r_port (snd s') = r_port (snd s) \<and> r_idx (snd s') = r_idx (snd s)"
    by cases (auto simp: s dest: handshake_props(2))
  assume t: "tracks_contexts h live" and o: "owns live others s"
  from cases show "owns live others s'"
  proof cases
    case new
    then have "owns live others (w1, r\<lparr>r_context := Some x\<rparr>)"
      using t o c unfolding s owns_def tracks_contexts_def by fastforce
    with handshake_props(3) [OF new(3) _ t] show ?thesis by simp
  next
    case err
    then show ?thesis using t o c unfolding s owns_def tracks_contexts_def by fastforce
  next
    case none
    then show ?thesis using t o c unfolding s owns_def tracks_contexts_def by fastforce
  qed (use o in simp)
qed

lemma command_props:
  assumes "command h fmt args s = (reply, s')"
  shows "reply \<noteq> None \<longleftrightarrow> r_context (snd s') \<noteq> None"
    and "r_host (snd s') = r_host (snd s) \<and> r_port (snd s') = r_port (snd s) \<and> r_idx (snd s') = r_idx (snd s)"
    and "tracks_contexts h live \<Longrightarrow> owns live others s \<Longrightarrow> owns live others s'"
proof -
  obtain b s1 where k: "KeepConnect h 0 s = (b, s1)" by (cases "KeepConnect h 0 s")
  note kp = KeepConnect_props [OF k]
  have r: "(reply, s') = (if b then send_command h fmt args s1 else (None, s1))"
    using assms k by (cases b) (auto simp: command_def)
  show "reply \<noteq> None \<longleftrightarrow> r_context (snd s') \<noteq> None"
    using r kp(1) send_command_context [of h fmt args s1 reply s'] by (cases b) auto
  show "r_host (snd s') = r_host (snd s) \<and> r_port (snd s') = r_port (snd s) \<and> r_idx (snd s') = r_idx (snd s)"
    using r kp(2) send_command_address [of h fmt args s1 reply s'] by (cases b) auto
  show "owns live others s'" if "tracks_contexts h live" "owns live others s"
    using r kp(3) [OF that] owns_send_command [OF that(1), of others s1 fmt args reply s'] by (cases b) auto
qed

text \<open>What the operations do with the reply of \<open>command\<close> does not matter for the contract.\<close>

lemma redis_operation_command:
  assumes "\<And>h s b s'. op h s = Some (b, s') \<Longrightarrow>
      \<exists>fmt args reply. command h fmt args s = (reply, s') \<and> (b \<longleftrightarrow> reply \<noteq> None)"
  shows "redis_operation op"
proof
  fix h :: "'a hiredis" and s s' b and live :: "'a \<Rightarrow> nat set" and others
  assume a: "op h s = Some (b, s')"
  obtain fmt args reply where c: "command h fmt args s = (reply, s')"
    using assms [OF a] by (elim exE conjE)
  show "owns live others s'" if "tracks_contexts h live" "owns live others s"
    using command_props(3) [OF c that] .
  show "r_host (snd s') = r_host (snd s) \<and> r_port (snd s') = r_port (snd s) \<and> r_idx (snd s') = r_idx (snd s)"
    using command_props(2) [OF c] .
next
  fix h :: "'a hiredis" and s s'
  assume a: "op h s = Some (True, s')"
  obtain fmt args reply where c: "command h fmt args s = (reply, s')" and "reply \<noteq> None"
    using assms [OF a] by (elim exE conjE) simp
  then show "r_context (snd s') \<noteq> None" using command_props(1) [OF c] by simp
qed

lemma simple_operation: "redis_operation (\<lambda>h s. Some (simple_command h (fmt h s) (args h s) s))"
  by (rule redis_operation_command) (auto simp: simple_command_def split: prod.splits)

lemma text_operation:
  "redis_operation (\<lambda>h s. case text_command h fmt args val s of (b, v, s) \<Rightarrow> Some (b, s))"
  by (rule redis_operation_command) (auto simp: text_command_def split: prod.splits option.splits)

lemma list_operation:
  "redis_operation (\<lambda>h s. map_option (\<lambda>(b, v, s). (b, s)) (list_command h fmt args val s))"
  by (rule redis_operation_command) (fastforce simp: list_command_def split: prod.splits option.splits)

interpretation set_value: redis_operation "\<lambda>h s. Some (SetValue h key val expiration s)" for key val expiration
  using simple_operation
  by (cases "0 < expiration") (simp_all add: SetValue_def)

interpretation del_value: redis_operation "\<lambda>h s. Some (DelValue h key val expiration s)" for key val expiration
  using simple_operation
  by (cases "0 < expiration") (simp_all add: DelValue_def)

interpretation incr_value: redis_operation "\<lambda>h s. Some (IncrValue h key expiration s)" for key expiration
  using simple_operation
  by (cases "0 < expiration") (simp_all add: IncrValue_def)

interpretation incr_by_value: redis_operation "\<lambda>h s. Some (IncrByValue h key expiration s)" for key expiration
  using simple_operation
  by (cases "0 < expiration") (simp_all add: IncrByValue_def)

interpretation smove: redis_operation "\<lambda>h s. Some (Smove h key dst mumb s)" for key dst mumb
  unfolding Smove_def by (rule simple_operation)

interpretation sadd: redis_operation "\<lambda>h s. Some (Sadd h key mumb s)" for key mumb
  unfolding Sadd_def by (rule simple_operation)

interpretation sremove: redis_operation "\<lambda>h s. Some (Sremove h key mumb s)" for key mumb
  unfolding Sremove_def by (rule simple_operation)

interpretation set_sorted: redis_operation "\<lambda>h s. Some (SetValueSortedSet h key score val s)" for key score val
  unfolding SetValueSortedSet_def by (rule simple_operation)

interpretation rpush: redis_operation "\<lambda>h s. Some (Rpush h key item s)" for key item
  unfolding Rpush_def by (rule simple_operation)

interpretation hset: redis_operation "\<lambda>h s. Some (Hset h key field val s)" for key field val
  unfolding Hset_def by (rule simple_operation)

interpretation delete_key: redis_operation "\<lambda>h s. Some (DeleteKey h key s)" for key
  unfolding DeleteKey_def by (rule simple_operation)

interpretation lpop: redis_operation "\<lambda>h s. case Lpop h key item s of (b, v, s) \<Rightarrow> Some (b, s)" for key item
  unfolding Lpop_def by (rule text_operation)

interpretation hget: redis_operation "\<lambda>h s. case Hget h key field val s of (b, v, s) \<Rightarrow> Some (b, s)" for key field val
  unfolding Hget_def by (rule text_operation)

interpretation smembers: redis_operation "\<lambda>h s. map_option (\<lambda>(b, v, s). (b, s)) (Smembers h key membs s)" for key membs
  unfolding Smembers_def by (rule list_operation)

interpretation get_keys: redis_operation "\<lambda>h s. map_option (\<lambda>(b, v, s). (b, s)) (GetKeys h key keys s)" for key keys
  unfolding GetKeys_def by (rule list_operation)

interpretation hkeys: redis_operation "\<lambda>h s. map_option (\<lambda>(b, v, s). (b, s)) (Hkeys h key flds s)" for key flds
  unfolding Hkeys_def by (rule list_operation)

interpretation hvals: redis_operation "\<lambda>h s. map_option (\<lambda>(b, v, s). (b, s)) (Hvals h key vals s)" for key vals
  unfolding Hvals_def by (rule list_operation)

interpretation llen: redis_operation "\<lambda>h s. case Llen h key n s of (b, v, s) \<Rightarrow> Some (b, s)" for key n
  by (rule redis_operation_command) (auto simp: Llen_def split: prod.splits option.splits)

lemma GetValue_operation: "redis_operation (\<lambda>h s. case GetValue h key val s of (b, v, s) \<Rightarrow> Some (b, s))"
proof
  fix h :: "'a hiredis" and s s' b and live :: "'a \<Rightarrow> nat set" and others
  assume a: "(case GetValue h key val s of (b, v, s) \<Rightarrow> Some (b, s)) = Some (b, s')"
  obtain reply s1 where c: "command h ''GET %s'' [AStr key] s = (reply, s1)"
    by (cases "command h ''GET %s'' [AStr key] s")
  then have s': "s' = s1 \<or> s' = DisConnect h s1"
    using a by (auto simp: GetValue_def split: option.splits if_splits prod.splits)
  show "owns live others s'" if "tracks_contexts h live" "owns live others s"
    using s' command_props(3) [OF c that] owns_DisConnect [OF that(1)] by blast
  show "r_host (snd s') = r_host (snd s) \<and> r_port (snd s') = r_port (snd s) \<and> r_idx (snd s') = r_idx (snd s)"
    using s' command_props(2) [OF c] by auto
next
  fix h :: "'a hiredis" and s s'
  assume a: "(case GetValue h key val s of (b, v, s) \<Rightarrow> Some (b, s)) = Some (True, s')"
  obtain reply s1 where c: "command h ''GET %s'' [AStr key] s = (reply, s1)"
    by (cases "command h ''GET %s'' [AStr key] s")
  then have "reply \<noteq> None" "s' = s1"
    using a by (auto simp: GetValue_def split: option.splits if_splits prod.splits)
  with command_props(1) [OF c] show "r_context (snd s') \<noteq> None" by simp
qed

text \<open>The sorted-set reads and the commands from word lists call \<open>KeepConnect\<close> themselves.\<close>

lemma direct_operation:
  assumes "\<And>h s b s'. op h s = Some (b, s') \<Longrightarrow>
     \<exists>con w r. KeepConnect h 0 s = (con, w, r) \<and>
       (\<not> con \<and> \<not> b \<and> s' = (w, r) \<or>
        con \<and> (\<exists>fmt args reply w'. redisCommand h w (the (r_context r)) fmt args = (reply, w') \<and>
                 (s' = (w', r) \<or> \<not> b \<and> s' = DisConnect h (w', r))))"
  shows "redis_operation op"
proof
  fix h :: "'a hiredis" and s s' b and live :: "'a \<Rightarrow> nat set" and others
  assume a: "op h s = Some (b, s')"
  obtain con w r where k: "KeepConnect h 0 s = (con, w, r)" and
      r: "\<not> con \<and> \<not> b \<and> s' = (w, r) \<or>
        con \<and> (\<exists>fmt args reply w'. redisCommand h w (the (r_context r)) fmt args = (reply, w') \<and>
                 (s' = (w', r) \<or> \<not> b \<and> s' = DisConnect h (w', r)))"
    using assms [OF a] by (elim exE conjE)
  show "owns live others s'" if "tracks_contexts h live" "owns live others s"
    using r KeepConnect_props(3) [OF k that] owns_command_world [OF that(1)] owns_DisConnect [OF that(1)]
    by blast
  show "r_host (snd s') = r_host (snd s) \<and> r_port (snd s') = r_port (snd s) \<and> r_idx (snd s') = r_idx (snd s)"
    using r KeepConnect_props(2) [OF k] by auto
next
  fix h :: "'a hiredis" and s s'
  assume a: "op h s = Some (True, s')"
  obtain con w r where k: "KeepConnect h 0 s = (con, w, r)" and "con" "snd s' = r"
    using assms [OF a] by (elim exE conjE disjE) auto
  then show "r_context (snd s') \<noteq> None" using KeepConnect_props(1) [OF k] by simp
qed

lemma words_operation: "redis_operation (\<lambda>h s. words_command h cmd ws s)"
proof (rule direct_operation)
  fix h :: "'a hiredis" and s b s'
  assume a: "words_command h cmd ws s = Some (b, s')"
  obtain con w r where k: "KeepConnect h 0 s = (con, w, r)" by (metis prod.exhaust)
  obtain reply w' where r: "redisCommand h w (the (r_context r)) (the (cat_words cmd ws)) [] = (reply, w')"
    by (metis prod.exhaust)
  have "\<not> con \<and> \<not> b \<and> s' = (w, r) \<or> con \<and> (s' = (w', r) \<or> \<not> b \<and> s' = DisConnect h (w', r))"
    using a k r by (auto simp: words_command_def send_command_def Let_def split: if_splits)
  with k r show "\<exists>con w r. KeepConnect h 0 s = (con, w, r) \<and>
       (\<not> con \<and> \<not> b \<and> s' = (w, r) \<or>
        con \<and> (\<exists>fmt args reply w'. redisCommand h w (the (r_context r)) fmt args = (reply, w') \<and>
                 (s' = (w', r) \<or> \<not> b \<and> s' = DisConnect h (w', r))))"
    by blast
qed

lemma GetValueSortedSet_operation:
  "redis_operation (\<lambda>h s. map_option (\<lambda>(b, v, s). (b, s)) (GetValueSortedSet h key val s))"
proof (rule direct_operation)
  fix h :: "'a hiredis" and s b s'
  assume a: "map_option (\<lambda>(b, v, s). (b, s)) (GetValueSortedSet h key val s) = Some (b, s')"
  obtain con w r where k: "KeepConnect h 0 s = (con, w, r)" by (metis prod.exhaust)
  obtain reply w' where r: "redisCommand h w (the (r_context r)) ''ZRANGE %s 0 0'' [AStr key] = (reply, w')"
    by (metis prod.exhaust)
  have "\<not> con \<and> \<not> b \<and> s' = (w, r) \<or> con \<and> (s' = (w', r) \<or> \<not> b \<and> s' = DisConnect h (w', r))"
    using a k r by (auto simp: GetValueSortedSet_def Let_def split: if_splits option.splits)
  with k r show "\<exists>con w r. KeepConnect h 0 s = (con, w, r) \<and>
       (\<not> con \<and> \<not> b \<and> s' = (w, r) \<or>
        con \<and> (\<exists>fmt args reply w'. redisCommand h w (the (r_context r)) fmt args = (reply, w') \<and>
                 (s' = (w', r) \<or> \<not> b \<and> s' = DisConnect h (w', r))))"
    by blast
qed

lemma RemoveSortedSet_operation:
  "redis_operation (\<lambda>h s. map_option (\<lambda>(b, v, s). (b, s)) (RemoveSortedSet h key val s))"
proof (rule direct_operation)
  fix h :: "'a hiredis" and s b s'
  assume a: "map_option (\<lambda>(b, v, s). (b, s)) (RemoveSortedSet h key val s) = Some (b, s')"
  obtain con w r where k: "KeepConnect h 0 s = (con, w, r)" by (metis prod.exhaust)
  obtain reply w' where r: "redisCommand h w (the (r_context r)) ''zremrangebyrank %s 0 0'' [AStr key] = (reply, w')"
    by (metis prod.exhaust)
  have "\<not> con \<and> \<not> b \<and> s' = (w, r) \<or> con \<and> (s' = (w', r) \<or> \<not> b \<and> s' = DisConnect h (w', r))"
    using a k r by (auto simp: RemoveSortedSet_def Let_def split: if_splits option.splits)
  with k r show "\<exists>con w r. KeepConnect h 0 s = (con, w, r) \<and>
       (\<not> con \<and> \<not> b \<and> s' = (w, r) \<or>
        con \<and> (\<exists>fmt args reply w'. redisCommand h w (the (r_context r)) fmt args = (reply, w') \<and>
                 (s' = (w', r) \<or> \<not> b \<and> s' = DisConnect h (w', r))))"
    by blast
qed

interpretation get_value: redis_operation "\<lambda>h s. case GetValue h key val s of (b, v, s) \<Rightarrow> Some (b, s)" for key val
  by (rule GetValue_operation)

interpretation get_sorted: redis_operation
  "\<lambda>h s. map_option (\<lambda>(b, v, s). (b, s)) (GetValueSortedSet h key val s)" for key val
  by (rule GetValueSortedSet_operation)

interpretation remove_sorted: redis_operation
  "\<lambda>h s. map_option (\<lambda>(b, v, s). (b, s)) (RemoveSortedSet h key val s)" for key val
  by (rule RemoveSortedSet_operation)

interpretation delete_keys: redis_operation "\<lambda>h s. DeleteKeys h keys s" for keys
  unfolding DeleteKeys_def by (rule words_operation)

interpretation sadd_set: redis_operation "\<lambda>h s. Sadd_set h key mumbs s" for key mumbs
  unfolding Sadd_set_def by (rule words_operation)

interpretation sremove_set: redis_operation "\<lambda>h s. Sremove_set h key mumbs s" for key mumbs
  unfolding Sremove_set_def by (rule words_operation)

section \<open>Sessions: any sequence of operations\<close>

datatype redis_call = CGet string | CSet string string int | CDel string string int | CIncr string int
  | CIncrBy string int | CRpush string string | CLlen string | CLpop string | CSadd string string
  | CSaddSet string "string list" | CSmembers string | CSrem string string | CSremSet string "string list"
  | CSmove string string string | CZget string | CZrem string | CZadd string string string
  | CHset string string string | CHget string string | CHkeys string | CHvals string
  | CKeys string | CDelKeys "string list" | CDelKey string

fun run_call :: "redis_call \<Rightarrow> 'w hiredis \<Rightarrow> 'w rstate \<Rightarrow> (bool \<times> 'w rstate) option" where
  "run_call (CGet k) = (\<lambda>h s. (case GetValue h k [] s of (b, v, s) \<Rightarrow> Some (b, s)))"
| "run_call (CSet k v e) = (\<lambda>h s. Some (SetValue h k v e s))"
| "run_call (CDel k v e) = (\<lambda>h s. Some (DelValue h k v e s))"
| "run_call (CIncr k e) = (\<lambda>h s. Some (IncrValue h k e s))"
| "run_call (CIncrBy k e) = (\<lambda>h s. Some (IncrByValue h k e s))"
| "run_call (CRpush k i) = (\<lambda>h s. Some (Rpush h k i s))"
| "run_call (CLlen k) = (\<lambda>h s. (case Llen h k 0 s of (b, v, s) \<Rightarrow> Some (b, s)))"
| "run_call (CLpop k) = (\<lambda>h s. (case Lpop h k [] s of (b, v, s) \<Rightarrow> Some (b, s)))"
| "run_call (CSadd k m) = (\<lambda>h s. Some (Sadd h k m s))"
| "run_call (CSaddSet k ms) = (\<lambda>h s. Sadd_set h k ms s)"
| "run_call (CSmembers k) = (\<lambda>h s. map_option (\<lambda>(b, v, s). (b, s)) (Smembers h k [] s))"
| "run_call (CSrem k m) = (\<lambda>h s. Some (Sremove h k m s))"
| "run_call (CSremSet k ms) = (\<lambda>h s. Sremove_set h k ms s)"
| "run_call (CSmove k d m) = (\<lambda>h s. Some (Smove h k d m s))"
| "run_call (CZget k) = (\<lambda>h s. map_option (\<lambda>(b, v, s). (b, s)) (GetValueSortedSet h k [] s))"
| "run_call (CZrem k) = (\<lambda>h s. map_option (\<lambda>(b, v, s). (b, s)) (RemoveSortedSet h k [] s))"
| "run_call (CZadd k sc v) = (\<lambda>h s. Some (SetValueSortedSet h k sc v s))"
| "run_call (CHset k f v) = (\<lambda>h s. Some (Hset h k f v s))"
| "run_call (CHget k f) = (\<lambda>h s. (case Hget h k f [] s of (b, v, s) \<Rightarrow> Some (b, s)))"
| "run_call (CHkeys k) = (\<lambda>h s. map_option (\<lambda>(b, v, s). (b, s)) (Hkeys h k [] s))"
| "run_call (CHvals k) = (\<lambda>h s. map_option (\<lambda>(b, v, s). (b, s)) (Hvals h k [] s))"
| "run_call (CKeys k) = (\<lambda>h s. map_option (\<lambda>(b, v, s). (b, s)) (GetKeys h k [] s))"
| "run_call (CDelKeys ks) = (\<lambda>h s. DeleteKeys h ks s)"
| "run_call (CDelKey k) = (\<lambda>h s. Some (DeleteKey h k s))"

fun run_calls :: "redis_call list \<Rightarrow> 'w hiredis \<Rightarrow> 'w rstate \<Rightarrow> 'w rstate option" where
  "run_calls [] h s = Some s"
| "run_calls (c # cs) h s = (case run_call c h s of None \<Rightarrow> None | Some (b, s) \<Rightarrow> run_calls cs h s)"

lemma run_call_operation: "redis_operation (run_call c)"
  using get_value.redis_operation_axioms set_value.redis_operation_axioms del_value.redis_operation_axioms
    incr_value.redis_operation_axioms incr_by_value.redis_operation_axioms rpush.redis_operation_axioms
    llen.redis_operation_axioms lpop.redis_operation_axioms sadd.redis_operation_axioms
    sadd_set.redis_operation_axioms smembers.redis_operation_axioms sremove.redis_operation_axioms
    sremove_set.redis_operation_axioms smove.redis_operation_axioms get_sorted.redis_operation_axioms
    remove_sorted.redis_operation_axioms set_sorted.redis_operation_axioms hset.redis_operation_axioms
    hget.redis_operation_axioms hkeys.redis_operation_axioms hvals.redis_operation_axioms
    get_keys.redis_operation_axioms delete_keys.redis_operation_axioms delete_key.redis_operation_axioms
  by (cases c) (simp_all only: run_call.simps)

interpretation session: redis_operation "run_call c" for c
  by (rule run_call_operation)

lemma run_calls_owns:
  "tracks_contexts h live \<Longrightarrow> owns live others s \<Longrightarrow> run_calls cs h s = Some s' \<Longrightarrow> owns live others s'"
proof (induction cs arbitrary: s)
  case (Cons c cs)
  then obtain b s1 where "run_call c h s = Some (b, s1)" "run_calls cs h s1 = Some s'"
    by (auto split: option.splits)
  with Cons session.keeps_ownership show ?case by blast
qed simp

lemma owns_delete:
  "tracks_contexts h live \<Longrightarrow> owns live others s \<Longrightarrow> live (fst (delete_CDataRedis h s)) = others"
  using owns_DisConnect [of h live others s] DisConnect_context [of h s]
  by (cases "DisConnect h s") (simp add: delete_CDataRedis_def owns_def)

lemma owns_new: "live w = others \<Longrightarrow> owns live others (w, new_CDataRedis)"
  by (simp add: owns_def new_CDataRedis_def)

lemma owns_Init:
  "tracks_contexts h live \<Longrightarrow> owns live others s \<Longrightarrow> Init h host port idx s = (b, s') \<Longrightarrow> owns live others s'"
proof -
  assume t: "tracks_contexts h live" and o: "owns live others s" and i: "Init h host port idx s = (b, s')"
  obtain w r where s: "s = (w, r)" by (cases s)
  have k: "KeepConnect h 0 (w, r\<lparr>r_host := take 256 host, r_port := port, r_idx := idx\<rparr>) = (b, s')"
    using i by (simp add: Init_def s)
  show "owns live others s'"
    using KeepConnect_props(3) [OF k t] o by (simp add: s owns_def)
qed

section \<open>Lemmas on server lists\<close>

definition print_entry :: "string \<times> u16 \<times> u16 \<Rightarrow> string" where
  "print_entry e = (case e of (host, port, idx) \<Rightarrow>
     host @ '':'' @ show_nat (unat port) @ '','' @ show_nat (unat idx))"

definition print_serv_list :: "nat \<Rightarrow> (string \<times> u16 \<times> u16) list \<Rightarrow> string" where
  "print_serv_list cnt es = show_nat cnt @ '';'' @ concat (map (\<lambda>e. print_entry e @ '';'') es)"

definition entry_ok :: "string \<times> u16 \<times> u16 \<Rightarrow> bool" where
  "entry_ok e \<longleftrightarrow> CHR '':'' \<notin> set (fst e) \<and> CHR '';'' \<notin> set (fst e) \<and> NUL \<notin> set (fst e) \<and>
     length (print_entry e) < 256"

lemma serv_entry_print:
  assumes "entry_ok (host, port, idx)"
  shows "serv_entry (print_entry (host, port, idx)) = Some (host, port, idx)"
proof -
  let ?p = "show_nat (unat port)" and ?i = "show_nat (unat idx)"
  have h: "CHR '':'' \<notin> set host" using assms by (simp add: entry_ok_def)
  have c: "CHR '','' \<notin> set (CHR '':'' # ?p)" using not_digit_show_nat by (simp add: isdigit_def)
  have fp: "find_sub '':'' (host @ CHR '':'' # ?p @ CHR '','' # ?i) = Some (length host)"
    using h by (rule find_sub_char_at)
  have fi: "find_sub '','' ((CHR '':'' # ?p) @ CHR '','' # ?i) = Some (Suc (length ?p))"
    using find_sub_char_at [OF c, of ?i] by simp
  have w: "unat port < 2 ^ 31" "unat idx < 2 ^ 31"
    using unsigned_less [of port, where 'a = nat] unsigned_less [of idx, where 'a = nat] by simp_all
  have "atoi (?p @ CHR '','' # ?i) = int (unat port)" "atoi ?i = int (unat idx)"
    using w atoi_show_nat_append [of "CHR '','' # ?i" "unat port"] by (auto simp: isdigit_def)
  with fp fi show ?thesis
    by (simp add: serv_entry_def print_entry_def Let_def)
qed

lemma print_entry_no_semicolon: "entry_ok e \<Longrightarrow> CHR '';'' \<notin> set (print_entry e)"
  using not_digit_show_nat by (cases e) (auto simp: print_entry_def entry_ok_def isdigit_def)

lemma serv_loop_print:
  "list_all entry_ok es \<Longrightarrow>
   serv_loop (length es) (Some (concat (map (\<lambda>e. print_entry e @ '';'') es) @ t)) acc = Some (True, acc @ es)"
proof (induction es arbitrary: acc)
  case (Cons e es)
  then have e: "entry_ok e" by simp
  obtain host port idx where he: "e = (host, port, idx)" by (cases e)
  have "serv_entry (print_entry e) = Some e" using serv_entry_print e he by blast
  moreover have "length (print_entry e) < 256" using e by (simp add: entry_ok_def)
  moreover have "find_sub '';'' (print_entry e @ CHR '';'' # u) = Some (length (print_entry e))" for u
    using find_sub_char_at [OF print_entry_no_semicolon [OF e]] .
  ultimately show ?case using Cons by simp
qed simp

lemma redis_serv_list_print:
  assumes "list_all entry_ok es" "cnt < 2 ^ 31"
  shows "redis_serv_list (print_serv_list cnt es) =
     serv_loop cnt (Some (concat (map (\<lambda>e. print_entry e @ '';'') es))) []"
proof -
  have "NUL \<notin> set (print_entry e)" if "entry_ok e" for e
    using that NUL_not_show_nat by (cases e) (auto simp: print_entry_def entry_ok_def NUL_def)
  then have "NUL \<notin> set (print_serv_list cnt es)"
    using assms(1) NUL_not_show_nat [of cnt] by (auto simp: print_serv_list_def list_all_iff NUL_def)
  moreover have "atoi (print_serv_list cnt es) = int cnt"
    using assms(2) unfolding print_serv_list_def by (intro atoi_show_nat_append) (auto simp: isdigit_def)
  moreover have "unat (word_of_int (int cnt) :: u32) = cnt"
    using assms(2) by (simp add: unat_of_nat)
  moreover have "find_sub '';'' (print_serv_list cnt es) = Some (length (show_nat cnt))"
    using find_sub_char_at [OF not_digit_show_nat, of "CHR '';''" cnt] by (simp add: print_serv_list_def isdigit_def)
  ultimately show ?thesis
    by (simp add: redis_serv_list_def Let_def) (simp add: print_serv_list_def)
qed

lemma serv_loop_short:
  "list_all entry_ok es \<Longrightarrow> length es < n \<Longrightarrow>
   serv_loop n (Some (concat (map (\<lambda>e. print_entry e @ '';'') es))) acc = None"
proof (induction es arbitrary: n acc)
  case Nil
  then show ?case by (cases n) simp_all
next
  case (Cons e es)
  then obtain k where n: "n = Suc k" by (cases n) auto
  have e: "entry_ok e" using Cons.prems by simp
  obtain host port idx where he: "e = (host, port, idx)" by (cases e)
  have "serv_entry (print_entry e) = Some e" using serv_entry_print e he by blast
  moreover have "length (print_entry e) < 256" using e by (simp add: entry_ok_def)
  moreover have "find_sub '';'' (print_entry e @ CHR '';'' # u) = Some (length (print_entry e))" for u
    using find_sub_char_at [OF print_entry_no_semicolon [OF e]] .
  ultimately show ?case using Cons n by simp
qed

section \<open>Properties\<close>

text \<open>A concrete hiredis for the examples: every connection and every command succeeds.\<close>

definition ok_reply :: redisReply where
  "ok_reply = Reply REDIS_REPLY_STATUS 0 (Some ''OK'') []"

definition sample_hiredis :: "(nat \<times> nat list) hiredis" where
  "sample_hiredis =
     \<lparr>redisConnectWithTimeout = (\<lambda>(n, cs) host port t. (Some (n, False), (n + 1, n # cs))),
      redisFree = (\<lambda>(n, cs) c. (n, removeAll c cs)),
      redisCommand = (\<lambda>w c fmt args. (Some ok_reply, w)),
      getenv = (\<lambda>w name. None)\<rparr>"

text \<open>The live contexts of the sample are the listed numbers below the counter.\<close>

definition sample_live :: "nat \<times> nat list \<Rightarrow> nat set" where
  "sample_live w = set (snd w) \<inter> {..<fst w}"

lemma sample_tracks: "tracks_contexts sample_hiredis sample_live"
  by (auto simp: tracks_contexts_def sample_hiredis_def sample_live_def)

text \<open>
  C25. No sequence of operations leaks or double-frees a hiredis context: a connection that starts
  without one owns at most one live context after any sequence of calls, whatever the server
  answers, and its destructor leaves exactly the contexts of the other connections.
\<close>

theorem redis_session_contexts:
  assumes "tracks_contexts h live" and "live w = others"
    and "Init h host port idx (w, new_CDataRedis) = (b, s)"
    and "run_calls calls h s = Some s'"
  shows "live (fst s') = others \<union> set_option (r_context (snd s')) \<and>
         set_option (r_context (snd s')) \<inter> others = {} \<and>
         live (fst (delete_CDataRedis h s')) = others"
proof -
  have "owns live others s'"
    using run_calls_owns [OF assms(1) owns_Init [OF assms(1) owns_new [of live w others] assms(3)] assms(4)]
      assms(2) by blast
  moreover from owns_delete [OF assms(1) this] have "live (fst (delete_CDataRedis h s')) = others" .
  ultimately show ?thesis by (cases s') (simp add: owns_def)
qed

theorem redis_session_contexts_witness:
  "sample_live (fst (delete_CDataRedis sample_hiredis (the (run_calls [CGet ''user'', CSet ''user'' ''1'' 0]
      sample_hiredis (snd (Init sample_hiredis ''127.0.0.1'' 6379 2 ((0, []), new_CDataRedis))))))) = {}"
proof -
  let ?i = "Init sample_hiredis ''127.0.0.1'' 6379 2 ((0, []), new_CDataRedis)"
  have "run_calls [CGet ''user'', CSet ''user'' ''1'' 0] sample_hiredis (snd ?i) \<noteq> None"
    by (auto split: prod.splits)
  then obtain s' where "run_calls [CGet ''user'', CSet ''user'' ''1'' 0] sample_hiredis (snd ?i) = Some s'" by auto
  moreover have "sample_live (0, []) = {}" by (simp add: sample_live_def)
  ultimately show ?thesis
    using redis_session_contexts [OF sample_tracks, of "(0, [])" "{}" "''127.0.0.1''" 6379 2 "fst ?i" "snd ?i"]
    by (simp del: run_calls.simps)
qed

text \<open>
  \<open>KeepConnect\<close> selects the database before it authenticates. A server that refuses commands
  before \<open>AUTH\<close> therefore refuses every connection with a database other than 0, whatever the
  password is.
\<close>

theorem keepconnect_selects_before_auth:
  assumes "r_context r = None" and "r_idx r \<noteq> 0"
    and "redisConnectWithTimeout h w (r_host r) (r_port r) (if timeout \<noteq> 0 then timeout else 800000)
          = (Some (c, False), w1)"
    and "redisCommand h w1 c ''select %d'' [AInt (uint (r_idx r))] = (Some (Reply REDIS_REPLY_ERROR i e els), w2)"
  shows "KeepConnect h timeout (w, r) = (False, redisFree h w2 c, r)"
  using assms by (simp add: KeepConnect_handshake handshake_def select_open_def send_command_def
      reply_failed_def DisConnect_def)

definition locked_hiredis :: "bool hiredis" where
  "locked_hiredis =
     \<lparr>redisConnectWithTimeout = (\<lambda>w host port t. (Some (7, False), False)),
      redisFree = (\<lambda>w c. False),
      redisCommand = (\<lambda>w c fmt args.
        if fmt = ''AUTH %s'' then (Some ok_reply, True)
        else if w then (Some ok_reply, w)
        else (Some (Reply REDIS_REPLY_ERROR 0 (Some ''NOAUTH'') []), w)),
      getenv = (\<lambda>w name. Some ''secret'')\<rparr>"

theorem keepconnect_selects_before_auth_witness:
  "fst (KeepConnect locked_hiredis 0 (False, new_CDataRedis\<lparr>r_idx := 1\<rparr>)) = False \<and>
   fst (KeepConnect locked_hiredis 0 (False, new_CDataRedis\<lparr>r_idx := 0\<rparr>)) = True"
proof -
  have "KeepConnect locked_hiredis 0 (False, new_CDataRedis\<lparr>r_idx := 1\<rparr>)
      = (False, redisFree locked_hiredis False 7, new_CDataRedis\<lparr>r_idx := 1\<rparr>)"
    using keepconnect_selects_before_auth [of "new_CDataRedis\<lparr>r_idx := 1\<rparr>" locked_hiredis False 0 7 False
        0 "Some ''NOAUTH''" "[]" False]
    by (simp add: locked_hiredis_def new_CDataRedis_def)
  moreover have "fst (KeepConnect locked_hiredis 0 (False, new_CDataRedis\<lparr>r_idx := 0\<rparr>)) = True"
    by (simp add: KeepConnect_def auth_open_def send_command_def reply_failed_def locked_hiredis_def
        new_CDataRedis_def ok_reply_def)
  ultimately show ?thesis by simp
qed

text \<open>
  \<open>GetValue\<close> on every answer of a connected server: a non-empty text is returned and the
  connection kept; a missing key, an empty value, an error or no answer at all leave the result
  variable alone and close the connection.
\<close>

theorem get_value_cases:
  assumes "r_context r = Some c" and "redisCommand h w c ''GET %s'' [AStr key] = (reply, w')"
  shows "GetValue h key val (w, r) =
     (case reply of
        Some (Reply t i (Some (x # xs)) els) \<Rightarrow>
          if t = REDIS_REPLY_ERROR then (False, val, redisFree h w' c, r\<lparr>r_context := None\<rparr>)
          else (True, x # xs, w', r)
      | _ \<Rightarrow> (False, val, redisFree h w' c, r\<lparr>r_context := None\<rparr>))"
proof -
  have k: "KeepConnect h 0 (w, r) = (True, w, r)" using assms(1) by (simp add: KeepConnect_def)
  have d: "DisConnect h (w', r) = (redisFree h w' c, r\<lparr>r_context := None\<rparr>)"
    using assms(1) by (simp add: DisConnect_def)
  show ?thesis
    using assms by (cases reply)
      (auto simp: GetValue_def command_def k send_command_def reply_failed_def d reply_len_def reply_text_def
        split: redisReply.splits option.splits list.splits)
qed

theorem get_value_cases_witness:
  "GetValue sample_hiredis ''user'' ''old'' ((1, [0]), new_CDataRedis\<lparr>r_context := Some 0\<rparr>)
     = (True, ''OK'', (1, [0]), new_CDataRedis\<lparr>r_context := Some 0\<rparr>)"
  using get_value_cases [of "new_CDataRedis\<lparr>r_context := Some 0\<rparr>" 0 sample_hiredis "(1, [0])" "''user''"
      "Some ok_reply" "(1, [0])" "''old''"]
  by (simp add: sample_hiredis_def ok_reply_def)

text \<open>
  C28. The parser of server lists inverts the format \<open>count;host:port,db;...\<close>, and runs off the end
  of the text when fewer servers follow than the count announces.
\<close>

theorem serv_list_round_trip:
  assumes "list_all entry_ok es" and "cnt < 2 ^ 31"
  shows "(cnt = length es \<longrightarrow> redis_serv_list (print_serv_list cnt es) = Some (True, es)) \<and>
         (length es < cnt \<longrightarrow> redis_serv_list (print_serv_list cnt es) = None)"
  using redis_serv_list_print [OF assms] serv_loop_print [OF assms(1), of "[]" "[]"]
    serv_loop_short [OF assms(1)] by auto

theorem serv_list_round_trip_witness:
  "redis_serv_list (print_serv_list 1 [(''10.0.0.1'', 6379, 0)]) = Some (True, [(''10.0.0.1'', 6379, 0)]) \<and>
   redis_serv_list (print_serv_list 2 [(''10.0.0.1'', 6379, 0)]) = None"
proof -
  have "list_all entry_ok [(''10.0.0.1'', 6379, 0)]"
    by (simp add: entry_ok_def print_entry_def show_nat.simps NUL_def)
  then show ?thesis
    using serv_list_round_trip [of "[(''10.0.0.1'', 6379, 0)]" 1]
      serv_list_round_trip [of "[(''10.0.0.1'', 6379, 0)]" 2] by simp
qed

end
