(* ===== verification/Md5.thy ===== *)
theory Md5
  imports Prelude
begin

unbundle bit_operations_syntax

text \<open>
  \<open>src/CommonTools/Md5/Md5.cpp\<close>: the incremental MD5 of \<open>CMd5\<close>. The state is the object's three
  arrays; \<open>m_ucIn\<close> is reinterpreted as sixteen 32-bit words (\<open>(UINT*)m_ucIn\<close>) on a little-endian
  machine. The development shows that any sequence of \<open>Md5Update\<close> calls followed by
  \<open>Md5Final\<close> computes the one-shot MD5 of the concatenated input. \<open>SHA1_Encode\<close> only calls
  OpenSSL and is not modelled.
\<close>

section \<open>Definitions\<close>

record CMd5 =
  m_uiBuf :: "u32 list"
  m_uiBits0 :: u32
  m_uiBits1 :: u32
  m_ucIn :: "byte list"

definition F1 :: "u32 \<Rightarrow> u32 \<Rightarrow> u32 \<Rightarrow> u32" where
  "F1 x y z = z XOR (x AND (y XOR z))"

definition F2 :: "u32 \<Rightarrow> u32 \<Rightarrow> u32 \<Rightarrow> u32" where
  "F2 x y z = F1 z x y"

definition F3 :: "u32 \<Rightarrow> u32 \<Rightarrow> u32 \<Rightarrow> u32" where
  "F3 x y z = x XOR y XOR z"

definition F4 :: "u32 \<Rightarrow> u32 \<Rightarrow> u32 \<Rightarrow> u32" where
  "F4 x y z = y XOR (x OR NOT z)"

definition MD5STEP :: "(u32 \<Rightarrow> u32 \<Rightarrow> u32 \<Rightarrow> u32) \<Rightarrow> u32 \<Rightarrow> u32 \<Rightarrow> u32 \<Rightarrow> u32 \<Rightarrow> u32 \<Rightarrow> nat \<Rightarrow> u32" where
  "MD5STEP f w x y z data s =
     (let w1 = w + (f x y z + data); w2 = push_bit s w1 OR drop_bit (32 - s) w1 in w2 + x)"

text \<open>
  One line of \<open>Md5Transform\<close>: the step updates its first register, and the next line names the
  registers rotated by one (\<open>a b c d\<close>, \<open>d a b c\<close>, \<open>c d a b\<close>, \<open>b c d a\<close>).
\<close>

fun md5_line :: "(u32 \<Rightarrow> u32 \<Rightarrow> u32 \<Rightarrow> u32) \<Rightarrow> u32 list \<Rightarrow> u32 \<times> u32 \<times> u32 \<times> u32 \<Rightarrow> nat \<times> u32 \<times> nat
    \<Rightarrow> u32 \<times> u32 \<times> u32 \<times> u32" where
  "md5_line f inp (w, x, y, z) (i, k, s) = (z, MD5STEP f w x y z (inp ! i + k) s, x, y)"

definition round1 :: "(nat \<times> u32 \<times> nat) list" where
  "round1 =
    [(0, 0xd76aa478, 7), (1, 0xe8c7b756, 12), (2, 0x242070db, 17), (3, 0xc1bdceee, 22),
     (4, 0xf57c0faf, 7), (5, 0x4787c62a, 12), (6, 0xa8304613, 17), (7, 0xfd469501, 22),
     (8, 0x698098d8, 7), (9, 0x8b44f7af, 12), (10, 0xffff5bb1, 17), (11, 0x895cd7be, 22),
     (12, 0x6b901122, 7), (13, 0xfd987193, 12), (14, 0xa679438e, 17), (15, 0x49b40821, 22)]"

definition round2 :: "(nat \<times> u32 \<times> nat) list" where
  "round2 =
    [(1, 0xf61e2562, 5), (6, 0xc040b340, 9), (11, 0x265e5a51, 14), (0, 0xe9b6c7aa, 20),
     (5, 0xd62f105d, 5), (10, 0x02441453, 9), (15, 0xd8a1e681, 14), (4, 0xe7d3fbc8, 20),
     (9, 0x21e1cde6, 5), (14, 0xc33707d6, 9), (3, 0xf4d50d87, 14), (8, 0x455a14ed, 20),
     (13, 0xa9e3e905, 5), (2, 0xfcefa3f8, 9), (7, 0x676f02d9, 14), (12, 0x8d2a4c8a, 20)]"

definition round3 :: "(nat \<times> u32 \<times> nat) list" where
  "round3 =
    [(5, 0xfffa3942, 4), (8, 0x8771f681, 11), (11, 0x6d9d6122, 16), (14, 0xfde5380c, 23),
     (1, 0xa4beea44, 4), (4, 0x4bdecfa9, 11), (7, 0xf6bb4b60, 16), (10, 0xbebfbc70, 23),
     (13, 0x289b7ec6, 4), (0, 0xeaa127fa, 11), (3, 0xd4ef3085, 16), (6, 0x04881d05, 23),
     (9, 0xd9d4d039, 4), (12, 0xe6db99e5, 11), (15, 0x1fa27cf8, 16), (2, 0xc4ac5665, 23)]"

definition round4 :: "(nat \<times> u32 \<times> nat) list" where
  "round4 =
    [(0, 0xf4292244, 6), (7, 0x432aff97, 10), (14, 0xab9423a7, 15), (5, 0xfc93a039, 21),
     (12, 0x655b59c3, 6), (3, 0x8f0ccc92, 10), (10, 0xffeff47d, 15), (1, 0x85845dd1, 21),
     (8, 0x6fa87e4f, 6), (15, 0xfe2ce6e0, 10), (6, 0xa3014314, 15), (13, 0x4e0811a1, 21),
     (4, 0xf7537e82, 6), (11, 0xbd3af235, 10), (2, 0x2ad7d2bb, 15), (9, 0xeb86d391, 21)]"

definition Md5Transform :: "u32 list \<Rightarrow> u32 list \<Rightarrow> u32 list" where
  "Md5Transform buf inp =
     (let s0 = (buf ! 0, buf ! 1, buf ! 2, buf ! 3);
          s1 = foldl (md5_line F1 inp) s0 round1;
          s2 = foldl (md5_line F2 inp) s1 round2;
          s3 = foldl (md5_line F3 inp) s2 round3;
          (a, b, c, d) = foldl (md5_line F4 inp) s3 round4
      in [buf ! 0 + a, buf ! 1 + b, buf ! 2 + c, buf ! 3 + d])"

text \<open>Native (little-endian) loads and stores of 32-bit words.\<close>

fun load_words :: "byte list \<Rightarrow> u32 list" where
  "load_words (b0 # b1 # b2 # b3 # bs) =
     (ucast b0 OR push_bit 8 (ucast b1) OR push_bit 16 (ucast b2) OR push_bit 24 (ucast b3))
       # load_words bs"
| "load_words _ = []"

definition store_word :: "u32 \<Rightarrow> byte list" where
  "store_word w = [ucast w, ucast (drop_bit 8 w), ucast (drop_bit 16 w), ucast (drop_bit 24 w)]"

definition store_words :: "u32 list \<Rightarrow> byte list" where
  "store_words ws = concat (map store_word ws)"

text \<open>\<open>Md5ByteReverse\<close> assembles each word from its bytes and stores it back.\<close>

fun Md5ByteReverse :: "byte list \<Rightarrow> nat \<Rightarrow> byte list" where
  "Md5ByteReverse (b0 # b1 # b2 # b3 # bs) (Suc uiLongs) =
     store_word (push_bit 16 (push_bit 8 (ucast b3) OR ucast b2) OR (push_bit 8 (ucast b1) OR ucast b0))
       @ Md5ByteReverse bs uiLongs"
| "Md5ByteReverse bs _ = bs"

definition memcpy_at :: "nat \<Rightarrow> byte list \<Rightarrow> byte list \<Rightarrow> byte list" where
  "memcpy_at p src dst = take p dst @ src @ drop (p + length src) dst"

definition Md5Init :: "CMd5 \<Rightarrow> CMd5" where
  "Md5Init st = st\<lparr>m_uiBuf := [0x67452301, 0xefcdab89, 0x98badcfe, 0x10325476],
                    m_uiBits0 := 0, m_uiBits1 := 0\<rparr>"

definition transform_block :: "CMd5 \<Rightarrow> byte list \<Rightarrow> CMd5" where
  "transform_block st blk =
     (let ucin = Md5ByteReverse blk 16
      in st\<lparr>m_ucIn := ucin, m_uiBuf := Md5Transform (m_uiBuf st) (load_words ucin)\<rparr>)"

function Md5Update_loop :: "CMd5 \<Rightarrow> byte list \<Rightarrow> CMd5" where
  "Md5Update_loop st bs =
     (if 64 \<le> length bs
      then Md5Update_loop (transform_block st (memcpy_at 0 (take 64 bs) (m_ucIn st))) (drop 64 bs)
      else st\<lparr>m_ucIn := memcpy_at 0 bs (m_ucIn st)\<rparr>)"
  by pat_completeness auto
termination
  by (relation "measure (\<lambda>(st, bs). length bs)") auto

declare Md5Update_loop.simps [simp del]

definition Md5Update :: "CMd5 \<Rightarrow> byte list \<Rightarrow> CMd5" where
  "Md5Update st puszBuf =
     (let uiLen = length puszBuf;
          uiValue = m_uiBits0 st;
          bits0 = uiValue + push_bit 3 (word_of_nat uiLen);
          bits1 = (if bits0 < uiValue then m_uiBits1 st + 1 else m_uiBits1 st)
                  + drop_bit 29 (word_of_nat uiLen);
          st = st\<lparr>m_uiBits0 := bits0, m_uiBits1 := bits1\<rparr>;
          used = unat (drop_bit 3 uiValue AND 0x3f)
      in if used \<noteq> 0 then
           (let space = 64 - used in
            if uiLen < space then st\<lparr>m_ucIn := memcpy_at used puszBuf (m_ucIn st)\<rparr>
            else Md5Update_loop (transform_block st (memcpy_at used (take space puszBuf) (m_ucIn st)))
                   (drop space puszBuf))
         else Md5Update_loop st puszBuf)"

definition Md5Final :: "CMd5 \<Rightarrow> byte list" where
  "Md5Final st =
     (let used = unat (drop_bit 3 (m_uiBits0 st) AND 0x3f);
          ucin = memcpy_at used [0x80] (m_ucIn st);
          uiCount = 64 - 1 - used;
          st = (if uiCount < 8
                then (let st1 = transform_block st (memcpy_at (used + 1) (replicate uiCount 0) ucin)
                      in st1\<lparr>m_ucIn := memcpy_at 0 (replicate 56 0) (m_ucIn st1)\<rparr>)
                else st\<lparr>m_ucIn := memcpy_at (used + 1) (replicate (uiCount - 8) 0) ucin\<rparr>);
          ucin = Md5ByteReverse (m_ucIn st) 14;
          inp = (load_words ucin)[14 := m_uiBits0 st, 15 := m_uiBits1 st]
      in Md5ByteReverse (store_words (Md5Transform (m_uiBuf st) inp)) 4)"

text \<open>The digest of one buffer, as every caller computes it.\<close>

definition md5_digest :: "CMd5 \<Rightarrow> byte list \<Rightarrow> byte list" where
  "md5_digest st bs = Md5Final (Md5Update (Md5Init st) bs)"

section \<open>The reference: MD5 of a whole message\<close>

definition md5_iv :: "u32 list" where
  "md5_iv = [0x67452301, 0xefcdab89, 0x98badcfe, 0x10325476]"

function absorb :: "u32 list \<Rightarrow> byte list \<Rightarrow> u32 list" where
  "absorb h bs = (if 64 \<le> length bs
     then absorb (Md5Transform h (load_words (take 64 bs))) (drop 64 bs) else h)"
  by pat_completeness auto
termination
  by (relation "measure (\<lambda>(h, bs). length bs)") auto

declare absorb.simps [simp del]

definition md5_pad :: "byte list \<Rightarrow> byte list" where
  "md5_pad msg =
     (let n = length msg; bits = word_of_nat (8 * n) :: u64
      in msg @ 0x80 # replicate (if n mod 64 < 56 then 55 - n mod 64 else 119 - n mod 64) 0
         @ store_word (ucast bits) @ store_word (ucast (drop_bit 32 bits)))"

definition md5_ref :: "byte list \<Rightarrow> byte list" where
  "md5_ref msg = store_words (absorb md5_iv (md5_pad msg))"

section \<open>Bytes and words\<close>

lemma byte_bit_high [simp]: "8 \<le> n \<Longrightarrow> \<not> bit (b :: byte) n"
  using bit_imp_le_length [of b n] by auto

lemma Md5ByteReverse_id [simp]: "Md5ByteReverse bs n = bs"
proof (induction bs n rule: Md5ByteReverse.induct)
  case (1 b0 b1 b2 b3 bs n)
  have "store_word (push_bit 16 (push_bit 8 (ucast b3) OR ucast b2) OR (push_bit 8 (ucast b1) OR ucast b0))
      = [b0, b1, b2, b3]"
    unfolding store_word_def
    by (intro arg_cong2 [where f = Cons] refl; rule byte_bits_eqI; simp add: bit_simps)
  with 1 show ?case by simp
qed simp_all

lemma load_words_store_word: "load_words (store_word w @ bs) = w # load_words bs"
proof -
  have "ucast (ucast w :: byte) OR push_bit 8 (ucast (ucast (drop_bit 8 w) :: byte)) OR
      push_bit 16 (ucast (ucast (drop_bit 16 w) :: byte)) OR
      push_bit 24 (ucast (ucast (drop_bit 24 w) :: byte)) = (w :: u32)"
  proof (rule bit_word_eqI)
    fix n assume "n < LENGTH(32)"
    then consider "n < 8" | "8 \<le> n" "n < 16" | "16 \<le> n" "n < 24" | "24 \<le> n" "n < 32" by fastforce
    then show "bit (ucast (ucast w :: byte) OR push_bit 8 (ucast (ucast (drop_bit 8 w) :: byte)) OR
      push_bit 16 (ucast (ucast (drop_bit 16 w) :: byte)) OR
      push_bit 24 (ucast (ucast (drop_bit 24 w) :: byte)) :: u32) n = bit w n"
      by cases (auto simp: bit_simps)
  qed
  then show ?thesis by (simp add: store_word_def)
qed

lemma load_words_append: "4 dvd length a \<Longrightarrow> load_words (a @ b) = load_words a @ load_words b"
proof (induction a rule: load_words.induct)
  case (1 b0 b1 b2 b3 bs)
  from "1.prems" have "4 dvd length bs" by (simp, presburger)
  with 1 show ?case by simp
qed (simp_all, presburger+)

lemma length_load_words: "length (load_words bs) = length bs div 4"
  by (induction bs rule: load_words.induct) auto

lemma length_store_word [simp]: "length (store_word w) = 4"
  by (simp add: store_word_def)

lemma load_words_patch:
  assumes "length u = 64"
  shows "(load_words u)[14 := x, 15 := y] = load_words (take 56 u @ store_word x @ store_word y)"
proof -
  have "load_words u = load_words (take 56 u) @ load_words (drop 56 u)"
    using load_words_append [of "take 56 u" "drop 56 u"] assms by simp
  moreover have "length (load_words (take 56 u)) = 14" "length (load_words (drop 56 u)) = 2"
    using assms by (simp_all add: length_load_words)
  moreover obtain p q where "load_words (drop 56 u) = [p, q]"
    using calculation(3) by (auto simp: length_Suc_conv numeral_2_eq_2)
  ultimately show ?thesis
    using assms load_words_store_word [of x "store_word y"] load_words_store_word [of y "[]"]
    by (simp add: load_words_append list_update_append)
qed

lemma memcpy_at_length [simp]:
  "p + length src \<le> length dst \<Longrightarrow> length (memcpy_at p src dst) = length dst"
  by (simp add: memcpy_at_def)

lemma take_memcpy_at:
  "p + length src \<le> length dst \<Longrightarrow> take (p + length src) (memcpy_at p src dst) = take p dst @ src"
  by (simp add: memcpy_at_def)

lemma memcpy_at_full:
  "p + length src = length dst \<Longrightarrow> memcpy_at p src dst = take p dst @ src"
  by (simp add: memcpy_at_def)

section \<open>Absorbing a message piece by piece\<close>

definition tail64 :: "byte list \<Rightarrow> byte list" where
  "tail64 m = drop (64 * (length m div 64)) m"

lemma length_tail64 [simp]: "length (tail64 m) = length m mod 64"
  by (simp add: tail64_def minus_mult_div_eq_mod)

lemma tail64_short [simp]: "length m < 64 \<Longrightarrow> tail64 m = m"
  by (simp add: tail64_def)

lemma tail64_drop: "64 \<le> length m \<Longrightarrow> tail64 m = tail64 (drop 64 m)"
proof -
  assume "64 \<le> length m"
  then have "64 * (length m div 64) = 64 * ((length m - 64) div 64) + 64"
    by (metis add.commute le_div_geq mult_Suc_right zero_less_numeral)
  then show ?thesis by (simp add: tail64_def add.commute)
qed

lemma absorb_short [simp]: "length bs < 64 \<Longrightarrow> absorb h bs = h"
  by (simp add: absorb.simps)

lemma absorb_append: "absorb h (m @ bs) = absorb (absorb h m) (tail64 m @ bs)"
proof (induction h m rule: absorb.induct)
  case (1 h m)
  show ?case
  proof (cases "64 \<le> length m")
    case True
    then show ?thesis
      using 1 by (simp add: absorb.simps [of h m] absorb.simps [of h "m @ bs"] tail64_drop)
  qed (simp add: tail64_def absorb.simps [of h m])
qed

lemma tail64_append: "tail64 (m @ bs) = tail64 (tail64 m @ bs)"
proof -
  have "64 * (length (m @ bs) div 64) =
      64 * (length m div 64) + 64 * (length (tail64 m @ bs) div 64)"
  proof -
    have "length (m @ bs) = 64 * (length m div 64) + length (tail64 m @ bs)"
      using div_mult_mod_eq [of "length m" 64] by simp
    then have "length (m @ bs) div 64 = length m div 64 + length (tail64 m @ bs) div 64"
      by (metis div_mult_self4 zero_neq_numeral)
    then show ?thesis by simp
  qed
  then show ?thesis by (simp add: tail64_def add.commute)
qed

section \<open>The invariant of an object that has been fed a message\<close>

definition md5_fed :: "CMd5 \<Rightarrow> byte list \<Rightarrow> bool" where
  "md5_fed st msg \<longleftrightarrow>
     m_uiBuf st = absorb md5_iv msg \<and> length (m_ucIn st) = 64 \<and>
     take (length msg mod 64) (m_ucIn st) = tail64 msg \<and>
     m_uiBits0 st = word_of_nat (8 * length msg) \<and>
     m_uiBits1 st = word_of_nat (8 * length msg div 2 ^ 32)"

lemma md5_used: "unat (drop_bit 3 (word_of_nat (8 * n) :: u32) AND 0x3f) = n mod 64"
proof -
  have "(0x3f :: u32) = mask 6" by (simp add: mask_eq_exp_minus_1)
  then have "unat (drop_bit 3 (word_of_nat (8 * n) :: u32) AND 0x3f)
      = (unat (word_of_nat (8 * n) :: u32) div 8) mod 64"
    by (simp only: flip: take_bit_eq_mask)
      (simp add: take_bit_eq_mod drop_bit_eq_div unat_div unat_mod)
  also have "\<dots> = n mod 64"
    using mod_mult2_eq [of "8 * n" 8 536870912]
    by (simp add: unat_of_nat mod_mod_cancel del: of_nat_mult)
  finally show ?thesis .
qed

lemma carry_nat:
  assumes "x < M" "y < (M :: nat)"
  shows "(x + y) div M = (if (x + y) mod M < x then 1 else 0)"
proof (cases "x + y < M")
  case False
  then have "(x + y) mod M = x + y - M" "(x + y) div M = 1"
    using assms by (simp_all add: le_mod_geq le_div_geq)
  with assms False show ?thesis by simp
qed simp

lemma md5_bits:
  assumes "k < 2 ^ 32" and "(b0 :: u32) = word_of_nat (8 * n)"
    and "b0' = b0 + push_bit 3 (word_of_nat k)"
  shows "b0' = word_of_nat (8 * (n + k))"
    and "(if b0' < b0 then (word_of_nat (8 * n div 2 ^ 32) :: u32) + 1 else word_of_nat (8 * n div 2 ^ 32))
           + drop_bit 29 (word_of_nat k) = word_of_nat (8 * (n + k) div 2 ^ 32)"
proof -
  let ?M = "2 ^ 32 :: nat"
  show lo: "b0' = word_of_nat (8 * (n + k))"
    by (simp add: assms push_bit_eq_mult)
  have "unat (drop_bit 29 (word_of_nat k :: u32)) = (8 * k) div ?M"
    using assms(1) by (simp add: drop_bit_eq_div unat_div unat_of_nat)
  then have hi: "drop_bit 29 (word_of_nat k :: u32) = word_of_nat ((8 * k) div ?M)"
    by (metis word_of_nat_eq_iff unsigned_of_nat nat_take_bit_eq of_nat_unat ucast_id)
  have "(b0' < b0) = (((8 * n) mod ?M + (8 * k) mod ?M) mod ?M < (8 * n) mod ?M)"
    unfolding word_less_nat_alt lo assms(2) unat_of_nat by (simp add: mod_add_eq distrib_left)
  then have carry: "((8 * n) mod ?M + (8 * k) mod ?M) div ?M = (if b0' < b0 then 1 else 0)"
    using carry_nat [of "(8 * n) mod ?M" ?M "(8 * k) mod ?M"] by simp
  have "(8 * (n + k)) div ?M = (8 * n) div ?M + (8 * k) div ?M + (if b0' < b0 then 1 else 0)"
    unfolding carry [symmetric] distrib_left by (rule div_add1_eq)
  then show "(if b0' < b0 then (word_of_nat (8 * n div ?M) :: u32) + 1 else word_of_nat (8 * n div ?M))
           + drop_bit 29 (word_of_nat k) = word_of_nat (8 * (n + k) div ?M)"
    unfolding hi
    by (cases "b0' < b0") (simp_all only: of_nat_add if_True if_False of_nat_1 ac_simps add_0_left)
qed

lemma Md5Update_loop_feeds:
  "length (m_ucIn st) = 64 \<Longrightarrow>
   \<exists>u. Md5Update_loop st bs = st\<lparr>m_uiBuf := absorb (m_uiBuf st) bs, m_ucIn := u\<rparr> \<and>
       length u = 64 \<and> take (length bs mod 64) u = tail64 bs"
proof (induction st bs rule: Md5Update_loop.induct)
  case (1 st bs)
  show ?case
  proof (cases "64 \<le> length bs")
    case True
    then have "memcpy_at 0 (take 64 bs) (m_ucIn st) = take 64 bs"
      using "1.prems" by (simp add: memcpy_at_full)
    with 1 True show ?thesis
      by (auto simp: Md5Update_loop.simps [of st bs] absorb.simps [of _ bs] tail64_drop
          transform_block_def Let_def le_mod_geq)
  next
    case False
    then show ?thesis
      using "1.prems" take_memcpy_at [of 0 bs "m_ucIn st"]
      by (intro exI [of _ "memcpy_at 0 bs (m_ucIn st)"]) (simp add: Md5Update_loop.simps [of st bs])
  qed
qed

text \<open>The object after \<open>Md5Update\<close> has counted the bits.\<close>

definition md5_counted :: "CMd5 \<Rightarrow> nat \<Rightarrow> CMd5" where
  "md5_counted st n =
     (let b0 = m_uiBits0 st + push_bit 3 (word_of_nat n)
      in st\<lparr>m_uiBits0 := b0,
             m_uiBits1 := (if b0 < m_uiBits0 st then m_uiBits1 st + 1 else m_uiBits1 st) + drop_bit 29 (word_of_nat n)\<rparr>)"

lemma md5_counted_fields [simp]: "m_uiBuf (md5_counted st n) = m_uiBuf st" "m_ucIn (md5_counted st n) = m_ucIn st"
  by (simp_all add: md5_counted_def Let_def)

lemma Md5Update_counted:
  assumes "md5_fed st msg" "n = length msg mod 64"
  shows "Md5Update st bs =
     (if n \<noteq> 0 then
        if length bs < 64 - n then (md5_counted st (length bs))\<lparr>m_ucIn := memcpy_at n bs (m_ucIn st)\<rparr>
        else Md5Update_loop (transform_block (md5_counted st (length bs)) (memcpy_at n (take (64 - n) bs) (m_ucIn st)))
               (drop (64 - n) bs)
      else Md5Update_loop (md5_counted st (length bs)) bs)"
proof -
  have "m_uiBits0 st = word_of_nat (8 * length msg)" using assms(1) unfolding md5_fed_def by blast
  then have "unat (drop_bit 3 (m_uiBits0 st) AND 0x3f) = n" using md5_used assms(2) by simp
  then show ?thesis unfolding Md5Update_def md5_counted_def Let_def by simp
qed

lemma md5_fed_counted:
  assumes "md5_fed st msg" "length bs < 2 ^ 32" "length u = 64"
    "take ((length msg mod 64 + length bs) mod 64) u = tail64 (tail64 msg @ bs)"
  shows "md5_fed ((md5_counted st (length bs))\<lparr>m_uiBuf := absorb (absorb md5_iv msg) (tail64 msg @ bs), m_ucIn := u\<rparr>) (msg @ bs)"
proof -
  define b0 where "b0 = m_uiBits0 st + push_bit 3 (word_of_nat (length bs))"
  define b1 where "b1 = (if b0 < m_uiBits0 st then m_uiBits1 st + 1 else m_uiBits1 st) + drop_bit 29 (word_of_nat (length bs))"
  have mb: "m_uiBits0 st = word_of_nat (8 * length msg)" "m_uiBits1 st = word_of_nat (8 * length msg div 2 ^ 32)"
    using assms(1) unfolding md5_fed_def by blast+
  have bits: "b0 = word_of_nat (8 * length (msg @ bs))" "b1 = word_of_nat (8 * length (msg @ bs) div 2 ^ 32)"
    using md5_bits [OF assms(2) mb(1) b0_def] unfolding b1_def mb(2) length_append by blast+
  have "md5_counted st (length bs) = st\<lparr>m_uiBits0 := b0, m_uiBits1 := b1\<rparr>"
    by (simp add: md5_counted_def b0_def b1_def Let_def)
  then show ?thesis
    using assms(3,4) unfolding md5_fed_def bits absorb_append [of _ msg] tail64_append [of msg]
    by (simp only: CMd5.simps length_append mod_add_left_eq) simp
qed

text \<open>The case in which the bytes complete the block that was begun.\<close>

lemma Md5Update_fill:
  assumes "length (m_ucIn st) = 64" "take n (m_ucIn st) = tail64 msg" "n = length msg mod 64" "n \<noteq> 0" "64 - n \<le> length bs"
  shows "\<exists>u. Md5Update_loop (transform_block st (memcpy_at n (take (64 - n) bs) (m_ucIn st))) (drop (64 - n) bs) =
      st\<lparr>m_uiBuf := absorb (m_uiBuf st) (tail64 msg @ bs), m_ucIn := u\<rparr> \<and>
      length u = 64 \<and> take ((n + length bs) mod 64) u = tail64 (tail64 msg @ bs)"
proof -
  let ?blk = "tail64 msg @ take (64 - n) bs"
  have blk: "memcpy_at n (take (64 - n) bs) (m_ucIn st) = ?blk" "length ?blk = 64"
    using assms by (simp_all add: memcpy_at_full)
  obtain u where u: "Md5Update_loop (transform_block st ?blk) (drop (64 - n) bs) =
      (transform_block st ?blk)\<lparr>m_uiBuf := absorb (m_uiBuf (transform_block st ?blk)) (drop (64 - n) bs), m_ucIn := u\<rparr>"
      "length u = 64" "take (length (drop (64 - n) bs) mod 64) u = tail64 (drop (64 - n) bs)"
    using Md5Update_loop_feeds [of "transform_block st ?blk" "drop (64 - n) bs"] blk(2)
    by (auto simp: transform_block_def Let_def)
  have l: "64 \<le> length (tail64 msg @ bs)" "drop 64 (tail64 msg @ bs) = drop (64 - n) bs" "take 64 (tail64 msg @ bs) = ?blk"
    using assms(3-5) by simp_all
  have "(n + length bs) mod 64 = length (drop (64 - n) bs) mod 64"
    using assms(3-5) by (simp add: le_mod_geq add.commute)
  then have "take ((n + length bs) mod 64) u = tail64 (tail64 msg @ bs)"
    using u(3) tail64_drop [OF l(1)] l(2) by metis
  moreover have "absorb (m_uiBuf st) (tail64 msg @ bs) = absorb (Md5Transform (m_uiBuf st) (load_words ?blk)) (drop (64 - n) bs)"
    using l by (subst absorb.simps) (simp only: if_True)
  ultimately show ?thesis
    using u(1,2) unfolding blk(1) transform_block_def Let_def Md5ByteReverse_id by (intro exI [of _ u]) simp
qed

lemma Md5Update_fed:
  assumes "md5_fed st msg" and "length bs < 2 ^ 32"
  shows "md5_fed (Md5Update st bs) (msg @ bs)"
proof -
  define n where "n = length msg mod 64"
  let ?st = "md5_counted st (length bs)"
  have h: "m_uiBuf st = absorb md5_iv msg" "length (m_ucIn st) = 64" "take n (m_ucIn st) = tail64 msg"
    using assms(1) by (auto simp: md5_fed_def n_def)
  note upd = Md5Update_counted [OF assms(1) n_def, of bs]
  note fed = md5_fed_counted [OF assms, folded n_def h(1)]
  consider (small) "n \<noteq> 0" "length bs < 64 - n" | (fill) "n \<noteq> 0" "64 - n \<le> length bs" | (whole) "n = 0" by linarith
  then show ?thesis
  proof cases
    case small
    have "Md5Update st bs = ?st\<lparr>m_uiBuf := absorb (m_uiBuf st) (tail64 msg @ bs), m_ucIn := memcpy_at n bs (m_ucIn st)\<rparr>"
      using small h(1) by (simp add: upd n_def)
    then show ?thesis
      using fed [of "memcpy_at n bs (m_ucIn st)"] take_memcpy_at [of n bs "m_ucIn st"] h small by (simp add: n_def)
  next
    case fill
    with Md5Update_fill [of ?st n msg bs] h n_def upd fed show ?thesis by fastforce
  next
    case whole
    then obtain u where "Md5Update_loop ?st bs = ?st\<lparr>m_uiBuf := absorb (m_uiBuf ?st) bs, m_ucIn := u\<rparr>"
        "length u = 64" "take (length bs mod 64) u = tail64 bs"
      using Md5Update_loop_feeds [of ?st bs] h by auto
    moreover have "tail64 msg = []" using whole length_tail64 [of msg] n_def by (simp del: length_tail64)
    ultimately show ?thesis using fed [of u] whole upd by simp
  qed
qed

lemma Md5Init_fed: "length (m_ucIn st) = 64 \<Longrightarrow> md5_fed (Md5Init st) []"
  by (simp add: md5_fed_def Md5Init_def md5_iv_def)

lemma foldl_Md5Update_fed:
  "md5_fed st msg \<Longrightarrow> \<forall>c \<in> set chunks. length c < 2 ^ 32 \<Longrightarrow>
   md5_fed (foldl Md5Update st chunks) (msg @ concat chunks)"
proof (induction chunks arbitrary: st msg)
  case (Cons c cs)
  then have "md5_fed (Md5Update st c) (msg @ c)" by (intro Md5Update_fed) auto
  with Cons.IH [of "Md5Update st c" "msg @ c"] Cons.prems show ?case by simp
qed simp

lemma md5_length_words:
  "(ucast (word_of_nat n :: u64) :: u32) = word_of_nat n"
  "(ucast (drop_bit 32 (word_of_nat n :: u64)) :: u32) = word_of_nat (n div 2 ^ 32)"
  unfolding drop_bit_eq_div [of 32 n, symmetric] by (rule bit_word_eqI; simp add: bit_simps)+

definition md5_len :: "nat \<Rightarrow> byte list" where
  "md5_len n = store_word (word_of_nat (8 * n)) @ store_word (word_of_nat (8 * n div 2 ^ 32))"

lemma length_md5_len [simp]: "length (md5_len n) = 8"
  by (simp add: md5_len_def)

lemma md5_ref_absorb:
  "md5_ref msg = store_words (absorb (absorb md5_iv msg) (tail64 msg @ 0x80 #
     replicate (if length msg mod 64 < 56 then 55 - length msg mod 64 else 119 - length msg mod 64) 0
     @ md5_len (length msg)))"
  unfolding md5_ref_def md5_pad_def Let_def md5_length_words md5_len_def
  by (simp only: absorb_append [of _ msg])

lemma md5_ref_one_block:
  assumes "length msg mod 64 < 56"
  shows "md5_ref msg = store_words (Md5Transform (absorb md5_iv msg)
           (load_words ((tail64 msg @ 0x80 # replicate (55 - length msg mod 64) 0) @ md5_len (length msg))))"
proof -
  let ?b = "(tail64 msg @ 0x80 # replicate (55 - length msg mod 64) 0) @ md5_len (length msg)"
  have "length ?b = 64" using assms by simp
  then have "absorb h ?b = Md5Transform h (load_words ?b)" for h
    using absorb.simps [of h ?b] by (simp del: append_assoc)
  with assms show ?thesis by (simp add: md5_ref_absorb)
qed

lemma md5_ref_two_blocks:
  assumes "\<not> length msg mod 64 < 56"
  defines "b \<equiv> tail64 msg @ 0x80 # replicate (63 - length msg mod 64) 0"
  shows "md5_ref msg = store_words (Md5Transform (Md5Transform (absorb md5_iv msg) (load_words b))
           (load_words (replicate 56 0 @ md5_len (length msg))))"
proof -
  let ?c = "replicate 56 0 @ md5_len (length msg)"
  have n: "length msg mod 64 < 64" by simp
  then have "119 - length msg mod 64 = (63 - length msg mod 64) + 56" by linarith
  then have "replicate (119 - length msg mod 64) (0 :: byte) =
      replicate (63 - length msg mod 64) 0 @ replicate 56 0"
    by (simp only: replicate_add)
  then have "md5_ref msg = store_words (absorb (absorb md5_iv msg) (b @ ?c))"
    using assms(1) by (simp add: md5_ref_absorb b_def)
  moreover have "length b = 64" using assms(1) n by (simp add: b_def)
  then have "absorb h (b @ ?c) = absorb (Md5Transform h (load_words b)) ?c" for h
    using absorb.simps [of h "b @ ?c"] by simp
  moreover have "absorb h ?c = Md5Transform h (load_words ?c)" for h
    using absorb.simps [of h ?c] by simp
  ultimately show ?thesis by simp
qed

lemma md5_patch:
  "length a = 56 \<Longrightarrow> length r = 8 \<Longrightarrow>
   (load_words (a @ r))[14 := word_of_nat (8 * n), 15 := word_of_nat (8 * n div 2 ^ 32)]
     = load_words (a @ md5_len n)"
  unfolding md5_len_def by (subst load_words_patch) simp_all

lemma memcpy_marker:
  assumes "md5_fed st msg" and "length msg mod 64 + 1 + length zs \<le> 64"
  shows "memcpy_at (length msg mod 64 + 1) zs (memcpy_at (length msg mod 64) [0x80] (m_ucIn st)) =
      (tail64 msg @ 0x80 # zs) @ drop (length msg mod 64 + 1 + length zs) (m_ucIn st)"
  using assms by (simp add: memcpy_at_def md5_fed_def add.commute)

lemma Md5Final_fed:
  assumes "md5_fed st msg"
  shows "Md5Final st = md5_ref msg"
proof -
  let ?n = "length msg mod 64"
  have st: "m_uiBuf st = absorb md5_iv msg" "length (m_ucIn st) = 64"
    using assms by (simp_all add: md5_fed_def)
  have mb: "m_uiBits0 st = word_of_nat (8 * length msg)"
      "m_uiBits1 st = word_of_nat (8 * length msg div 2 ^ 32)"
    using assms unfolding md5_fed_def by blast+
  have used: "unat (drop_bit 3 (m_uiBits0 st) AND 0x3f) = ?n"
    unfolding mb by (rule md5_used)
  show ?thesis
  proof (cases "?n < 56")
    case True
    have "\<not> 64 - 1 - ?n < 8" "64 - 1 - ?n - 8 = 55 - ?n" "?n + 1 + (55 - ?n) = 56" using True by simp_all
    then have "Md5Final st = store_words (Md5Transform (absorb md5_iv msg)
        ((load_words ((tail64 msg @ 0x80 # replicate (55 - ?n) 0) @ drop 56 (m_ucIn st)))
           [14 := m_uiBits0 st, 15 := m_uiBits1 st]))"
      using memcpy_marker [OF assms, of "replicate (55 - ?n) 0"] st(1)
      unfolding Md5Final_def Let_def used Md5ByteReverse_id by (simp del: append_assoc)
    also have "\<dots> = md5_ref msg"
      unfolding mb md5_ref_one_block [OF True] using True st(2) by (subst md5_patch) simp_all
    finally show ?thesis .
  next
    case False
    let ?b = "tail64 msg @ 0x80 # replicate (63 - ?n) 0"
    have "?n < 64" by simp
    then have n: "64 - 1 - ?n < 8" "64 - 1 - ?n = 63 - ?n" "?n + 1 + (63 - ?n) = 64" using False by linarith+
    then have "Md5Final st = store_words (Md5Transform (Md5Transform (absorb md5_iv msg) (load_words ?b))
        ((load_words (replicate 56 0 @ drop 56 ?b))[14 := m_uiBits0 st, 15 := m_uiBits1 st]))"
      using memcpy_marker [OF assms, of "replicate (63 - ?n) 0"] st
      unfolding Md5Final_def Let_def used transform_block_def Md5ByteReverse_id
      by (simp add: memcpy_at_def [of 0] del: append_assoc)
    also have "\<dots> = md5_ref msg"
      unfolding mb md5_ref_two_blocks [OF False] using n by (subst md5_patch) simp_all
    finally show ?thesis .
  qed
qed

text \<open>A value of the test suite of RFC 1321, computed from the tables above.\<close>

lemma md5_ref_a:
  "md5_ref [0x61] = [0x0c, 0xc1, 0x75, 0xb9, 0xc0, 0xf1, 0xb6, 0xa8, 0x31, 0xc3, 0x99, 0xe2, 0x69, 0x77, 0x26, 0x61]"
  by code_simp

section \<open>Properties\<close>

text \<open>
  C27. Incremental hashing is MD5: initialising an object, feeding it any sequence of buffers (each
  shorter than \<open>2 ^ 32\<close> bytes, the range of \<open>UINT uiLen\<close>) and finalising it gives the MD5 of the
  concatenation, whatever the object held before; the 64-bit length, its carry included, is the
  length of the whole input in bits modulo \<open>2 ^ 64\<close>.
\<close>

theorem md5_incremental:
  assumes "length (m_ucIn st) = 64" and "\<forall>c \<in> set chunks. length c < 2 ^ 32"
  shows "Md5Final (foldl Md5Update (Md5Init st) chunks) = md5_ref (concat chunks)"
  using Md5Final_fed [OF foldl_Md5Update_fed [OF Md5Init_fed]] assms by simp

theorem md5_incremental_witness:
  "Md5Final (foldl Md5Update (Md5Init \<lparr>m_uiBuf = [], m_uiBits0 = 7, m_uiBits1 = 9, m_ucIn = replicate 64 5\<rparr>)
      [[0x61], [], [0x62, 0x63]]) = md5_ref [0x61, 0x62, 0x63]"
  using md5_incremental
    [of "\<lparr>m_uiBuf = [], m_uiBits0 = 7, m_uiBits1 = 9, m_ucIn = replicate 64 5\<rparr>" "[[0x61], [], [0x62, 0x63]]"]
  by simp

end
