(* ===== verification/Adapter.thy ===== *)
theory Adapter
  imports Redis Md5
begin

text \<open>
  \<open>src/redisCommon/data_adapter.cpp\<close> and \<open>update_adapter.cpp\<close>: clusters of Redis connections. A key
  belongs to the server that the first eight bytes of its MD5 select. The mutex of each server is
  held for one whole operation, so an operation is one step here (\<open>AdapterLocks\<close> has the mutexes). After \<open>Md5Final\<close> the hash object
  is only used again through \<open>Md5Init\<close>, which forgets what it held (\<open>Md5.md5_incremental\<close>), so the
  operations leave it as it is.
\<close>

section \<open>The data adapter\<close>

record CDataAdapter =
  serv_count :: nat
  data :: "CDataRedis list"
  m_clMd5 :: CMd5

type_synonym 'w astate = "'w \<times> CDataAdapter"

definition new_CDataAdapter :: "CMd5 \<Rightarrow> CDataAdapter" where
  "new_CDataAdapter md5 = \<lparr>serv_count = 0, data = [], m_clMd5 = md5\<rparr>"

text \<open>The loop of \<open>Init\<close> over the servers stops at the first that cannot be reached.\<close>

fun init_servers :: "'w hiredis \<Rightarrow> nat \<Rightarrow> (string \<times> u16 \<times> u16) list \<Rightarrow> 'w \<times> CDataRedis list \<Rightarrow> bool \<times> 'w \<times> CDataRedis list" where
  "init_servers h i [] s = (True, s)"
| "init_servers h i ((host, port, idx) # es) (w, ds) =
     (case Init h host port idx (w, ds ! i) of
        (ok, w, d) \<Rightarrow>
          if \<not> ok then (False, w, ds[i := d]) else init_servers h (Suc i) es (w, ds[i := d]))"

definition Adapter_Init :: "'w hiredis \<Rightarrow> string \<Rightarrow> 'w astate \<Rightarrow> (bool \<times> 'w astate) option" where
  "Adapter_Init h redis_list s =
     (let (w, a) = s in
      case redis_serv_list redis_list of
        None \<Rightarrow> None
      | Some (False, _) \<Rightarrow> Some (False, w, a)
      | Some (True, es) \<Rightarrow>
          let (ok, w, ds) = init_servers h 0 es (w, replicate (length es) new_CDataRedis)
          in Some (ok, w, a\<lparr>serv_count := length es, data := ds\<rparr>))"

text \<open>\<open>*(unsigned long int*)pszParamSign\<close> on a little-endian machine.\<close>

definition load_u64 :: "byte list \<Rightarrow> nat" where
  "load_u64 bs = foldr (\<lambda>b acc. unat b + 256 * acc) (take 8 bs) 0"

text \<open>The server of a key; no servers is a division by zero.\<close>

definition shard :: "CDataAdapter \<Rightarrow> string \<Rightarrow> nat option" where
  "shard a uid =
     (let pszParamSign = Md5Final (Md5Update (Md5Init (m_clMd5 a)) (map byte_of uid));
          postkey = load_u64 pszParamSign
      in if serv_count a = 0 then None else Some (postkey mod serv_count a))"

definition on_shard :: "('w rstate \<Rightarrow> ('r \<times> 'w rstate) option) \<Rightarrow> string \<Rightarrow> 'w astate \<Rightarrow> ('r \<times> 'w astate) option" where
  "on_shard operation uid s =
     (let (w, a) = s in
      case shard a uid of
        None \<Rightarrow> None
      | Some idx \<Rightarrow>
          map_option (\<lambda>(r, w, d). (r, w, a\<lparr>data := (data a)[idx := d]\<rparr>)) (operation (w, data a ! idx)))"

definition UserGet :: "'w hiredis \<Rightarrow> string \<Rightarrow> string \<Rightarrow> 'w astate \<Rightarrow> ((bool \<times> string) \<times> 'w astate) option" where
  "UserGet h uid rule s =
     on_shard (\<lambda>d. case GetValue h (cstr uid) rule d of (b, v, d) \<Rightarrow> Some ((b, v), d)) uid s"

definition UserIncr :: "'w hiredis \<Rightarrow> string \<Rightarrow> int \<Rightarrow> 'w astate \<Rightarrow> (bool \<times> 'w astate) option" where
  "UserIncr h uid itime_expire s = on_shard (\<lambda>d. Some (IncrValue h (cstr uid) itime_expire d)) uid s"

definition UserIncrBy :: "'w hiredis \<Rightarrow> string \<Rightarrow> int \<Rightarrow> 'w astate \<Rightarrow> (bool \<times> 'w astate) option" where
  "UserIncrBy h uid increment s = on_shard (\<lambda>d. Some (IncrByValue h (cstr uid) increment d)) uid s"

definition UserPut :: "'w hiredis \<Rightarrow> string \<Rightarrow> string \<Rightarrow> 'w astate \<Rightarrow> (bool \<times> 'w astate) option" where
  "UserPut h uid rule s = on_shard (\<lambda>d. Some (SetValue h (cstr uid) (cstr rule) (-1) d)) uid s"

definition UserSadd :: "'w hiredis \<Rightarrow> string \<Rightarrow> string \<Rightarrow> 'w astate \<Rightarrow> (bool \<times> 'w astate) option" where
  "UserSadd h uid rule s = on_shard (\<lambda>d. Some (Sadd h (cstr uid) (cstr rule) d)) uid s"

definition UserSmove :: "'w hiredis \<Rightarrow> string \<Rightarrow> string \<Rightarrow> string \<Rightarrow> 'w astate \<Rightarrow> (bool \<times> 'w astate) option" where
  "UserSmove h uid dstuid rule s =
     on_shard (\<lambda>d. Some (Smove h (cstr uid) (cstr dstuid) (cstr rule) d)) uid s"

definition UserSmembers :: "'w hiredis \<Rightarrow> string \<Rightarrow> string list \<Rightarrow> 'w astate \<Rightarrow> ((bool \<times> string list) \<times> 'w astate) option" where
  "UserSmembers h uid rule s =
     on_shard (\<lambda>d. map_option (\<lambda>(b, v, d). ((b, v), d)) (Smembers h (cstr uid) rule d)) uid s"

definition UserDel :: "'w hiredis \<Rightarrow> string \<Rightarrow> string \<Rightarrow> 'w astate \<Rightarrow> (bool \<times> 'w astate) option" where
  "UserDel h uid rule s = on_shard (\<lambda>d. Some (DelValue h (cstr uid) (cstr rule) (-1) d)) uid s"

text \<open>The one operation that hashes something else than its key: the score.\<close>

definition UserPutOrderSet :: "'w hiredis \<Rightarrow> string \<Rightarrow> string \<Rightarrow> string \<Rightarrow> 'w astate \<Rightarrow> (bool \<times> 'w astate) option" where
  "UserPutOrderSet h key score member s =
     on_shard (\<lambda>d. Some (SetValueSortedSet h (cstr key) (cstr score) (cstr member) d)) score s"

definition UserGetSortedSet :: "'w hiredis \<Rightarrow> string \<Rightarrow> string \<Rightarrow> 'w astate \<Rightarrow> ((bool \<times> string) \<times> 'w astate) option" where
  "UserGetSortedSet h uid rule s =
     on_shard (\<lambda>d. map_option (\<lambda>(b, v, d). ((b, v), d)) (GetValueSortedSet h (cstr uid) rule d)) uid s"

definition UserRemoveSortedSet :: "'w hiredis \<Rightarrow> string \<Rightarrow> string \<Rightarrow> 'w astate \<Rightarrow> ((bool \<times> string) \<times> 'w astate) option" where
  "UserRemoveSortedSet h uid rule s =
     on_shard (\<lambda>d. map_option (\<lambda>(b, v, d). ((b, v), d)) (RemoveSortedSet h (cstr uid) rule d)) uid s"

definition UserPutExpire :: "'w hiredis \<Rightarrow> string \<Rightarrow> string \<Rightarrow> int \<Rightarrow> 'w astate \<Rightarrow> (bool \<times> 'w astate) option" where
  "UserPutExpire h uid rule expiration s =
     on_shard (\<lambda>d. Some (SetValue h (cstr uid) (cstr rule) expiration d)) uid s"

text \<open>The destructor frees the array of connections, each with its context.\<close>

fun delete_servers :: "'w hiredis \<Rightarrow> 'w \<Rightarrow> CDataRedis list \<Rightarrow> 'w" where
  "delete_servers h w [] = w"
| "delete_servers h w (d # ds) = delete_servers h (fst (delete_CDataRedis h (w, d))) ds"

definition delete_CDataAdapter :: "'w hiredis \<Rightarrow> 'w astate \<Rightarrow> 'w" where
  "delete_CDataAdapter h s = delete_servers h (fst s) (data (snd s))"

section \<open>The update queue\<close>

record CUpdateAdapter =
  u_serv_count :: nat
  u_data :: "CDataRedis list"

definition Update_Init :: "'w hiredis \<Rightarrow> string \<Rightarrow> 'w \<times> CUpdateAdapter \<Rightarrow> (bool \<times> 'w \<times> CUpdateAdapter) option" where
  "Update_Init h mq_srv_list s =
     (let (w, a) = s in
      case redis_serv_list mq_srv_list of
        None \<Rightarrow> None
      | Some (False, _) \<Rightarrow> Some (False, w, a)
      | Some (True, es) \<Rightarrow>
          let (ok, w, ds) = init_servers h 0 es (w, replicate (length es) new_CDataRedis)
          in Some (ok, w, a\<lparr>u_serv_count := length es, u_data := ds\<rparr>))"

text \<open>A \<open>std::set\<close> of strings is its sorted list.\<close>

definition sset_insert :: "string \<Rightarrow> string list \<Rightarrow> string list" where
  "sset_insert x xs = (if x \<in> set xs then xs else insort x xs)"

fun pop_items :: "'w hiredis \<Rightarrow> string \<Rightarrow> nat \<Rightarrow> string list \<Rightarrow> 'w rstate \<Rightarrow> string list \<times> 'w rstate" where
  "pop_items h mq_key 0 uids s = (uids, s)"
| "pop_items h mq_key (Suc n) uids s =
     (case Lpop h mq_key [] s of (b, item, s) \<Rightarrow> pop_items h mq_key n (sset_insert item uids) s)"

text \<open>At most three items are taken from each server; \<open>item_count\<close> survives from one to the next.\<close>

fun pop_servers :: "'w hiredis \<Rightarrow> string \<Rightarrow> u32 \<Rightarrow> string list \<Rightarrow> 'w \<Rightarrow> CDataRedis list \<Rightarrow> bool \<times> string list \<times> 'w \<times> CDataRedis list" where
  "pop_servers h mq_key item_count uids w [] = (True, uids, w, [])"
| "pop_servers h mq_key item_count uids w (d # ds) =
     (case Llen h mq_key item_count (w, d) of
        (ok, item_count, w, d) \<Rightarrow>
          if \<not> ok then (False, uids, w, d # ds)
          else
            case pop_items h mq_key (min (unat item_count) 3) uids (w, d) of
              (uids, w, d) \<Rightarrow>
                (case pop_servers h mq_key item_count uids w ds of
                   (ok, uids, w, ds) \<Rightarrow> (ok, uids, w, d # ds)))"

definition TryGetPop :: "'w hiredis \<Rightarrow> string \<Rightarrow> string list \<Rightarrow> 'w \<times> CUpdateAdapter \<Rightarrow> bool \<times> string list \<times> 'w \<times> CUpdateAdapter" where
  "TryGetPop h mq_key uids s =
     (let (w, a) = s;
          (ok, uids, w, ds) = pop_servers h mq_key 0 uids w (u_data a)
      in (ok, uids, w, a\<lparr>u_data := ds\<rparr>))"

section \<open>The server of a key\<close>

lemma Md5_one_shot:
  "length (m_ucIn st) = 64 \<Longrightarrow> length bs < 2 ^ 32 \<Longrightarrow> Md5Final (Md5Update (Md5Init st) bs) = md5_ref bs"
  using Md5Final_fed [OF Md5Update_fed [OF Md5Init_fed, of st bs]] by simp

lemma shard_ref:
  assumes "length (m_ucIn (m_clMd5 a)) = 64" "length uid < 2 ^ 32"
  shows "shard a uid = (if serv_count a = 0 then None
           else Some (load_u64 (md5_ref (map byte_of uid)) mod serv_count a))"
  using Md5_one_shot [of "m_clMd5 a" "map byte_of uid"] assms by (simp add: shard_def)

lemma shard_bound: "shard a uid = Some i \<Longrightarrow> i < serv_count a"
  by (auto simp: shard_def Let_def split: if_splits)

section \<open>Ownership of contexts in a cluster\<close>

definition contexts :: "CDataRedis list \<Rightarrow> nat list" where
  "contexts ds = List.map_filter r_context ds"

definition cluster_owns :: "('w \<Rightarrow> nat set) \<Rightarrow> nat set \<Rightarrow> 'w \<times> CDataRedis list \<Rightarrow> bool" where
  "cluster_owns live others s \<longleftrightarrow>
     (case s of (w, ds) \<Rightarrow>
        live w = others \<union> set (contexts ds) \<and> distinct (contexts ds) \<and> set (contexts ds) \<inter> others = {})"

lemma contexts_append [simp]: "contexts (xs @ ys) = contexts xs @ contexts ys"
  by (simp add: contexts_def List.map_filter_def)

lemma contexts_Cons: "contexts (d # ds) = (case r_context d of None \<Rightarrow> contexts ds | Some c \<Rightarrow> c # contexts ds)"
  by (simp add: contexts_def List.map_filter_def split: option.split)

text \<open>Seen from one connection, the rest of the cluster belongs to the others.\<close>

lemma cluster_owns_split:
  "cluster_owns live others (w, xs @ d # ys) \<longleftrightarrow>
     owns live (others \<union> set (contexts (xs @ ys))) (w, d) \<and>
     distinct (contexts (xs @ ys)) \<and> set (contexts (xs @ ys)) \<inter> others = {}"
  by (cases "r_context d") (auto simp: cluster_owns_def owns_def contexts_Cons)

lemma cluster_owns_step:
  assumes "cluster_owns live others (w, ds)" "i < length ds"
    and "\<And>os. owns live os (w, ds ! i) \<Longrightarrow> owns live os (w', d')"
  shows "cluster_owns live others (w', ds[i := d'])"
proof -
  have ds: "ds = take i ds @ ds ! i # drop (Suc i) ds"
    using assms(2) by (simp add: id_take_nth_drop)
  have "cluster_owns live others (w, take i ds @ ds ! i # drop (Suc i) ds)"
    using assms(1) ds by simp
  then have "cluster_owns live others (w', take i ds @ d' # drop (Suc i) ds)"
    unfolding cluster_owns_split using assms(3) by blast
  then show ?thesis using assms(2) by (simp add: upd_conv_take_nth_drop)
qed

lemma cluster_owns_new: "live w = others \<Longrightarrow> cluster_owns live others (w, replicate n new_CDataRedis)"
  by (induction n) (auto simp: cluster_owns_def contexts_def List.map_filter_def new_CDataRedis_def)

lemma init_servers_owns:
  assumes "tracks_contexts h live"
  shows "init_servers h i es (w, ds) = (ok, w', ds') \<Longrightarrow> i + length es \<le> length ds \<Longrightarrow>
    cluster_owns live others (w, ds) \<Longrightarrow> cluster_owns live others (w', ds') \<and> length ds' = length ds"
proof (induction es arbitrary: i w ds)
  case Nil
  then show ?case by simp
next
  case (Cons e es)
  obtain host port idx where e: "e = (host, port, idx)" by (cases e)
  obtain b w1 d1 where i: "Init h host port idx (w, ds ! i) = (b, w1, d1)" by (metis prod.exhaust)
  have "cluster_owns live others (w1, ds[i := d1])"
    using Cons.prems owns_Init [OF assms _ i] by (intro cluster_owns_step) auto
  with Cons i e show ?case by (cases b) force+
qed

lemma delete_servers_live:
  "tracks_contexts h live \<Longrightarrow> cluster_owns live others (w, ds) \<Longrightarrow> live (delete_servers h w ds) = others"
proof (induction ds arbitrary: w)
  case Nil
  then show ?case by (simp add: cluster_owns_def contexts_def List.map_filter_def)
next
  case (Cons d ds)
  have o: "owns live (others \<union> set (contexts ds)) (w, d)" "distinct (contexts ds)" "set (contexts ds) \<inter> others = {}"
    using cluster_owns_split [of live others w "[]" d ds] Cons.prems(2) by auto
  have "cluster_owns live others (fst (delete_CDataRedis h (w, d)), ds)"
    using owns_delete [OF Cons.prems(1) o(1)] o(2,3) by (simp add: cluster_owns_def)
  with Cons show ?case by simp
qed

text \<open>
  The contract of an operation of the adapter: it keeps the number of servers, the hash object and
  the ownership of all contexts. It holds for every operation that runs an operation of a
  connection on one server.
\<close>

definition adapter_ok :: "('w \<Rightarrow> nat set) \<Rightarrow> nat set \<Rightarrow> 'w astate \<Rightarrow> bool" where
  "adapter_ok live others s \<longleftrightarrow>
     (case s of (w, a) \<Rightarrow>
        length (data a) = serv_count a \<and> length (m_ucIn (m_clMd5 a)) = 64 \<and> cluster_owns live others (w, data a))"

locale adapter_operation =
  fixes user_operation :: "'w hiredis \<Rightarrow> 'w astate \<Rightarrow> ('r \<times> 'w astate) option"
  assumes keeps_adapter:
    "tracks_contexts h live \<Longrightarrow> adapter_ok live others s \<Longrightarrow> user_operation h s = Some (r, s') \<Longrightarrow>
     adapter_ok live others s'"
begin

lemma destructor_frees:
  "tracks_contexts h live \<Longrightarrow> adapter_ok live others s \<Longrightarrow> user_operation h s = Some (r, s') \<Longrightarrow>
   live (delete_CDataAdapter h s') = others"
  using keeps_adapter [of h live others s r s'] delete_servers_live [of h live others "fst s'" "data (snd s')"]
  by (cases s') (auto simp: adapter_ok_def delete_CDataAdapter_def)

end

lemma on_shard_operation:
  assumes "redis_operation (\<lambda>h s. map_option (\<lambda>(r, s). (flag r, s)) (operation h s))"
  shows "adapter_operation (\<lambda>h. on_shard (operation h) uid)"
proof
  fix h :: "'a hiredis" and live :: "'a \<Rightarrow> nat set" and others s r s'
  assume t: "tracks_contexts h live" and ok: "adapter_ok live others s"
    and run: "on_shard (operation h) uid s = Some (r, s')"
  obtain w a where s: "s = (w, a)" by (cases s)
  obtain i where i: "shard a uid = Some i" using run s by (cases "shard a uid") (auto simp: on_shard_def)
  then obtain w' d' where op: "operation h (w, data a ! i) = Some (r, w', d')"
      and s': "s' = (w', a\<lparr>data := (data a)[i := d']\<rparr>)"
    using run s by (auto simp: on_shard_def)
  have "i < length (data a)" using shard_bound [OF i] ok s by (simp add: adapter_ok_def)
  moreover have "owns live os (w', d')" if "owns live os (w, data a ! i)" for os
    using redis_operation.keeps_ownership [OF assms t that] op by simp
  ultimately have "cluster_owns live others (w', (data a)[i := d'])"
    using ok s by (intro cluster_owns_step) (auto simp: adapter_ok_def)
  then show "adapter_ok live others s'" using ok s s' by (simp add: adapter_ok_def)
qed

lemma on_shard_simple:
  "redis_operation (\<lambda>h s. Some (f h s)) \<Longrightarrow> adapter_operation (\<lambda>h. on_shard (\<lambda>d. Some (f h d)) uid)"
  using on_shard_operation [of "\<lambda>b. b" "\<lambda>h s. Some (f h s)"] by simp

lemma on_shard_value:
  assumes "redis_operation (\<lambda>h s. map_option (\<lambda>(b, v, s). (b, s)) (f h s))"
  shows "adapter_operation (\<lambda>h. on_shard (\<lambda>d. map_option (\<lambda>(b, v, d). ((b, v), d)) (f h d)) uid)"
  using on_shard_operation [of fst "\<lambda>h d. map_option (\<lambda>(b, v, d). ((b, v), d)) (f h d)" uid] assms
  by (simp add: option.map_comp comp_def case_prod_unfold)

interpretation user_incr: adapter_operation "\<lambda>h. UserIncr h uid e" for uid e
  unfolding UserIncr_def by (rule on_shard_simple [OF incr_value.redis_operation_axioms])

interpretation user_incr_by: adapter_operation "\<lambda>h. UserIncrBy h uid n" for uid n
  unfolding UserIncrBy_def by (rule on_shard_simple [OF incr_by_value.redis_operation_axioms])

interpretation user_put: adapter_operation "\<lambda>h. UserPut h uid rule" for uid rule
  unfolding UserPut_def by (rule on_shard_simple [OF set_value.redis_operation_axioms])

interpretation user_put_expire: adapter_operation "\<lambda>h. UserPutExpire h uid rule e" for uid rule e
  unfolding UserPutExpire_def by (rule on_shard_simple [OF set_value.redis_operation_axioms])

interpretation user_sadd: adapter_operation "\<lambda>h. UserSadd h uid rule" for uid rule
  unfolding UserSadd_def by (rule on_shard_simple [OF sadd.redis_operation_axioms])

interpretation user_smove: adapter_operation "\<lambda>h. UserSmove h uid dst rule" for uid dst rule
  unfolding UserSmove_def by (rule on_shard_simple [OF smove.redis_operation_axioms])

interpretation user_del: adapter_operation "\<lambda>h. UserDel h uid rule" for uid rule
  unfolding UserDel_def by (rule on_shard_simple [OF del_value.redis_operation_axioms])

interpretation user_put_order_set: adapter_operation "\<lambda>h. UserPutOrderSet h key score member" for key score member
  unfolding UserPutOrderSet_def by (rule on_shard_simple [OF set_sorted.redis_operation_axioms])

interpretation user_smembers: adapter_operation "\<lambda>h. UserSmembers h uid rule" for uid rule
  unfolding UserSmembers_def by (rule on_shard_value [OF smembers.redis_operation_axioms])

interpretation user_get_sorted: adapter_operation "\<lambda>h. UserGetSortedSet h uid rule" for uid rule
  unfolding UserGetSortedSet_def by (rule on_shard_value [OF get_sorted.redis_operation_axioms])

interpretation user_remove_sorted: adapter_operation "\<lambda>h. UserRemoveSortedSet h uid rule" for uid rule
  unfolding UserRemoveSortedSet_def by (rule on_shard_value [OF remove_sorted.redis_operation_axioms])

interpretation user_get: adapter_operation "\<lambda>h. UserGet h uid rule" for uid rule
proof -
  have "redis_operation (\<lambda>h s. map_option (\<lambda>(r, s). (fst r, s)) (case GetValue h (cstr uid) rule s of (b, v, d) \<Rightarrow> Some ((b, v), d)))"
    using get_value.redis_operation_axioms by (simp add: case_prod_unfold)
  then show "adapter_operation (\<lambda>h. UserGet h uid rule)"
    unfolding UserGet_def by (rule on_shard_operation)
qed

section \<open>Sequences of operations of the adapter\<close>

datatype adapter_call = AGet string | AIncr string int | AIncrBy string int | APut string string
  | APutExpire string string int | ASadd string string | ASmove string string string | ASmembers string
  | ADel string string | APutOrderSet string string string | AGetSortedSet string | ARemoveSortedSet string

fun run_adapter :: "adapter_call \<Rightarrow> 'w hiredis \<Rightarrow> 'w astate \<Rightarrow> 'w astate option" where
  "run_adapter (AGet k) h s = map_option snd (UserGet h k [] s)"
| "run_adapter (AIncr k e) h s = map_option snd (UserIncr h k e s)"
| "run_adapter (AIncrBy k n) h s = map_option snd (UserIncrBy h k n s)"
| "run_adapter (APut k v) h s = map_option snd (UserPut h k v s)"
| "run_adapter (APutExpire k v e) h s = map_option snd (UserPutExpire h k v e s)"
| "run_adapter (ASadd k v) h s = map_option snd (UserSadd h k v s)"
| "run_adapter (ASmove k d v) h s = map_option snd (UserSmove h k d v s)"
| "run_adapter (ASmembers k) h s = map_option snd (UserSmembers h k [] s)"
| "run_adapter (ADel k v) h s = map_option snd (UserDel h k v s)"
| "run_adapter (APutOrderSet k sc v) h s = map_option snd (UserPutOrderSet h k sc v s)"
| "run_adapter (AGetSortedSet k) h s = map_option snd (UserGetSortedSet h k [] s)"
| "run_adapter (ARemoveSortedSet k) h s = map_option snd (UserRemoveSortedSet h k [] s)"

fun run_adapters :: "adapter_call list \<Rightarrow> 'w hiredis \<Rightarrow> 'w astate \<Rightarrow> 'w astate option" where
  "run_adapters [] h s = Some s"
| "run_adapters (c # cs) h s = Option.bind (run_adapter c h s) (run_adapters cs h)"

lemma run_adapter_ok:
  assumes t: "tracks_contexts h live" and ok: "adapter_ok live others s" and run: "run_adapter c h s = Some s'"
  shows "adapter_ok live others s'"
proof -
  note keeps = user_get.keeps_adapter user_incr.keeps_adapter user_incr_by.keeps_adapter user_put.keeps_adapter
    user_put_expire.keeps_adapter user_sadd.keeps_adapter user_smove.keeps_adapter user_smembers.keeps_adapter
    user_del.keeps_adapter user_put_order_set.keeps_adapter user_get_sorted.keeps_adapter
    user_remove_sorted.keeps_adapter
  show ?thesis
    using run by (cases c) (auto simp: map_option_eq_Some intro: keeps [OF t ok])
qed

lemma run_adapters_ok:
  "tracks_contexts h live \<Longrightarrow> adapter_ok live others s \<Longrightarrow> run_adapters cs h s = Some s' \<Longrightarrow>
   adapter_ok live others s'"
  by (induction cs arbitrary: s) (auto simp: bind_eq_Some_conv dest: run_adapter_ok)

lemma Adapter_Init_ok:
  assumes "tracks_contexts h live" "live w = others" "length (m_ucIn md5) = 64"
    and "Adapter_Init h lst (w, new_CDataAdapter md5) = Some (b, s)"
  shows "adapter_ok live others s"
proof -
  obtain p es where p: "redis_serv_list lst = Some (p, es)"
    using assms(4) by (cases "redis_serv_list lst") (auto simp: Adapter_Init_def)
  show ?thesis
  proof (cases p)
    case False
    then show ?thesis
      using assms p cluster_owns_new [of live w others 0]
      by (auto simp: Adapter_Init_def new_CDataAdapter_def adapter_ok_def)
  next
    case True
    obtain ok w' ds where i: "init_servers h 0 es (w, replicate (length es) new_CDataRedis) = (ok, w', ds)"
      by (metis prod.exhaust)
    then have "cluster_owns live others (w', ds) \<and> length ds = length (replicate (length es) new_CDataRedis)"
      using assms(2) by (intro init_servers_owns [OF assms(1) i]) (auto intro: cluster_owns_new)
    then show ?thesis
      using assms p True i by (auto simp: Adapter_Init_def new_CDataAdapter_def adapter_ok_def)
  qed
qed

section \<open>Lemmas on one operation and on the queue\<close>

lemma sset_insert_length: "length (sset_insert x xs) \<le> Suc (length xs)"
  by (simp add: sset_insert_def)

lemma sset_insert_set [simp]: "set (sset_insert x xs) = insert x (set xs)"
  by (auto simp: sset_insert_def set_insort_key)

lemma sset_insert_sorted: "sorted xs \<and> distinct xs \<Longrightarrow> sorted (sset_insert x xs) \<and> distinct (sset_insert x xs)"
  by (auto simp: sset_insert_def sorted_insort distinct_insort)

lemma pop_items_bound:
  "pop_items h k n uids s = (uids', s') \<Longrightarrow>
   length uids' \<le> n + length uids \<and> set uids \<subseteq> set uids' \<and>
   (sorted uids \<and> distinct uids \<longrightarrow> sorted uids' \<and> distinct uids')"
proof (induction n arbitrary: uids s)
  case (Suc n)
  obtain b item s1 where "Lpop h k [] s = (b, item, s1)" by (metis prod.exhaust)
  with Suc.prems Suc.IH [of "sset_insert item uids" s1] sset_insert_length [of item uids]
    sset_insert_sorted [of uids item]
  show ?case by auto
qed simp

lemma pop_servers_bound:
  "pop_servers h k n uids w ds = (ok, uids', w', ds') \<Longrightarrow>
   length uids' \<le> 3 * length ds + length uids \<and> set uids \<subseteq> set uids' \<and> length ds' = length ds \<and>
   (sorted uids \<and> distinct uids \<longrightarrow> sorted uids' \<and> distinct uids')"
proof (induction ds arbitrary: n uids w ok uids' w' ds')
  case (Cons d ds)
  obtain b n1 w1 d1 where l: "Llen h k n (w, d) = (b, n1, w1, d1)" by (metis prod.exhaust)
  obtain u2 w2 d2 where p: "pop_items h k (min (unat n1) 3) uids (w1, d1) = (u2, w2, d2)" by (metis prod.exhaust)
  obtain ok3 u3 w3 ds3 where q: "pop_servers h k n1 u2 w2 ds = (ok3, u3, w3, ds3)" by (metis prod.exhaust)
  show ?case
    using Cons.prems Cons.IH [OF q] pop_items_bound [OF p] l p q by (auto split: if_splits)
qed simp

section \<open>Properties\<close>

definition sample_md5 :: CMd5 where
  "sample_md5 = \<lparr>m_uiBuf = [], m_uiBits0 = 0, m_uiBits1 = 0, m_ucIn = replicate 64 0\<rparr>"


definition sample_list :: string where
  "sample_list = print_serv_list 1 [(''10.0.0.1'', 6379, 0)]"

lemma sample_list_parses: "redis_serv_list sample_list = Some (True, [(''10.0.0.1'', 6379, 0)])"
proof -
  have "list_all entry_ok [(''10.0.0.1'', 6379, 0)]"
    by (simp add: entry_ok_def print_entry_def show_nat.simps NUL_def)
  from redis_serv_list_print [OF this, of 1] serv_loop_print [OF this, of "[]" "[]"] show ?thesis
    by (simp add: sample_list_def)
qed


text \<open>
  Storing and fetching a key use the same server, the one that the first eight bytes of the
  key's MD5 select, and storing leaves the connections to all other servers alone.
\<close>

theorem put_get_same_server:
  assumes "length (m_ucIn (m_clMd5 a)) = 64" and "length uid < 2 ^ 32"
    and "serv_count a = length (data a)" and "data a \<noteq> []"
    and "i = load_u64 (md5_ref (map byte_of uid)) mod length (data a)"
    and "SetValue h (cstr uid) (cstr rule) (-1) (w, data a ! i) = (b, w', d)"
    and "a' = a\<lparr>data := (data a)[i := d]\<rparr>"
  shows "UserPut h uid rule (w, a) = Some (b, w', a') \<and>
         UserGet h uid old (w', a') =
           (case GetValue h (cstr uid) old (w', d) of
              (g, v, w'', d') \<Rightarrow> Some ((g, v), w'', a'\<lparr>data := (data a')[i := d']\<rparr>))"
proof -
  have sh: "shard a uid = Some i" "shard a' uid = Some i"
    using shard_ref [of a uid] shard_ref [of a' uid] assms by simp_all
  have "i < length (data a)" using assms(4,5) by simp
  then have "data a' ! i = d" using assms(7) by simp
  moreover have "UserPut h uid rule (w, a) = Some (b, w', a')"
    using sh(1) assms(6,7) by (simp add: UserPut_def on_shard_def)
  ultimately show ?thesis
    using sh(2) by (simp add: UserGet_def on_shard_def split: prod.split)
qed

theorem put_get_same_server_witness:
  "\<exists>b w' a'. UserPut sample_hiredis ''k'' ''v''
       ((0, []), \<lparr>serv_count = 1, data = [new_CDataRedis], m_clMd5 = sample_md5\<rparr>) = Some (b, w', a')"
proof -
  obtain b w' d where "SetValue sample_hiredis (cstr ''k'') (cstr ''v'') (-1) ((0, []), new_CDataRedis) = (b, w', d)"
    by (metis prod.exhaust)
  then show ?thesis
    using put_get_same_server [of "\<lparr>serv_count = 1, data = [new_CDataRedis], m_clMd5 = sample_md5\<rparr>" "''k''" 0
        sample_hiredis "''v''" "(0, [])" b w' d] by (simp add: sample_md5_def)
qed

text \<open>
  Sorted sets are written to the server of their score and read from the server of their key: when
  the two differ, writing leaves the connection that the read will use untouched.
\<close>

theorem order_set_servers_differ:
  assumes "length (m_ucIn (m_clMd5 a)) = 64" and "length key < 2 ^ 32" and "length score < 2 ^ 32"
    and "serv_count a = length (data a)" and "data a \<noteq> []"
    and "i = load_u64 (md5_ref (map byte_of key)) mod length (data a)"
    and "i \<noteq> load_u64 (md5_ref (map byte_of score)) mod length (data a)"
    and "UserPutOrderSet h key score member (w, a) = Some (b, w', a')"
  shows "data a' ! i = data a ! i \<and>
         UserGetSortedSet h key old (w', a') =
           map_option (\<lambda>(g, v, w'', d). ((g, v), w'', a'\<lparr>data := (data a')[i := d]\<rparr>))
             (GetValueSortedSet h (cstr key) old (w', data a ! i))"
proof -
  let ?j = "load_u64 (md5_ref (map byte_of score)) mod length (data a)"
  have "shard a score = Some ?j" using shard_ref [of a score] assms by simp
  then obtain d where a': "a' = a\<lparr>data := (data a)[?j := d]\<rparr>"
    using assms(8) by (auto simp: UserPutOrderSet_def on_shard_def split: prod.splits)
  then have d: "data a' ! i = data a ! i" using assms(7) by simp
  moreover have "shard a' key = Some i" using shard_ref [of a' key] assms a' by simp
  ultimately show ?thesis
    by (simp add: UserGetSortedSet_def on_shard_def option.map_comp comp_def case_prod_unfold)
qed

lemma md5_ref_e: "hd (md5_ref [0x65]) = 0xe1 \<and> md5_ref [0x65] \<noteq> []"
  by code_simp

lemma load_u64_parity: "bs \<noteq> [] \<Longrightarrow> load_u64 bs mod 2 = unat (hd bs) mod 2"
  by (cases bs) (simp_all add: load_u64_def mod_add_eq [symmetric])

theorem order_set_servers_differ_witness:
  "\<exists>b w' a'. UserPutOrderSet sample_hiredis ''a'' ''e'' ''m'' ((0, []),
       \<lparr>serv_count = 2, data = [new_CDataRedis, new_CDataRedis], m_clMd5 = sample_md5\<rparr>) = Some (b, w', a') \<and>
     data a' ! 0 = new_CDataRedis"
proof -
  let ?a = "\<lparr>serv_count = 2, data = [new_CDataRedis, new_CDataRedis], m_clMd5 = sample_md5\<rparr>"
  have p: "load_u64 (md5_ref [0x61]) mod 2 = 0" "load_u64 (md5_ref [0x65]) mod 2 = 1"
    using load_u64_parity [of "md5_ref [0x61]"] load_u64_parity [of "md5_ref [0x65]"] md5_ref_e
    by (simp_all add: md5_ref_a)
  have b: "map byte_of ''a'' = [0x61]" "map byte_of ''e'' = [0x65]" by (simp_all add: byte_of_def)
  have l: "length (m_ucIn (m_clMd5 ?a)) = 64" by (simp add: sample_md5_def)
  have "shard ?a ''e'' = Some 1" using shard_ref [OF l, of "''e''"] p(2) b by simp
  then obtain r w' a' where run: "UserPutOrderSet sample_hiredis ''a'' ''e'' ''m'' ((0, []), ?a) = Some (r, w', a')"
    by (simp add: UserPutOrderSet_def on_shard_def case_prod_unfold)
  have "0 = load_u64 (md5_ref (map byte_of ''a'')) mod length (data ?a)"
      "0 \<noteq> load_u64 (md5_ref (map byte_of ''e'')) mod length (data ?a)"
    unfolding b using p by (simp_all add: numeral_2_eq_2)
  with order_set_servers_differ [OF l _ _ _ _ _ _ run, of 0] have "data a' ! 0 = data ?a ! 0" by simp
  with run show ?thesis by auto
qed

text \<open>
  C31. \<open>TryGetPop\<close> takes at most three users from each server, keeps what the caller already had and
  returns an ordered set.
\<close>

theorem try_get_pop_bound:
  assumes "TryGetPop h mq_key uids (w, a) = (ok, uids', w', a')" and "sorted uids" and "distinct uids"
  shows "length uids' \<le> 3 * length (u_data a) + length uids \<and> set uids \<subseteq> set uids' \<and>
         sorted uids' \<and> distinct uids' \<and> length (u_data a') = length (u_data a)"
  using assms pop_servers_bound [of h mq_key 0 uids w "u_data a"]
  by (auto simp: TryGetPop_def split: prod.splits)

theorem try_get_pop_bound_witness:
  "length (fst (snd (TryGetPop sample_hiredis ''q'' [''u''] ((0, []), \<lparr>u_serv_count = 1, u_data = [new_CDataRedis]\<rparr>)))) \<le> 4"
proof -
  obtain ok uids' w' a' where "TryGetPop sample_hiredis ''q'' [''u''] ((0, []), \<lparr>u_serv_count = 1, u_data = [new_CDataRedis]\<rparr>)
      = (ok, uids', w', a')" by (metis prod.exhaust)
  with try_get_pop_bound [OF this] show ?thesis by simp
qed

end
