(* ===== verification/UrlEncode.thy ===== *)
theory UrlEncode
  imports Prelude
begin

unbundle bit_operations_syntax

text \<open>
  \<open>src/CommonTools/UrlEncode/UrlEncode.cpp\<close>: percent encoding and decoding of C strings. A
  \<open>char\<close> is a signed byte on the target, so \<open>>>\<close> is the arithmetic shift; the value a
  decoder stores in a \<open>char\<close> is the low byte of an \<open>int\<close>, which is arithmetic on \<open>byte\<close>.
\<close>

section \<open>Definitions\<close>

definition from_hex :: "char \<Rightarrow> byte" where
  "from_hex ch = (if isdigit ch then byte_of ch - 48 else byte_of (tolower ch) - 97 + 10)"

definition to_hex :: "byte \<Rightarrow> char" where
  "to_hex code = ''0123456789ABCDEF'' ! unat (code AND 15)"

definition unreserved :: "char \<Rightarrow> bool" where
  "unreserved c \<longleftrightarrow> isalnum c \<or> c = CHR ''-'' \<or> c = CHR ''_'' \<or> c = CHR ''.'' \<or> c = CHR ''~''"

fun url_encode_loop :: "string \<Rightarrow> string" where
  "url_encode_loop [] = []"
| "url_encode_loop (c # cs) =
     (if unreserved c then c # url_encode_loop cs
      else if c = CHR '' '' then CHR ''+'' # url_encode_loop cs
      else CHR ''%'' # to_hex (signed_drop_bit 4 (byte_of c)) # to_hex (byte_of c AND 15)
           # url_encode_loop cs)"

definition url_encode :: "string \<Rightarrow> string" where
  "url_encode str = cstr (url_encode_loop (cstr str))"

fun url_decode_loop :: "string \<Rightarrow> string" where
  "url_decode_loop [] = []"
| "url_decode_loop (c # a # b # rest) =
     (if c = CHR ''%'' then
        char_of_byte (push_bit 4 (from_hex a) OR from_hex b) # url_decode_loop rest
      else if c = CHR ''+'' then CHR '' '' # url_decode_loop (a # b # rest)
      else c # url_decode_loop (a # b # rest))"
| "url_decode_loop (c # cs) =
     (if c = CHR ''%'' then url_decode_loop cs
      else if c = CHR ''+'' then CHR '' '' # url_decode_loop cs
      else c # url_decode_loop cs)"

definition url_decode :: "string \<Rightarrow> string" where
  "url_decode str = cstr (url_decode_loop (cstr str))"

section \<open>One escaped byte\<close>

lemma hex_digit_cases:
  assumes "n < (16::nat)"
  shows "from_hex (''0123456789ABCDEF'' ! n) = word_of_nat n \<and>
         isalnum (''0123456789ABCDEF'' ! n)"
proof -
  have "list_all (\<lambda>n. from_hex (''0123456789ABCDEF'' ! n) = word_of_nat n \<and>
          isalnum (''0123456789ABCDEF'' ! n)) [0..<16]"
    by code_simp
  with assms show ?thesis by (simp add: list_all_iff)
qed

lemma unat_and_15: "unat (b AND 15 :: byte) < 16"
proof -
  have "b AND 15 \<le> 15" by (rule word_and_le1)
  then show ?thesis by (simp add: word_le_nat_alt)
qed

lemma from_to_hex [simp]: "from_hex (to_hex b) = b AND 15"
  using hex_digit_cases [OF unat_and_15, of b] by (simp add: to_hex_def)

lemma isalnum_to_hex [simp]: "isalnum (to_hex b)"
  using hex_digit_cases [OF unat_and_15, of b] by (simp add: to_hex_def)

lemma nibbles: "push_bit 4 (signed_drop_bit 4 b AND 15) OR (b AND 15) = (b :: byte)"
proof -
  have "(15 :: byte) = mask 4" by (simp add: mask_eq_exp_minus_1)
  then show ?thesis
    by (simp only:) (rule byte_bits_eqI, simp add: bit_simps)
qed

lemma decode_escape:
  "url_decode_loop (CHR ''%'' # to_hex (signed_drop_bit 4 (byte_of c)) # to_hex (byte_of c AND 15) # cs)
     = c # url_decode_loop cs"
  using nibbles [of "byte_of c"] by (simp add: and.assoc)

section \<open>Round trip and bounds\<close>

lemma isalnum_plain: "isalnum c \<Longrightarrow> c \<noteq> NUL \<and> c \<noteq> CHR ''%'' \<and> c \<noteq> CHR ''+''"
  by (auto simp: isalnum_def isdigit_def isupper_def islower_def NUL_def)

lemma unreserved_plain: "unreserved c \<Longrightarrow> c \<noteq> NUL \<and> c \<noteq> CHR ''%'' \<and> c \<noteq> CHR ''+''"
  by (auto simp: unreserved_def NUL_def dest: isalnum_plain)

lemma url_encode_loop_chars:
  "c \<in> set (url_encode_loop s) \<Longrightarrow> unreserved c \<or> c = CHR ''%'' \<or> c = CHR ''+''"
  by (induction s rule: url_encode_loop.induct) (auto simp: unreserved_def split: if_splits)

lemma url_encode_loop_no_NUL [simp]: "NUL \<notin> set (url_encode_loop s)"
  by (auto simp: NUL_def dest!: url_encode_loop_chars)
     (auto simp: unreserved_def isalnum_def isdigit_def isupper_def islower_def)

lemma url_encode_eq: "url_encode s = url_encode_loop (cstr s)"
  by (simp add: url_encode_def)

lemma url_decode_loop_plain:
  "c \<noteq> CHR ''%'' \<Longrightarrow>
   url_decode_loop (c # cs) = (if c = CHR ''+'' then CHR '' '' else c) # url_decode_loop cs"
  by (cases "c # cs" rule: url_decode_loop.cases) auto

lemma url_decode_encode_loop [simp]: "url_decode_loop (url_encode_loop s) = s"
proof (induction s rule: url_encode_loop.induct)
  case (2 c cs)
  consider "unreserved c" | "\<not> unreserved c" "c = CHR '' ''" | "\<not> unreserved c" "c \<noteq> CHR '' ''"
    by blast
  then show ?case
  proof cases
    case 1
    with "2.IH" unreserved_plain [OF 1] show ?thesis by (simp add: url_decode_loop_plain)
  next
    case 2
    with "2.IH" show ?thesis by (simp add: url_decode_loop_plain)
  next
    case 3
    with "2.IH" decode_escape [of c] show ?thesis by simp
  qed
qed simp

interpretation url: codec url_encode "\<lambda>t. Some (url_decode t)" "\<lambda>s. NUL \<notin> set s"
  by unfold_locales (simp add: url_encode_eq url_decode_def)

lemma length_url_encode_loop: "length (url_encode_loop s) \<le> 3 * length s"
proof (induction s)
  case (Cons c cs)
  have "length (url_encode_loop (c # cs)) \<le> 3 + length (url_encode_loop cs)" by simp
  with Cons show ?case by simp
qed simp

lemma length_url_decode_loop: "length (url_decode_loop s) \<le> length s"
proof (induction s rule: url_decode_loop.induct)
  case (2 c a b rest)
  then show ?case by (cases "c = CHR ''%''") (simp_all add: url_decode_loop_plain)
qed simp_all

text \<open>
  C29. Decoding a percent-encoded string returns the string, for every string of non-NUL bytes.
\<close>

theorem url_round_trip: "NUL \<notin> set s \<Longrightarrow> url_decode (url_encode s) = s"
  using url.dec_enc [of s] by simp

theorem url_round_trip_witness: "url_decode (url_encode ''a b&c=%\<newline>'') = ''a b&c=%\<newline>''"
  by (rule url_round_trip) (simp add: NUL_def)

text \<open>
  The encoder emits unreserved characters, \<open>%\<close> and \<open>+\<close> only, and at most three per input
  byte; the decoder never emits more bytes than it reads. Both therefore stay inside the buffers
  they allocate (\<open>3 * strlen + 1\<close> and \<open>strlen + 1\<close>).
\<close>

theorem url_buffers:
  "set (url_encode_loop (cstr s)) \<subseteq> {c. unreserved c} \<union> {CHR ''%'', CHR ''+''} \<and>
   length (url_encode_loop (cstr s)) + 1 \<le> length (cstr s) * 3 + 1 \<and>
   length (url_decode_loop (cstr s)) + 1 \<le> length (cstr s) + 1"
  using url_encode_loop_chars [of _ "cstr s"] length_url_encode_loop [of "cstr s"]
    length_url_decode_loop [of "cstr s"] by auto

end
