(* ===== verification/Base64.thy ===== *)
theory Base64
  imports Prelude
begin

unbundle bit_operations_syntax

text \<open>
  \<open>src/CommonTools/Base64Encode/Base64.cpp\<close> and \<open>Base64_2.cpp\<close> (the same code over an alphabet
  with \<open>-\<close> for \<open>+\<close>), the XOR obfuscation \<open>Encrypt\<close>/\<open>Decrypt\<close> built on them, and the second
  encoder \<open>CTcpSocket::EncodingBase64\<close> of \<open>src/CommonTools/Socket/TcpSocket.cpp\<close>. The two files
  share their logic, so the loops take the alphabet as an argument.
\<close>

section \<open>Definitions\<close>

definition base64_chars :: string where
  "base64_chars = ''ABCDEFGHIJKLMNOPQRSTUVWXYZabcdefghijklmnopqrstuvwxyz0123456789+/''"

definition base64_chars_2 :: string where
  "base64_chars_2 = ''ABCDEFGHIJKLMNOPQRSTUVWXYZabcdefghijklmnopqrstuvwxyz0123456789-/''"

definition is_base64 :: "char \<Rightarrow> bool" where
  "is_base64 c \<longleftrightarrow> isalnum c \<or> c = CHR ''+'' \<or> c = CHR ''/''"

definition is_base64_2 :: "char \<Rightarrow> bool" where
  "is_base64_2 c \<longleftrightarrow> isalnum c \<or> c = CHR ''-'' \<or> c = CHR ''/''"

text \<open>\<open>char_array_4[0..3]\<close> from \<open>char_array_3[0..2]\<close>, and back.\<close>

definition sextets :: "byte \<Rightarrow> byte \<Rightarrow> byte \<Rightarrow> byte list" where
  "sextets a b c =
     [drop_bit 2 (a AND 0xfc),
      push_bit 4 (a AND 0x03) + drop_bit 4 (b AND 0xf0),
      push_bit 2 (b AND 0x0f) + drop_bit 6 (c AND 0xc0),
      c AND 0x3f]"

definition octets :: "byte \<Rightarrow> byte \<Rightarrow> byte \<Rightarrow> byte \<Rightarrow> byte list" where
  "octets p q r s =
     [push_bit 2 p + drop_bit 4 (q AND 0x30),
      push_bit 4 (q AND 0xf) + drop_bit 2 (r AND 0x3c),
      push_bit 6 (r AND 0x3) + s]"

definition b64_char :: "string \<Rightarrow> byte \<Rightarrow> char" where
  "b64_char tab v = tab ! unat v"

text \<open>
  The encoder: full triples, then the tail padded with NUL bytes of which \<open>i + 1\<close> characters are
  kept and \<open>3 - i\<close> signs \<open>=\<close> appended.
\<close>

fun encode_loop :: "string \<Rightarrow> byte list \<Rightarrow> string" where
  "encode_loop tab (a # b # c # bs) = map (b64_char tab) (sextets a b c) @ encode_loop tab bs"
| "encode_loop tab [] = []"
| "encode_loop tab [a] = map (b64_char tab) (take 2 (sextets a 0 0)) @ ''==''"
| "encode_loop tab [a, b] = map (b64_char tab) (take 3 (sextets a b 0)) @ ''=''"

text \<open>\<open>tab.find(c)\<close> stored in an \<open>unsigned char\<close>: \<open>npos\<close> becomes 255.\<close>

definition b64_find :: "string \<Rightarrow> char \<Rightarrow> byte" where
  "b64_find tab c = (case find_sub [c] tab of None \<Rightarrow> - 1 | Some i \<Rightarrow> word_of_nat i)"

text \<open>
  The decoder's loop stops at the first \<open>=\<close> or foreign character; a tail of \<open>i\<close> characters,
  completed with NULs (looked up like the rest), gives \<open>i - 1\<close> bytes.
\<close>

fun decode_loop :: "string \<Rightarrow> string \<Rightarrow> byte list" where
  "decode_loop tab (p # q # r # s # cs) =
     octets (b64_find tab p) (b64_find tab q) (b64_find tab r) (b64_find tab s) @ decode_loop tab cs"
| "decode_loop tab [p, q, r] =
     take 2 (octets (b64_find tab p) (b64_find tab q) (b64_find tab r) (b64_find tab NUL))"
| "decode_loop tab [p, q] =
     take 1 (octets (b64_find tab p) (b64_find tab q) (b64_find tab NUL) (b64_find tab NUL))"
| "decode_loop tab cs = []"

definition base64_encode :: "byte list \<Rightarrow> string" where
  "base64_encode bs = encode_loop base64_chars bs"

definition base64_encode_2 :: "byte list \<Rightarrow> string" where
  "base64_encode_2 bs = encode_loop base64_chars_2 bs"

definition base64_decode :: "string \<Rightarrow> byte list" where
  "base64_decode s =
     decode_loop base64_chars (takeWhile (\<lambda>c. c \<noteq> CHR ''='' \<and> is_base64 c) s)"

definition base64_decode_2 :: "string \<Rightarrow> byte list" where
  "base64_decode_2 s =
     decode_loop base64_chars_2 (takeWhile (\<lambda>c. c \<noteq> CHR ''='' \<and> is_base64_2 c) s)"

text \<open>
  \<open>Encrypt\<close> sets its random number to the constant 20 and XORs with \<open>20 % 32\<close>; \<open>Decrypt\<close> reads
  the number back from the last byte (a signed \<open>char\<close>: C's \<open>%\<close> truncates towards zero) and throws
  when there is none (\<open>at(length() - 1)\<close>).
\<close>

definition xor_key :: "byte \<Rightarrow> byte" where
  "xor_key b = word_of_int (sgn (sint b) * (\<bar>sint b\<bar> mod 32))"

definition Encrypt :: "byte list \<Rightarrow> string" where
  "Encrypt oriString = base64_encode (map (\<lambda>c. c XOR xor_key 20) (rev oriString) @ [20])"

definition Encrypt_2 :: "byte list \<Rightarrow> string" where
  "Encrypt_2 oriString = base64_encode_2 (map (\<lambda>c. c XOR xor_key 20) (rev oriString) @ [20])"

definition unxor :: "byte list \<Rightarrow> byte list option" where
  "unxor d = (if d = [] then None else Some (rev (map (\<lambda>c. c XOR xor_key (last d)) (butlast d))))"

definition Decrypt :: "string \<Rightarrow> byte list option" where
  "Decrypt oriString = unxor (base64_decode oriString)"

definition Decrypt_2 :: "string \<Rightarrow> byte list option" where
  "Decrypt_2 oriString = unxor (base64_decode_2 oriString)"

text \<open>
  \<open>EncodingBase64\<close> shifts signed characters: \<open>>>\<close> is arithmetic, and the index into the 65-byte
  table \<open>Base64ValTab\<close> (64 characters and a NUL) can leave it, which is \<open>None\<close> here.
\<close>

definition AVal :: "byte \<Rightarrow> char option" where
  "AVal x = (if unat x < 64 then Some (base64_chars ! unat x)
             else if unat x = 64 then Some NUL else None)"

definition sar :: "nat \<Rightarrow> byte \<Rightarrow> byte" where
  "sar n b = signed_drop_bit n b"

fun EncodingBase64_loop :: "byte list \<Rightarrow> string option" where
  "EncodingBase64_loop (x # y # z # bs) =
     (case (AVal (sar 2 x), AVal (push_bit 4 (x AND 0x03) OR sar 4 y),
            AVal (push_bit 2 (y AND 0x0f) OR drop_bit 6 (z AND 0xc0)), AVal (z AND 0x3f),
            EncodingBase64_loop bs) of
        (Some c1, Some c2, Some c3, Some c4, Some cs) \<Rightarrow> Some (c1 # c2 # c3 # c4 # cs)
      | _ \<Rightarrow> None)"
| "EncodingBase64_loop [] = Some []"
| "EncodingBase64_loop [x] =
     (case (AVal (sar 2 x), AVal (push_bit 4 (x AND 0x03))) of
        (Some c1, Some c2) \<Rightarrow> Some [c1, c2, CHR ''='', CHR ''='']
      | _ \<Rightarrow> None)"
| "EncodingBase64_loop [x, y] =
     (case (AVal (sar 2 x), AVal (push_bit 4 (x AND 0x03) OR sar 4 y),
            AVal (push_bit 2 (y AND 0x0f))) of
        (Some c1, Some c2, Some c3) \<Rightarrow> Some [c1, c2, c3, CHR ''='']
      | _ \<Rightarrow> None)"

text \<open>The input is a C string; the return value is the length of the output.\<close>

definition EncodingBase64 :: "string \<Rightarrow> (int \<times> string) option" where
  "EncodingBase64 pInput =
     map_option (\<lambda>out. (int (length out), out)) (EncodingBase64_loop (map byte_of (cstr pInput)))"

section \<open>Three bytes and four sextets\<close>

lemma byte_add_or: "(x :: byte) AND y = 0 \<Longrightarrow> x + y = x OR y"
  by (rule disjunctive_add_eq_or)

lemma sextets_or:
  "sextets a b c =
     [drop_bit 2 (a AND 0xfc),
      push_bit 4 (a AND 0x03) OR drop_bit 4 (b AND 0xf0),
      push_bit 2 (b AND 0x0f) OR drop_bit 6 (c AND 0xc0),
      c AND 0x3f]"
  unfolding sextets_def
  by (intro arg_cong2 [where f = Cons] refl byte_add_or byte_bits_eqI) (simp_all add: bit_simps)

lemma octets_sextets_1: "octets (drop_bit 2 (a AND 0xfc)) (push_bit 4 (a AND 0x03) OR drop_bit 4 (b AND 0xf0)) r s ! 0 = a"
proof -
  let ?p = "drop_bit 2 (a AND 0xfc)" and ?q = "push_bit 4 (a AND 0x03) OR drop_bit 4 (b AND 0xf0)"
  have "push_bit 2 ?p + drop_bit 4 (?q AND 0x30) = push_bit 2 ?p OR drop_bit 4 (?q AND 0x30)"
    by (intro byte_add_or byte_bits_eqI) (simp add: bit_simps)
  also have "\<dots> = a"
    by (rule byte_bits_eqI) (simp add: bit_simps)
  finally show ?thesis by (simp add: octets_def)
qed

lemma octets_sextets_2:
  "octets p (push_bit 4 (a AND 0x03) OR drop_bit 4 (b AND 0xf0))
            (push_bit 2 (b AND 0x0f) OR drop_bit 6 (c AND 0xc0)) s ! 1 = b"
proof -
  let ?q = "push_bit 4 (a AND 0x03) OR drop_bit 4 (b AND 0xf0)"
    and ?r = "push_bit 2 (b AND 0x0f) OR drop_bit 6 (c AND 0xc0)"
  have "push_bit 4 (?q AND 0xf) + drop_bit 2 (?r AND 0x3c) = push_bit 4 (?q AND 0xf) OR drop_bit 2 (?r AND 0x3c)"
    by (intro byte_add_or byte_bits_eqI) (simp add: bit_simps)
  also have "\<dots> = b"
    by (rule byte_bits_eqI) (simp add: bit_simps)
  finally show ?thesis by (simp add: octets_def)
qed

lemma octets_sextets_3:
  "octets p q (push_bit 2 (b AND 0x0f) OR drop_bit 6 (c AND 0xc0)) (c AND 0x3f) ! 2 = c"
proof -
  let ?r = "push_bit 2 (b AND 0x0f) OR drop_bit 6 (c AND 0xc0)"
  have "push_bit 6 (?r AND 0x3) + (c AND 0x3f) = push_bit 6 (?r AND 0x3) OR (c AND 0x3f)"
    by (intro byte_add_or byte_bits_eqI) (simp add: bit_simps)
  also have "\<dots> = c"
    by (rule byte_bits_eqI) (simp add: bit_simps)
  finally show ?thesis by (simp add: octets_def)
qed

lemma length_octets [simp]: "length (octets p q r s) = 3"
  by (simp add: octets_def)

lemma list_of_3: "length xs = 3 \<Longrightarrow> xs = [xs ! 0, xs ! 1, xs ! 2]"
  by (cases xs; cases "tl xs"; cases "tl (tl xs)") auto

lemma octets_sextets:
  "sextets a b c = [p, q, r, s] \<Longrightarrow>
   octets p q r s = [a, b, c] \<and> take 2 (octets p q r s') = [a, b] \<and> take 1 (octets p q r' s') = [a]"
proof -
  assume "sextets a b c = [p, q, r, s]"
  then have p: "p = drop_bit 2 (a AND 0xfc)"
    and q: "q = push_bit 4 (a AND 0x03) OR drop_bit 4 (b AND 0xf0)"
    and r: "r = push_bit 2 (b AND 0x0f) OR drop_bit 6 (c AND 0xc0)"
    and s: "s = c AND 0x3f"
    unfolding sextets_or list.inject by simp_all
  have eq: "octets p q r s = [octets p q r s ! 0, octets p q r s ! 1, octets p q r s ! 2]" for r s
    by (rule list_of_3) (rule length_octets)
  have 1: "octets p q r' s' ! 0 = a" for r' s' unfolding p q by (rule octets_sextets_1)
  have 2: "octets p q r s' ! 1 = b" for s' unfolding q r by (rule octets_sextets_2)
  have 3: "octets p q r s ! 2 = c" unfolding r s by (rule octets_sextets_3)
  have "take 2 (octets p q r s') = [a, b]" by (subst eq) (simp add: 1 2 [simplified])
  moreover have "take 1 (octets p q r' s') = [a]" by (subst eq) (simp add: 1)
  moreover have "octets p q r s = [a, b, c]" by (subst eq) (simp add: 1 2 [simplified] 3)
  ultimately show ?thesis by blast
qed

lemma byte_less_64: "x AND 0x3f = (x :: byte) \<Longrightarrow> unat x < 64"
  using word_and_le1 [of x "0x3f"] by (simp add: word_le_nat_alt)

lemma sextets_small: "v \<in> set (sextets a b c) \<Longrightarrow> unat v < 64"
  by (rule byte_less_64, rule byte_bits_eqI) (auto simp: sextets_or bit_simps)

section \<open>The interface of an alphabet\<close>

locale base64_alphabet =
  fixes tab :: string and valid :: "char \<Rightarrow> bool"
  assumes length_tab: "length tab = 64"
    and distinct_tab: "distinct tab"
    and tab_valid: "c \<in> set tab \<Longrightarrow> valid c \<and> c \<noteq> CHR ''=''"
begin

lemma find_tab: "i < 64 \<Longrightarrow> find_sub [tab ! i] tab = Some i"
proof -
  assume i: "i < 64"
  have "tab = take i tab @ tab ! i # drop (Suc i) tab"
    using i length_tab by (simp add: id_take_nth_drop)
  moreover from this have "tab ! i \<notin> set (take i tab)"
    using distinct_tab by (metis distinct_append disjoint_iff list.set_intros(1))
  ultimately have "find_sub [tab ! i] tab = Some (length (take i tab))"
    by (metis find_sub_char_at)
  with i length_tab show ?thesis by simp
qed

lemma b64_find_char: "unat v < 64 \<Longrightarrow> b64_find tab (b64_char tab v) = v"
  by (simp add: b64_find_def b64_char_def find_tab)

lemma b64_char_valid: "unat v < 64 \<Longrightarrow> valid (b64_char tab v) \<and> b64_char tab v \<noteq> CHR ''=''"
  using tab_valid length_tab by (simp add: b64_char_def)

lemma takeWhile_sextets:
  assumes "\<And>v. v \<in> set vs \<Longrightarrow> unat v < 64"
  shows "takeWhile (\<lambda>c. c \<noteq> CHR ''='' \<and> valid c) (map (b64_char tab) vs @ t) =
         map (b64_char tab) vs @ takeWhile (\<lambda>c. c \<noteq> CHR ''='' \<and> valid c) t"
  using assms b64_char_valid by (subst takeWhile_append2) auto

lemma decode_encode:
  "decode_loop tab (takeWhile (\<lambda>c. c \<noteq> CHR ''='' \<and> valid c) (encode_loop tab bs)) = bs"
proof (induction bs rule: length_induct)
  case (1 bs)
  have small: "unat v < 64" if "v \<in> set (sextets a b c)" for a b c v
    using that by (rule sextets_small)
  have find: "b64_find tab (b64_char tab v) = v" if "v \<in> set (sextets a b c)" for a b c v
    using that by (intro b64_find_char sextets_small)
  show ?case
  proof (cases "(tab, bs)" rule: encode_loop.cases)
    case (1 tab' a b c bs')
    then have bs: "bs = a # b # c # bs'" by simp
    then have "decode_loop tab (takeWhile (\<lambda>c. c \<noteq> CHR ''='' \<and> valid c) (encode_loop tab bs')) = bs'"
      using "1.IH" by simp
    moreover obtain p q r s where s: "sextets a b c = [p, q, r, s]"
      by (simp add: sextets_def)
    moreover have "takeWhile (\<lambda>c. c \<noteq> CHR ''='' \<and> valid c) (encode_loop tab bs) =
        map (b64_char tab) (sextets a b c) @ takeWhile (\<lambda>c. c \<noteq> CHR ''='' \<and> valid c) (encode_loop tab bs')"
      unfolding bs encode_loop.simps by (rule takeWhile_sextets) (rule small)
    ultimately show ?thesis
      using find [of _ a b c] octets_sextets [OF s] by (simp add: s) (simp add: bs)
  next
    case (2 tab')
    then show ?thesis by simp
  next
    case (3 tab' a)
    then have bs: "bs = [a]" by simp
    obtain p q r s where s: "sextets a 0 0 = [p, q, r, s]" by (simp add: sextets_def)
    have "takeWhile (\<lambda>c. c \<noteq> CHR ''='' \<and> valid c) (encode_loop tab bs) = map (b64_char tab) [p, q]"
      using b64_char_valid small [of _ a 0 0] by (simp add: bs s)
    with find [of _ a 0 0] octets_sextets [OF s] show ?thesis by (simp add: s bs)
  next
    case (4 tab' a b)
    then have bs: "bs = [a, b]" by simp
    obtain p q r s where s: "sextets a b 0 = [p, q, r, s]" by (simp add: sextets_def)
    have "takeWhile (\<lambda>c. c \<noteq> CHR ''='' \<and> valid c) (encode_loop tab bs) = map (b64_char tab) [p, q, r]"
      using b64_char_valid small [of _ a b 0] by (simp add: bs s)
    with find [of _ a b 0] octets_sextets [OF s] show ?thesis by (simp add: s bs)
  qed
qed

end

sublocale base64_alphabet \<subseteq> b64: codec "encode_loop tab"
    "\<lambda>s. Some (decode_loop tab (takeWhile (\<lambda>c. c \<noteq> CHR ''='' \<and> valid c) s))" "\<lambda>_. True"
  by unfold_locales (simp add: decode_encode)

interpretation std: base64_alphabet base64_chars is_base64
proof unfold_locales
  have "list_all (\<lambda>c. is_base64 c \<and> c \<noteq> CHR ''='') base64_chars"
    by (simp add: base64_chars_def is_base64_def isalnum_def isdigit_def isupper_def islower_def)
  then show "is_base64 c \<and> c \<noteq> CHR ''=''" if "c \<in> set base64_chars" for c
    using that by (simp add: list_all_iff)
qed (simp_all add: base64_chars_def)

interpretation alt: base64_alphabet base64_chars_2 is_base64_2
proof unfold_locales
  have "list_all (\<lambda>c. is_base64_2 c \<and> c \<noteq> CHR ''='') base64_chars_2"
    by (simp add: base64_chars_2_def is_base64_2_def isalnum_def isdigit_def isupper_def islower_def)
  then show "is_base64_2 c \<and> c \<noteq> CHR ''=''" if "c \<in> set base64_chars_2" for c
    using that by (simp add: list_all_iff)
qed (simp_all add: base64_chars_2_def)

section \<open>Properties\<close>

lemma xor_key_20 [simp]: "xor_key 20 = 20"
  by (simp add: xor_key_def)

lemma unxor_xor: "unxor (map (\<lambda>c. c XOR xor_key 20) (rev s) @ [20]) = Some s"
proof -
  have "(x XOR 20) XOR 20 = (x :: byte)" for x
    by (metis xor.assoc xor.right_neutral xor_self_eq)
  then show ?thesis by (simp add: unxor_def rev_map comp_def)
qed

text \<open>
  C30. Base64 round trip: for every byte sequence, both decoders return what their encoder was
  given, whatever the length of the last group.
\<close>

theorem base64_round_trip:
  "base64_decode (base64_encode bs) = bs \<and> base64_decode_2 (base64_encode_2 bs) = bs"
  using std.b64.dec_enc [of bs] alt.b64.dec_enc [of bs]
  by (simp add: base64_decode_def base64_encode_def base64_decode_2_def base64_encode_2_def)

text \<open>
  \<open>Decrypt\<close> inverts \<open>Encrypt\<close> (and \<open>Decrypt_2\<close> inverts \<open>Encrypt_2\<close>) on every byte string,
  without throwing.
\<close>

theorem encrypt_round_trip:
  "Decrypt (Encrypt s) = Some s \<and> Decrypt_2 (Encrypt_2 s) = Some s"
  using std.b64.dec_enc alt.b64.dec_enc
  by (simp add: Decrypt_def Encrypt_def Decrypt_2_def Encrypt_2_def base64_decode_def base64_encode_def
      base64_decode_2_def base64_encode_2_def unxor_xor [simplified])

lemma sar_drop: "\<not> bit x 7 \<Longrightarrow> sar n x = drop_bit n (x :: byte)"
  unfolding sar_def
  by (rule bit_word_eqI) (auto simp: bit_simps dest: bit_imp_le_length)

lemma seven_bit: "unat (x :: byte) < 128 \<Longrightarrow> \<not> bit x 7"
proof
  assume "unat x < 128" and "bit x 7"
  then have "bit (unat x) 7" by (simp add: bit_unsigned_iff)
  then have "odd (unat x div 128)" by (simp add: bit_iff_odd)
  with \<open>unat x < 128\<close> show False by simp
qed

lemma AVal_sextet: "v \<in> set (sextets a b c) \<Longrightarrow> AVal v = Some (b64_char base64_chars v)"
  using sextets_small [of v a b c] by (simp add: AVal_def b64_char_def)

lemma sextet_0: "\<not> bit a 7 \<Longrightarrow> sar 2 a = drop_bit 2 (a AND 0xfc)"
  unfolding sar_drop by (rule byte_bits_eqI) (auto simp: bit_simps dest: bit_imp_le_length)

lemma sextet_1: "\<not> bit b 7 \<Longrightarrow> sar 4 b = drop_bit 4 (b AND 0xf0)"
  unfolding sar_drop by (rule byte_bits_eqI) (auto simp: bit_simps dest: bit_imp_le_length)

lemma EncodingBase64_loop_7bit:
  "list_all (\<lambda>x. unat x < 128) bs \<Longrightarrow> EncodingBase64_loop bs = Some (encode_loop base64_chars bs)"
proof (induction bs rule: EncodingBase64_loop.induct)
  case (1 x y z bs)
  then have nb: "\<not> bit x 7" "\<not> bit y 7" by (auto dest: seven_bit)
  have "list_all (\<lambda>v. AVal v = Some (b64_char base64_chars v)) (sextets x y z)"
    using AVal_sextet [of _ x y z] by (simp add: list_all_iff)
  then show ?case
    using 1 unfolding sextets_or EncodingBase64_loop.simps encode_loop.simps sextet_0 [OF nb(1)] sextet_1 [OF nb(2)]
    by simp
next
  case 2
  then show ?case by simp
next
  case (3 x)
  then have nb: "\<not> bit x 7" by (auto dest: seven_bit)
  have "list_all (\<lambda>v. AVal v = Some (b64_char base64_chars v)) (sextets x 0 0)"
    using AVal_sextet [of _ x 0 0] by (simp add: list_all_iff)
  then show ?case
    unfolding sextets_or EncodingBase64_loop.simps encode_loop.simps sextet_0 [OF nb]
    by simp
next
  case (4 x y)
  then have nb: "\<not> bit x 7" "\<not> bit y 7" by (auto dest: seven_bit)
  have "list_all (\<lambda>v. AVal v = Some (b64_char base64_chars v)) (sextets x y 0)"
    using AVal_sextet [of _ x y 0] by (simp add: list_all_iff)
  then show ?case
    unfolding sextets_or EncodingBase64_loop.simps encode_loop.simps sextet_0 [OF nb(1)] sextet_1 [OF nb(2)]
    by simp
qed

text \<open>
  On 7-bit text the second encoder, \<open>CTcpSocket::EncodingBase64\<close>, stays inside its table and
  agrees with \<open>base64_encode\<close>, and returns the length of its output.
\<close>

theorem encoding_base64_agrees:
  assumes "list_all (\<lambda>c. of_char c < (128::nat)) (cstr s)"
  shows "EncodingBase64 s =
     Some (int (length (base64_encode (map byte_of (cstr s)))), base64_encode (map byte_of (cstr s)))"
proof -
  from assms have "list_all (\<lambda>x. unat x < 128) (map byte_of (cstr s))"
    by (simp add: list_all_iff)
  then show ?thesis
    by (simp add: EncodingBase64_def base64_encode_def EncodingBase64_loop_7bit)
qed

theorem encoding_base64_agrees_witness:
  "EncodingBase64 ''user'' = Some (8, ''dXNlcg=='')"
proof -
  have c: "cstr ''user'' = ''user''" by (simp add: cstr_def NUL_def)
  have "list_all (\<lambda>c. of_char c < (128::nat)) (cstr ''user'')" by (simp add: c)
  from encoding_base64_agrees [OF this] show ?thesis
    by (simp add: c base64_encode_def base64_chars_def sextets_def b64_char_def byte_of_def)
qed

text \<open>
  On a byte above 127 the arithmetic shift makes the table index leave the table: the encoder
  reads out of bounds (\<open>None\<close>), so a non-ASCII mail user name or password is not encoded.
\<close>

theorem encoding_base64_high_byte: "EncodingBase64 [CHR 0xC3, CHR 0xA9] = None"
  by (simp add: EncodingBase64_def cstr_def NUL_def AVal_def sar_def byte_of_def)

end
