(* ===== verification/Task.thy ===== *)
theory Task
  imports MainConfig Adapter UrlEncode Base64
begin

unbundle bit_operations_syntax

text \<open>
  The pieces that every task shares: the records of \<open>src/UserQueryStruct/UserQueryStruct.h\<close> that a
  request passes through, the helpers of \<open>src/UserQueryTask/UserQueryTask.cpp\<close> (HTTP date, domain
  of a URL, byte order) and the time and text helpers at the end of
  \<open>src/UserQueryTask/TaskMain/TaskMain.cpp\<close>. The broken-down time of \<open>localtime\<close> is a record.
\<close>

section \<open>Return codes and records\<close>

abbreviation OTHERERROR :: int where "OTHERERROR \<equiv> -1"
abbreviation LINKERROR :: int where "LINKERROR \<equiv> -2"
abbreviation PROTOERROR :: int where "PROTOERROR \<equiv> -3"

abbreviation KEY_ACCESS_KEY_ID :: string where "KEY_ACCESS_KEY_ID \<equiv> ''authuser''"
abbreviation KEY_REPOSITIRY :: string where "KEY_REPOSITIRY \<equiv> ''repo''"
abbreviation KEY_ITEM :: string where "KEY_ITEM \<equiv> ''item''"
abbreviation KEY_SIGNATURE :: string where "KEY_SIGNATURE \<equiv> ''apitoken''"
abbreviation KEY_DELIMITER :: string where "KEY_DELIMITER \<equiv> ''#''"
abbreviation KEY_SREGION :: string where "KEY_SREGION \<equiv> ''sregion''"
abbreviation KEY_startOrderID :: string where "KEY_startOrderID \<equiv> ''orderid''"
abbreviation KEY_startToken :: string where "KEY_startToken \<equiv> ''token''"
abbreviation KEY_apiGateWayAdmin :: string where "KEY_apiGateWayAdmin \<equiv> ''chenyg@asiainfo.com''"
abbreviation KEY_startOrderCount :: string where "KEY_startOrderCount \<equiv> ''order_count''"
abbreviation KEY_startOrderLimit :: string where "KEY_startOrderLimit \<equiv> ''order_limit''"
abbreviation KEY_startOrderStatus :: string where "KEY_startOrderStatus \<equiv> ''order_status''"
abbreviation KEY_startOrderExpire :: string where "KEY_startOrderExpire \<equiv> ''order_expire''"

record DATAHUB_ORDER_INFO_S =
  m_expireTime :: string
  m_subscriptionID :: string
  m_units :: string

text \<open>The fields of a local log record that the program sets.\<close>

record HIVELOCALLOG_S =
  h_strAction :: string
  h_strReqParams :: string
  h_strValue :: string
  h_strQuerytime :: string
  h_strDayId :: string
  h_strHourId :: string

record BDXREQUEST_S =
  m_strRequestParam :: string

record BDXRESPONSE_S =
  mResValue :: string
  ssUserCountKeyReq :: string
  ssUserCountKeyRes :: string
  ssUserCountKeyEmptyRes :: string
  ssUserCountKeyLimitReq :: string
  ssUserName :: string
  ssOperatorName :: string
  ssOperatorNameKeyReq :: string
  ssOperatorNameKeyEmptyRes :: string
  ssOperatorNameKeyRes :: string
  ssOperatorNameKeyLimit :: string
  queryType :: int

record BDXAPIGATEWAYCONFIF_S =
  mStrHostInfo :: string
  mStrUrlPath :: string
  mStrCname :: string
  mStrReqParams :: "string list"
  mStrApiKey :: string
  mIntIsHttps :: int
  mIntIsVerify :: int
  mIntQueryTimesLimit :: int
  mIntReqtype :: int
  mStrPostTemplate :: string

section \<open>Traffic counters\<close>

text \<open>
  \<open>USERINFO_S\<close> and \<open>UserQueryReport\<close>. A missing map entry reads as zero counters. The sum
  \<open>+=\<close> adds five of the eight counters.
\<close>

record USERINFO_S =
  m_ullReqNum :: u64
  m_ullTotalReqNum :: u64
  m_ullResNum :: u64
  m_ullResTagNum :: u64
  m_ullTotalResNum :: u64
  m_ullEmptyResNum :: u64
  m_ullResErrorNum :: u64
  m_ullTotalEmptyResNum :: u64

definition zero_userinfo :: USERINFO_S where
  "zero_userinfo = \<lparr>m_ullReqNum = 0, m_ullTotalReqNum = 0, m_ullResNum = 0, m_ullResTagNum = 0,
     m_ullTotalResNum = 0, m_ullEmptyResNum = 0, m_ullResErrorNum = 0, m_ullTotalEmptyResNum = 0\<rparr>"

type_synonym report = "USERINFO_S smap"

definition report_at :: "report \<Rightarrow> string \<Rightarrow> USERINFO_S" where
  "report_at m k = (case smap_find m k of None \<Rightarrow> zero_userinfo | Some u \<Rightarrow> u)"

definition report_bump :: "(USERINFO_S \<Rightarrow> USERINFO_S) \<Rightarrow> string \<Rightarrow> report \<Rightarrow> report" where
  "report_bump f k m = smap_put k (f (report_at m k)) m"

definition userinfo_add :: "USERINFO_S \<Rightarrow> USERINFO_S \<Rightarrow> USERINFO_S" where
  "userinfo_add a b =
     a\<lparr>m_ullReqNum := m_ullReqNum a + m_ullReqNum b, m_ullResNum := m_ullResNum a + m_ullResNum b,
       m_ullEmptyResNum := m_ullEmptyResNum a + m_ullEmptyResNum b,
       m_ullResTagNum := m_ullResTagNum a + m_ullResTagNum b,
       m_ullResErrorNum := m_ullResErrorNum a + m_ullResErrorNum b\<rparr>"

definition report_add :: "report \<Rightarrow> report \<Rightarrow> report" where
  "report_add m stReport = foldl (\<lambda>m (k, u). report_bump (\<lambda>a. userinfo_add a u) k m) m stReport"

definition report_clear :: "report \<Rightarrow> report" where
  "report_clear m = []"

section \<open>Dates\<close>

record tm =
  tm_year :: nat
  tm_mon :: nat
  tm_mday :: nat
  tm_hour :: nat
  tm_min :: nat
  tm_sec :: nat
  tm_wday :: nat

text \<open>The ranges that \<open>localtime\<close> documents, for the years 1900 to 9999.\<close>

definition tm_ok :: "tm \<Rightarrow> bool" where
  "tm_ok t \<longleftrightarrow> tm_year t < 8100 \<and> tm_mon t < 12 \<and> 1 \<le> tm_mday t \<and> tm_mday t \<le> 31 \<and>
     tm_hour t < 24 \<and> tm_min t < 60 \<and> tm_sec t \<le> 60 \<and> tm_wday t < 7"

definition g_week :: "string list" where
  "g_week = [''Sun'', ''Mon'', ''Tue'', ''Wed'', ''Thu'', ''Fri'', ''Sat'']"

definition g_month :: "string list" where
  "g_month = [''Jan'', ''Feb'', ''Mar'', ''Apr'', ''May'', ''Jun'', ''Jul'', ''Aug'', ''Sep'', ''Oct'', ''Nov'', ''Dec'']"

abbreviation CRLF :: string where "CRLF \<equiv> [CTRL_R, CTRL_N]"

definition BdxGetHttpDate :: "tm \<Rightarrow> string" where
  "BdxGetHttpDate t =
     g_week ! tm_wday t @ '', '' @ show_02d (tm_mday t) @ '' '' @ g_month ! tm_mon t @ '' '' @
     show_04d (tm_year t + 1900) @ '' '' @ show_02d (tm_hour t) @ '':'' @ show_02d (tm_min t) @ '':'' @
     show_02d (tm_sec t) @ '' GMT'' @ CRLF"

text \<open>The time helpers print into \<open>char dt[20]\<close>; \<open>None\<close> is an overrun.\<close>

definition dt20 :: "string \<Rightarrow> string option" where
  "dt20 s = (if length s < 20 then Some s else None)"

definition BdxTaskMainGetTime :: "tm \<Rightarrow> string option" where
  "BdxTaskMainGetTime t =
     dt20 (show_4d (tm_year t + 1900) @ show_02d (tm_mon t + 1) @ show_02d (tm_mday t) @ show_02d (tm_hour t))"

definition BdxTaskMainGetMinute :: "tm \<Rightarrow> string option" where
  "BdxTaskMainGetMinute t =
     dt20 (show_4d (tm_year t + 1900) @ show_02d (tm_mon t + 1) @ show_02d (tm_mday t) @ show_02d (tm_hour t) @
       show_02d (tm_min t))"

definition BdxTaskMainGetFullTime :: "tm \<Rightarrow> string option" where
  "BdxTaskMainGetFullTime t =
     dt20 (show_4d (tm_year t + 1900) @ show_02d (tm_mon t + 1) @ show_02d (tm_mday t) @ show_02d (tm_hour t) @
       show_02d (tm_min t) @ show_02d (tm_sec t))"

text \<open>The argument is the broken-down time eight hours earlier.\<close>

definition BdxTaskMainGetUCTime :: "tm \<Rightarrow> string option" where
  "BdxTaskMainGetUCTime t =
     dt20 (show_4d (tm_year t + 1900) @ ''-'' @ show_02d (tm_mon t + 1) @ ''-'' @ show_02d (tm_mday t) @ ''T'' @
       show_02d (tm_hour t) @ '':'' @ show_02d (tm_min t) @ '':'' @ show_02d (tm_sec t) @ ''Z'')"

definition BdxTaskMainGetDate :: "tm \<Rightarrow> string option" where
  "BdxTaskMainGetDate t =
     dt20 (show_4d (tm_year t + 1900) @ show_02d (tm_mon t + 1) @ show_02d (tm_mday t))"

text \<open>The argument is the broken-down time 61 days earlier.\<close>

definition BdxTaskMainGetLastTwoMonth :: "tm \<Rightarrow> string option" where
  "BdxTaskMainGetLastTwoMonth t = dt20 (show_4d (tm_year t + 1900) @ show_02d (tm_mon t + 1))"

section \<open>Domains, byte order, substitution, signatures\<close>

definition BdxSuffix :: "string list" where
  "BdxSuffix = [''asia'', ''biz'', ''cc'', ''cn'', ''co'', ''com'', ''edu'', ''gov'', ''hk'', ''info'', ''me'',
     ''mobi'', ''name'', ''net'', ''org'', ''so'', ''tel'', ''tv'', ''www'']"

text \<open>The labels that end with a dot, and the text behind the last dot, up to a slash.\<close>

fun url_labels :: "string \<Rightarrow> string \<Rightarrow> string list \<times> string" where
  "url_labels label [] = ([], label)"
| "url_labels label (c # cs) =
     (if c = CHR ''.'' then (case url_labels [] cs of (ls, l) \<Rightarrow> (label # ls, l))
      else if c = CHR ''/'' then ([], label)
      else url_labels (label @ [c]) cs)"

fun join_dots :: "string list \<Rightarrow> string" where
  "join_dots [] = []"
| "join_dots [s] = s"
| "join_dots (s # ss) = s @ ''.'' @ join_dots ss"

definition BdxGetUrlDomain :: "string \<Rightarrow> string \<Rightarrow> string" where
  "BdxGetUrlDomain pchUrl strMediaDomain =
     (let pszUrl = cstr pchUrl;
          pszUrl = (if starts_with ''http://'' pszUrl then drop 7 pszUrl else pszUrl);
          pszUrl = (if starts_with ''https://'' pszUrl then drop 8 pszUrl else pszUrl);
          (labels, tl) = url_labels [] pszUrl;
          vecDomain = filter (\<lambda>l. l \<notin> set BdxSuffix) labels;
          vecSuffix = filter (\<lambda>l. l \<in> set BdxSuffix \<and> l \<noteq> ''www'') labels @ (if tl \<noteq> [] then [tl] else [])
      in strMediaDomain @ concat (map (\<lambda>l. l @ ''.'') vecDomain) @ join_dots vecSuffix)"

text \<open>\<open>htonl\<close> on a little-endian machine.\<close>

definition htonl :: "u32 \<Rightarrow> u32" where
  "htonl w = push_bit 24 (w AND 0xff) OR push_bit 8 (w AND 0xff00) OR
     (drop_bit 8 w AND 0xff00) OR drop_bit 24 w"

definition BdxHtonll :: "u64 \<Rightarrow> u64" where
  "BdxHtonll ullNum =
     (let ullTmp = ucast (htonl (ucast (drop_bit 32 ullNum))) :: u64;
          ullAll = ucast (htonl (ucast (0xffffffff AND ullNum))) :: u64
      in push_bit 32 ullAll OR ullTmp)"

text \<open>\<open>BdxTaskMainReplace_All\<close> has the same body as \<open>CConf::replace_all\<close>.\<close>

definition BdxTaskMainReplace_All :: "string \<Rightarrow> string \<Rightarrow> string \<Rightarrow> string option" where
  "BdxTaskMainReplace_All s old_value new_value = replace_all s old_value new_value"

definition BdxTaskMainReplace_FirstOnece :: "string \<Rightarrow> string \<Rightarrow> string \<Rightarrow> string" where
  "BdxTaskMainReplace_FirstOnece s old_value new_value =
     (case str_find s old_value 0 of
        Some pos \<Rightarrow> str_replace s pos (length old_value) new_value
      | None \<Rightarrow> s)"

text \<open>
  The MD5 of parameters and key in hexadecimal. \<open>(b << 4) >> 4\<close> is computed in \<open>int\<close>, and
  \<open>to_hex\<close> keeps its low four bits.
\<close>

definition BdxGetParamSign :: "CMd5 \<Rightarrow> string \<Rightarrow> string \<Rightarrow> string" where
  "BdxGetParamSign md5 strParam strSign =
     concat (map (\<lambda>b. [to_hex (drop_bit 4 b), to_hex b])
       (Md5Final (Md5Update (Md5Init md5) (map byte_of (strParam @ strSign)))))"

text \<open>A nonce from the values of \<open>rand()\<close>, given as a list.\<close>

definition CHAR_ARRAY :: string where
  "CHAR_ARRAY = ''0123456789abcdefghijklmnopqrstuvwxyzABCDEFGHIJKLMNOPQRSTUVWXYZ''"

definition BdxGenNonce :: "nat list \<Rightarrow> nat \<Rightarrow> string" where
  "BdxGenNonce rands n = map (\<lambda>r. CHAR_ARRAY ! (r mod length CHAR_ARRAY)) (take n rands)"

text \<open>\<open>SHA1_Encode\<close>, the only caller of OpenSSL's SHA-1, is a parameter.\<close>

definition GenPasswordDigest :: "(string \<Rightarrow> byte list) \<Rightarrow> string \<Rightarrow> string \<Rightarrow> string \<Rightarrow> string" where
  "GenPasswordDigest sha1 utcTime nonce appSecret =
     base64_encode (take 20 (sha1 (cstr (nonce @ utcTime @ appSecret))))"

section \<open>Lemmas on dates\<close>

lemma length_show_nat: "n < 10 ^ k \<Longrightarrow> 0 < k \<Longrightarrow> length (show_nat n) \<le> k"
proof (induction k arbitrary: n)
  case (Suc k)
  show ?case
  proof (cases "n < 10")
    case True
    then show ?thesis by (subst show_nat.simps) simp
  next
    case False
    then have "0 < k" using Suc.prems by (cases k) auto
    moreover have "n div 10 < 10 ^ k" using Suc.prems by (simp add: div_less_iff_less_mult mult.commute)
    ultimately show ?thesis using Suc.IH False by (subst show_nat.simps) simp
  qed
qed simp

lemma length_pad_left: "length s \<le> k \<Longrightarrow> length (pad_left c k s) = k"
  by (simp add: pad_left_def)

lemma length_show_02d: "n < 100 \<Longrightarrow> length (show_02d n) = 2"
  using length_show_nat [of n 2] by (simp add: show_02d_def length_pad_left)

lemma length_show_4d: "n < 10000 \<Longrightarrow> length (show_4d n) = 4" "n < 10000 \<Longrightarrow> length (show_04d n) = 4"
  using length_show_nat [of n 4] by (simp_all add: show_4d_def show_04d_def length_pad_left)

lemma tm_lengths:
  assumes "tm_ok t"
  shows "length (show_4d (tm_year t + 1900)) = 4" "length (show_02d (tm_mon t + 1)) = 2"
    "length (show_02d (tm_mday t)) = 2" "length (show_02d (tm_hour t)) = 2"
    "length (show_02d (tm_min t)) = 2" "length (show_02d (tm_sec t)) = 2"
  using assms by (simp_all add: tm_ok_def length_show_4d length_show_02d)

section \<open>Lemmas on reports\<close>

lemma userinfo_add_zero [simp]: "userinfo_add u zero_userinfo = u"
  by (simp add: userinfo_add_def zero_userinfo_def)

lemma report_at_put [simp]: "report_at (smap_put k u m) k' = (if k' = k then u else report_at m k')"
  by (simp add: report_at_def)

lemma report_at_bump [simp]: "report_at (report_bump f k m) k' = (if k' = k then f (report_at m k) else report_at m k')"
  by (simp add: report_bump_def)

lemma report_bump_ok [simp]: "smap_ok m \<Longrightarrow> smap_ok (report_bump f k m)"
  by (simp add: report_bump_def)

lemma report_at_Cons: "report_at ((k, u) # m) k' = (if k' = k then u else report_at m k')"
  by (simp add: report_at_def)

lemma report_at_fresh: "k \<notin> fst ` set m \<Longrightarrow> report_at m k = zero_userinfo"
  by (auto simp: report_at_def split: option.splits dest!: map_of_SomeD intro: rev_image_eqI)

lemma report_add_at:
  "smap_ok r \<Longrightarrow> report_at (report_add m r) k = userinfo_add (report_at m k) (report_at r k)"
proof (induction r arbitrary: m)
  case Nil
  then show ?case by (simp add: report_add_def report_at_def)
next
  case (Cons ku r)
  obtain k' u where ku: "ku = (k', u)" by (cases ku)
  have ok: "smap_ok r" and fresh: "k' \<notin> fst ` set r" using Cons.prems ku by (auto simp: smap_ok_Cons)
  have "report_at (report_add m (ku # r)) k =
      userinfo_add (report_at (report_bump (\<lambda>a. userinfo_add a u) k' m) k) (report_at r k)"
    using Cons.IH [OF ok] ku by (simp add: report_add_def)
  then show ?case using fresh ku by (auto simp: report_at_Cons report_at_fresh)
qed

lemma report_add_ok: "smap_ok m \<Longrightarrow> smap_ok (report_add m r)"
  unfolding report_add_def by (induction r arbitrary: m) auto

lemma userinfo_add_assoc: "userinfo_add (userinfo_add a b) c = userinfo_add a (userinfo_add b c)"
  by (simp add: userinfo_add_def add.assoc)

section \<open>Lemmas on byte order and text\<close>

lemma bit_htonl:
  "bit (htonl w) n = (if n < 8 then bit w (n + 24) else if n < 16 then bit w (n + 8)
     else if n < 24 then bit w (n - 8) else n < 32 \<and> bit w (n - 24))"
proof -
  have m: "(0xff :: u32) = mask 8" "(0xff00 :: u32) = push_bit 8 (mask 8)"
    by (simp_all add: mask_eq_exp_minus_1)
  have z: "\<not> bit w k" if "32 \<le> k" for k using that bit_imp_le_length [of w k] by auto
  consider "n < 8" | "8 \<le> n" "n < 16" | "16 \<le> n" "n < 24" | "24 \<le> n" "n < 32" | "32 \<le> n" by linarith
  then show ?thesis
    by cases (auto simp: htonl_def m bit_simps z add.commute)
qed

lemma htonl_htonl: "htonl (htonl w) = w"
  by (rule bit_word_eqI) (auto simp: bit_htonl)

lemma BdxHtonll_involution: "BdxHtonll (BdxHtonll x) = x"
proof -
  have m: "(0xffffffff :: u64) = mask 32" by (simp add: mask_eq_exp_minus_1)
  have lo: "ucast (0xffffffff AND BdxHtonll x) = htonl (ucast (drop_bit 32 x))"
    by (rule bit_word_eqI) (simp add: BdxHtonll_def m bit_simps)
  have hi: "ucast (drop_bit 32 (BdxHtonll x)) = htonl (ucast (0xffffffff AND x))"
    by (rule bit_word_eqI) (auto simp: BdxHtonll_def bit_simps dest: bit_imp_le_length)
  have "BdxHtonll (BdxHtonll x) = push_bit 32 (ucast (ucast (drop_bit 32 x) :: u32)) OR ucast (ucast (0xffffffff AND x) :: u32)"
    by (subst BdxHtonll_def) (simp only: lo hi htonl_htonl Let_def)
  also have "\<dots> = x"
    by (rule bit_word_eqI) (auto simp: m bit_simps)
  finally show ?thesis .
qed

text \<open>The first occurrence lies behind a prefix that does not contain the pattern's first character.\<close>

lemma replace_first_at:
  "old \<noteq> [] \<Longrightarrow> hd old \<notin> set a \<Longrightarrow> BdxTaskMainReplace_FirstOnece (a @ old @ b) old new = a @ new @ b"
  by (simp add: BdxTaskMainReplace_FirstOnece_def str_find_0 find_sub_at str_replace_def)

definition host_label :: "string \<Rightarrow> bool" where
  "host_label l \<longleftrightarrow> CHR ''.'' \<notin> set l \<and> CHR ''/'' \<notin> set l \<and> NUL \<notin> set l"

lemma url_labels_label:
  "CHR ''.'' \<notin> set l \<Longrightarrow> CHR ''/'' \<notin> set l \<Longrightarrow> url_labels acc (l @ s) = url_labels (acc @ l) s"
  by (induction l arbitrary: acc) auto

lemma url_labels_host:
  "list_all host_label (l # ls) \<Longrightarrow> t = [] \<or> hd t = CHR ''/'' \<Longrightarrow>
   url_labels [] (concat (map (\<lambda>l. l @ ''.'') ls) @ l @ t) = (ls, l)"
proof (induction ls)
  case Nil
  then have "url_labels [] (l @ t) = url_labels l t" by (simp add: url_labels_label host_label_def)
  with Nil show ?case by (cases t) auto
next
  case (Cons k ls)
  then show ?case by (simp add: url_labels_label host_label_def)
qed

section \<open>Properties\<close>

text \<open>
  The time stamps of one moment agree: the hour key, the day and the hour of a log record are the
  leading 10, the leading 8 and the two digits at position 8 of the full time, whose 14 characters
  fit their buffer.
\<close>

theorem time_stamps_agree:
  assumes "tm_ok t"
  shows "\<exists>f. BdxTaskMainGetFullTime t = Some f \<and> length f = 14 \<and>
           BdxTaskMainGetTime t = Some (take 10 f) \<and> BdxTaskMainGetDate t = Some (take 8 f) \<and>
           BdxTaskMainGetMinute t = Some (take 12 f) \<and> BdxTaskMainGetLastTwoMonth t = Some (take 6 f) \<and>
           str_substr f 8 2 = Some (show_02d (tm_hour t))"
  using tm_lengths [OF assms]
  by (simp add: BdxTaskMainGetFullTime_def BdxTaskMainGetTime_def BdxTaskMainGetDate_def
      BdxTaskMainGetMinute_def BdxTaskMainGetLastTwoMonth_def dt20_def str_substr_def)

definition sample_tm :: tm where
  "sample_tm = \<lparr>tm_year = 116, tm_mon = 6, tm_mday = 5, tm_hour = 9, tm_min = 30, tm_sec = 0, tm_wday = 2\<rparr>"

theorem time_stamps_agree_witness:
  "BdxTaskMainGetTime sample_tm = Some ''2016070509'' \<and> tm_ok sample_tm \<and> BdxTaskMainGetFullTime sample_tm \<noteq> None"
proof -
  have ok: "tm_ok sample_tm" by (simp add: tm_ok_def sample_tm_def)
  have "BdxTaskMainGetTime sample_tm = Some ''2016070509''" by code_simp
  with time_stamps_agree [OF ok] ok show ?thesis by auto
qed

text \<open>
  The UTC time stamp \<open>YYYY-MM-DDThh:mm:ssZ\<close> has 20 characters and never fits \<open>char dt[20]\<close>
  with its terminator: every call writes one byte behind the buffer.
\<close>

theorem utc_time_overruns: "tm_ok t \<Longrightarrow> BdxTaskMainGetUCTime t = None"
  using tm_lengths [of t] by (simp add: BdxTaskMainGetUCTime_def dt20_def)

theorem utc_time_overruns_witness: "tm_ok sample_tm \<and> BdxTaskMainGetUCTime sample_tm = None"
proof -
  have "tm_ok sample_tm" by (simp add: tm_ok_def sample_tm_def)
  with utc_time_overruns show ?thesis by simp
qed

text \<open>
  Adding reports adds, for every user, the five traffic counters modulo \<open>2 ^ 64\<close> and leaves the
  three totals of the receiver as they are.
\<close>

theorem report_add_counters:
  assumes "smap_ok r"
  shows "m_ullReqNum (report_at (report_add m r) k) = m_ullReqNum (report_at m k) + m_ullReqNum (report_at r k) \<and>
         m_ullResNum (report_at (report_add m r) k) = m_ullResNum (report_at m k) + m_ullResNum (report_at r k) \<and>
         m_ullEmptyResNum (report_at (report_add m r) k)
           = m_ullEmptyResNum (report_at m k) + m_ullEmptyResNum (report_at r k) \<and>
         m_ullTotalReqNum (report_at (report_add m r) k) = m_ullTotalReqNum (report_at m k) \<and>
         (smap_ok m \<longrightarrow> smap_ok (report_add m r))"
  using report_add_at [OF assms] report_add_ok by (simp add: userinfo_add_def)

theorem report_add_counters_witness:
  "m_ullReqNum (report_at (report_add [(''u'', zero_userinfo\<lparr>m_ullReqNum := 2\<rparr>)]
      [(''t'', zero_userinfo), (''u'', zero_userinfo\<lparr>m_ullReqNum := 3\<rparr>)]) ''u'') = 5"
proof -
  let ?m = "[(''u'', zero_userinfo\<lparr>m_ullReqNum := 2\<rparr>)]"
  let ?r = "[(''t'', zero_userinfo), (''u'', zero_userinfo\<lparr>m_ullReqNum := 3\<rparr>)]"
  have "smap_ok ?r" by (simp add: smap_ok_def)
  from report_add_counters [OF this, of ?m "''u''"] show ?thesis
    by (simp add: report_at_def)
qed

text \<open>Converting a 64-bit number to network byte order twice gives it back.\<close>

theorem htonll_involution: "BdxHtonll (BdxHtonll ullNum) = ullNum"
  by (rule BdxHtonll_involution)

text \<open>
  The signature of a request is the hexadecimal MD5 of the parameters followed by the key:
  32 hexadecimal digits that determine the 16 bytes of the digest.
\<close>

theorem param_sign_is_md5:
  assumes "length (m_ucIn md5) = 64" and "length strParam + length strSign < 2 ^ 32"
  shows "BdxGetParamSign md5 strParam strSign =
           concat (map (\<lambda>b. [to_hex (drop_bit 4 b), to_hex b]) (md5_ref (map byte_of (strParam @ strSign))))"
proof -
  have "length (map byte_of (strParam @ strSign)) < 2 ^ 32" using assms(2) by simp
  from Md5_one_shot [OF assms(1) this] show ?thesis by (simp only: BdxGetParamSign_def)
qed

theorem param_sign_is_md5_witness: "BdxGetParamSign sample_md5 ''a'' [] = ''0CC175B9C0F1B6A831C399E269772661''"
proof -
  have b: "map byte_of (''a'' @ []) = [0x61]" by (simp add: byte_of_def)
  have "length (m_ucIn sample_md5) = 64" by (simp add: sample_md5_def)
  from param_sign_is_md5 [OF this, of "''a''" "[]"] show ?thesis
    unfolding b md5_ref_a by (simp add: to_hex_def)
qed

text \<open>
  The domain of a URL: the labels of the host that are not generic suffixes, each with its dot,
  then the generic suffixes without \<open>www\<close>, then the last label; path and scheme are dropped.
\<close>

theorem url_domain_of_host:
  assumes "list_all host_label (tld # labels)" and "tld \<noteq> []" and "NUL \<notin> set path"
    and "path = [] \<or> hd path = CHR ''/''"
    and "\<not> starts_with ''https://'' (concat (map (\<lambda>l. l @ ''.'') labels) @ tld @ path)"
  shows "BdxGetUrlDomain (''http://'' @ concat (map (\<lambda>l. l @ ''.'') labels) @ tld @ path) strMediaDomain =
     strMediaDomain @ concat (map (\<lambda>l. l @ ''.'') (filter (\<lambda>l. l \<notin> set BdxSuffix) labels)) @
     join_dots (filter (\<lambda>l. l \<in> set BdxSuffix \<and> l \<noteq> ''www'') labels @ [tld])"
proof -
  let ?host = "concat (map (\<lambda>l. l @ ''.'') labels) @ tld @ path"
  have "NUL \<notin> set (''http://'' @ ?host)"
    using assms(1,3) by (auto simp: list_all_iff host_label_def NUL_def)
  then have "cstr (''http://'' @ ?host) = ''http://'' @ ?host" by (rule cstr_id)
  moreover have "starts_with ''http://'' (''http://'' @ ?host)" by (rule starts_with_append)
  moreover have "drop 7 (''http://'' @ ?host) = ?host" by simp
  moreover have "url_labels [] ?host = (labels, tld)" using assms(1,4) by (rule url_labels_host)
  ultimately show ?thesis
    using assms(2,5) unfolding BdxGetUrlDomain_def Let_def by (simp only: if_True if_False case_prod_conv simp_thms)
qed

theorem url_domain_of_host_witness:
  "BdxGetUrlDomain ''http://www.hub.dataos.com.cn/api/valid'' [] = ''hub.dataos.com.cn''"
proof -
  have "BdxGetUrlDomain (''http://'' @ concat (map (\<lambda>l. l @ ''.'') [''www'', ''hub'', ''dataos'', ''com'']) @ ''cn'' @ ''/api/valid'') []
      = [] @ concat (map (\<lambda>l. l @ ''.'') (filter (\<lambda>l. l \<notin> set BdxSuffix) [''www'', ''hub'', ''dataos'', ''com''])) @
        join_dots (filter (\<lambda>l. l \<in> set BdxSuffix \<and> l \<noteq> ''www'') [''www'', ''hub'', ''dataos'', ''com''] @ [''cn''])"
    by (rule url_domain_of_host) (simp_all add: host_label_def NUL_def starts_with_def)
  then show ?thesis by (simp add: BdxSuffix_def)
qed

end
