(* ===== verification/TcpSocket.thy ===== *)
theory TcpSocket
  imports Base64
begin

text \<open>
  \<open>src/CommonTools/Socket/TcpSocket.cpp\<close>: the socket object of the gateway, its plain and its
  TLS side, and the SMTP dialogue. The operating system and OpenSSL are the parameter \<open>'w sys\<close>:
  each call takes the world and returns its result with the world after it. A descriptor, a
  result and an error code are C \<open>int\<close>s, \<open>-1\<close> meaning failure where the call says so.
\<close>

section \<open>The calls the object makes\<close>

datatype sockopt = SO_LINGER | SO_SNDTIMEO nat nat | SO_RCVTIMEO nat nat

text \<open>What \<open>recv\<close> reports: bytes (none when the peer has closed), or an error, \<open>EAGAIN\<close> or another.\<close>

datatype received = Received string | Again | Broken

datatype ssl_error = SSL_ERROR_NONE | SSL_ERROR_ZERO_RETURN | SSL_ERROR_WANT_READ
  | SSL_ERROR_WANT_WRITE | SSL_ERROR_OTHER

record 'w sys =
  sys_socket :: "'w \<Rightarrow> int \<times> 'w"
  sys_close :: "int \<Rightarrow> 'w \<Rightarrow> 'w"
  sys_setsockopt :: "int \<Rightarrow> sockopt \<Rightarrow> 'w \<Rightarrow> int \<times> 'w"
  sys_bind :: "int \<Rightarrow> string option \<Rightarrow> u16 \<Rightarrow> 'w \<Rightarrow> int \<times> 'w"
  sys_listen :: "int \<Rightarrow> int \<Rightarrow> 'w \<Rightarrow> int \<times> 'w"
  sys_accept :: "int \<Rightarrow> 'w \<Rightarrow> int \<times> 'w"
  sys_select :: "int \<Rightarrow> u32 \<Rightarrow> 'w \<Rightarrow> int \<times> bool \<times> 'w"
  sys_connect :: "int \<Rightarrow> string \<Rightarrow> u16 \<Rightarrow> 'w \<Rightarrow> int \<times> 'w"
  sys_recv :: "int \<Rightarrow> nat \<Rightarrow> 'w \<Rightarrow> received \<times> 'w"
  sys_send :: "int \<Rightarrow> string \<Rightarrow> 'w \<Rightarrow> int \<times> 'w"
  sys_getpeername :: "int \<Rightarrow> 'w \<Rightarrow> (u32 \<times> u16) option"
  sys_getsockname :: "int \<Rightarrow> 'w \<Rightarrow> (u32 \<times> u16) option"
  sys_setfl_nonblock :: "int \<Rightarrow> 'w \<Rightarrow> int \<times> 'w"
  SSL_library_init :: "'w \<Rightarrow> 'w"
  SSL_CTX_new :: "'w \<Rightarrow> nat option \<times> 'w"
  SSL_new :: "nat option \<Rightarrow> 'w \<Rightarrow> nat option \<times> 'w"
  SSL_set_fd :: "nat option \<Rightarrow> int \<Rightarrow> 'w \<Rightarrow> int \<times> 'w"
  SSL_connect :: "nat option \<Rightarrow> 'w \<Rightarrow> int \<times> 'w"
  SSL_read :: "nat option \<Rightarrow> nat \<Rightarrow> 'w \<Rightarrow> int \<times> string \<times> 'w"
  SSL_write :: "nat option \<Rightarrow> string \<Rightarrow> 'w \<Rightarrow> int \<times> ssl_error \<times> 'w"
  SSL_shutdown :: "nat option \<Rightarrow> 'w \<Rightarrow> 'w"
  SSL_free :: "nat option \<Rightarrow> 'w \<Rightarrow> 'w"
  SSL_CTX_free :: "nat option \<Rightarrow> 'w \<Rightarrow> 'w"

section \<open>The object\<close>

record CTcpSocket =
  m_iSockfd :: int
  m_in_portPort :: u16
  m_strIp :: string
  m_uiTimeout :: u32
  m_bConnect :: bool
  m_ssl :: "nat option"
  m_ssl_ctx :: "nat option"

type_synonym 'w sockstate = "'w \<times> CTcpSocket"

text \<open>The socket of an accepted client, and a new socket; \<open>None\<close> is the exception \<open>runtime_error\<close>.\<close>

definition new_accepted :: "int \<Rightarrow> u32 \<Rightarrow> CTcpSocket" where
  "new_accepted iSockfd uiTimeout =
     \<lparr>m_iSockfd = iSockfd, m_in_portPort = 0, m_strIp = [], m_uiTimeout = uiTimeout, m_bConnect = True,
      m_ssl = None, m_ssl_ctx = None\<rparr>"

definition new_CTcpSocket :: "'w sys \<Rightarrow> u16 \<Rightarrow> string \<Rightarrow> u32 \<Rightarrow> 'w \<Rightarrow> 'w sockstate option" where
  "new_CTcpSocket S in_portPort strIp uiTimeout w =
     (case sys_socket S w of
        (fd, w) \<Rightarrow>
          if fd = -1 then None
          else Some (w, \<lparr>m_iSockfd = fd, m_in_portPort = in_portPort, m_strIp = strIp,
                         m_uiTimeout = uiTimeout, m_bConnect = False, m_ssl = None, m_ssl_ctx = None\<rparr>))"

definition delete_CTcpSocket :: "'w sys \<Rightarrow> 'w sockstate \<Rightarrow> 'w" where
  "delete_CTcpSocket S = (\<lambda>(w, s).
     (let (_, w) = sys_setsockopt S (m_iSockfd s) SO_LINGER w
      in if m_iSockfd s \<noteq> -1 then sys_close S (m_iSockfd s) w else w))"

text \<open>\<open>inet_ntoa\<close> of an address kept in network byte order.\<close>

definition inet_ntoa :: "u32 \<Rightarrow> string" where
  "inet_ntoa a =
     show_nat (unat a mod 256) @ ''.'' @ show_nat (unat a div 256 mod 256) @ ''.'' @
     show_nat (unat a div 65536 mod 256) @ ''.'' @ show_nat (unat a div 16777216)"

definition TcpGetSip :: "'w sys \<Rightarrow> 'w sockstate \<Rightarrow> string" where
  "TcpGetSip S = (\<lambda>(w, s).
     if m_iSockfd s > 0
     then (case sys_getpeername S (m_iSockfd s) w of Some (a, _) \<Rightarrow> inet_ntoa a | None \<Rightarrow> [])
     else [])"

definition TcpGetIntIp :: "'w sys \<Rightarrow> 'w sockstate \<Rightarrow> u32" where
  "TcpGetIntIp S = (\<lambda>(w, s).
     if m_iSockfd s > 0
     then (case sys_getpeername S (m_iSockfd s) w of Some (a, _) \<Rightarrow> a | None \<Rightarrow> 0)
     else 0)"

definition TcpGetServerIp :: "'w sys \<Rightarrow> 'w sockstate \<Rightarrow> string" where
  "TcpGetServerIp S = (\<lambda>(w, s).
     if m_iSockfd s > 0
     then (case sys_getsockname S (m_iSockfd s) w of Some (a, _) \<Rightarrow> inet_ntoa a | None \<Rightarrow> [])
     else [])"

definition ntohs :: "u16 \<Rightarrow> u16" where
  "ntohs p = word_of_nat (unat p mod 256 * 256 + unat p div 256)"

definition TcpGetPort :: "'w sys \<Rightarrow> 'w sockstate \<Rightarrow> u16" where
  "TcpGetPort S = (\<lambda>(w, s).
     if m_iSockfd s > 0
     then (case sys_getpeername S (m_iSockfd s) w of Some (_, p) \<Rightarrow> ntohs p | None \<Rightarrow> 0)
     else 0)"

definition TcpGetSockfd :: "CTcpSocket \<Rightarrow> int" where
  "TcpGetSockfd s = m_iSockfd s"

definition TcpGetTimeOut :: "CTcpSocket \<Rightarrow> u32" where
  "TcpGetTimeOut s = m_uiTimeout s"

definition TcpIsConnect :: "CTcpSocket \<Rightarrow> bool" where
  "TcpIsConnect s = m_bConnect s"

definition TcpSetIp :: "string \<Rightarrow> CTcpSocket \<Rightarrow> CTcpSocket" where
  "TcpSetIp strIp s = s\<lparr>m_strIp := strIp\<rparr>"

definition TcpSetPort :: "u16 \<Rightarrow> CTcpSocket \<Rightarrow> CTcpSocket" where
  "TcpSetPort in_portPort s = s\<lparr>m_in_portPort := in_portPort\<rparr>"

definition TcpSetTimeout :: "u32 \<Rightarrow> CTcpSocket \<Rightarrow> CTcpSocket" where
  "TcpSetTimeout uiTimeout s = s\<lparr>m_uiTimeout := uiTimeout\<rparr>"

section \<open>Server side\<close>

text \<open>\<open>None\<close> as the address is \<open>INADDR_ANY\<close>.\<close>

definition TcpBind :: "'w sys \<Rightarrow> u16 \<Rightarrow> string \<Rightarrow> 'w sockstate \<Rightarrow> bool \<times> 'w sockstate" where
  "TcpBind S in_portPort strIp = (\<lambda>(w, s).
     let strTmpIp = (if strIp = [] then m_strIp s else strIp);
         in_portTmpPort = (if in_portPort = 0 then m_in_portPort s else in_portPort);
         (r, w) = sys_bind S (m_iSockfd s) (if strTmpIp = [] then None else Some strTmpIp) in_portTmpPort w
     in (r \<noteq> -1, w, s))"

definition TcpListen :: "'w sys \<Rightarrow> int \<Rightarrow> 'w sockstate \<Rightarrow> bool \<times> 'w sockstate" where
  "TcpListen S iReqNum = (\<lambda>(w, s).
     let (r, w) = sys_listen S (m_iSockfd s) iReqNum w in (\<not> r < 0, w, s))"

definition TcpAccept :: "'w sys \<Rightarrow> 'w sockstate \<Rightarrow> CTcpSocket option \<times> 'w sockstate" where
  "TcpAccept S = (\<lambda>(w, s).
     if m_iSockfd s < 0 then (None, w, s)
     else let (iclientfd, w) = sys_accept S (m_iSockfd s) w
          in if iclientfd < 0 then (None, w, s)
             else (Some (new_accepted iclientfd (m_uiTimeout s)), w, s))"

definition TcpTimeoutAccept :: "'w sys \<Rightarrow> 'w sockstate \<Rightarrow> int \<times> CTcpSocket option \<times> 'w sockstate" where
  "TcpTimeoutAccept S = (\<lambda>(w, s).
     let (n, isset, w) = sys_select S (m_iSockfd s) (m_uiTimeout s) w
     in if n = -1 then (-1, None, w, s)
        else if n = 0 then (0, None, w, s)
        else if isset then
          (let (iClientfd, w) = sys_accept S (m_iSockfd s) w
           in if iClientfd = -1 then (-1, None, w, s)
              else (1, Some (new_accepted iClientfd (m_uiTimeout s)), w, s))
        else (-1, None, w, s))"

definition TcpSetNoblock :: "'w sys \<Rightarrow> 'w sockstate \<Rightarrow> bool \<times> 'w sockstate" where
  "TcpSetNoblock S = (\<lambda>(w, s).
     let (r, w) = sys_setfl_nonblock S (m_iSockfd s) w in (r \<noteq> -1, w, s))"

section \<open>Connecting and closing\<close>

text \<open>The parameters of \<open>TcpConnect\<close> are not used: it connects to the address of the object.\<close>

definition TcpConnect :: "'w sys \<Rightarrow> 'w sockstate \<Rightarrow> int \<times> 'w sockstate" where
  "TcpConnect S = (\<lambda>(w, s).
     if m_iSockfd s = -1 then (-1, w, s)
     else let (r, w) = sys_setsockopt S (m_iSockfd s) (SO_SNDTIMEO 10 (unat (m_uiTimeout s))) w
          in if r = -1 then (-1, w, s)
             else let (r, w) = sys_setsockopt S (m_iSockfd s) (SO_RCVTIMEO 10 (unat (m_uiTimeout s))) w
                  in if r = -1 then (-1, w, s)
                     else let (r, w) = sys_connect S (m_iSockfd s) (m_strIp s) (m_in_portPort s) w
                          in if r < 0 then (-1, w, s) else (0, w, s\<lparr>m_bConnect := True\<rparr>))"

definition TcpReconnect :: "'w sys \<Rightarrow> 'w sockstate \<Rightarrow> int \<times> 'w sockstate" where
  "TcpReconnect S = (\<lambda>(w, s).
     if m_bConnect s then
       (let w = sys_close S (m_iSockfd s) w;
            (fd, w) = sys_socket S w;
            s = s\<lparr>m_bConnect := False, m_iSockfd := fd\<rparr>
        in if fd < 0 then (-1, w, s) else TcpConnect S (w, s))
     else TcpConnect S (w, s))"

definition TcpClose :: "'w sys \<Rightarrow> 'w sockstate \<Rightarrow> 'w sockstate" where
  "TcpClose S = (\<lambda>(w, s).
     let (_, w) = sys_setsockopt S (m_iSockfd s) SO_LINGER w
     in if m_bConnect s then
          (if m_iSockfd s \<noteq> -1 then (sys_close S (m_iSockfd s) w, s\<lparr>m_iSockfd := -1, m_bConnect := False\<rparr>)
           else (w, s\<lparr>m_bConnect := False\<rparr>))
        else (w, s))"

definition TcpCloseFinal :: "'w sys \<Rightarrow> 'w sockstate \<Rightarrow> 'w sockstate" where
  "TcpCloseFinal S = (\<lambda>(w, s).
     let (_, w) = sys_setsockopt S (m_iSockfd s) SO_LINGER w
     in if m_iSockfd s \<noteq> -1 then (sys_close S (m_iSockfd s) w, s\<lparr>m_iSockfd := -1, m_bConnect := False\<rparr>)
        else (w, s\<lparr>m_bConnect := False\<rparr>))"

definition TcpNewSocket :: "'w sys \<Rightarrow> 'w sockstate \<Rightarrow> bool \<times> 'w sockstate" where
  "TcpNewSocket S = (\<lambda>(w, s).
     let (w, s) = (if m_bConnect s then (sys_close S (m_iSockfd s) w, s\<lparr>m_bConnect := False\<rparr>) else (w, s));
         (fd, w) = sys_socket S w
     in (fd \<noteq> -1, w, s\<lparr>m_iSockfd := fd\<rparr>))"

section \<open>Reading\<close>

text \<open>
  A read returns the code of the C++ method and the bytes it stored at the start of the buffer:
  a length, \<open>0\<close> when the peer has closed, \<open>-1\<close> for an error, \<open>-2\<close> for a time-out. \<open>TcpRead\<close> waits
  32 seconds, \<open>TcpRead2\<close> three; they differ in nothing else that the program can see.
\<close>

definition read_timed :: "nat \<Rightarrow> 'w sys \<Rightarrow> nat \<Rightarrow> 'w sockstate \<Rightarrow> (int \<times> string) \<times> 'w sockstate" where
  "read_timed tv_sec S sizeRecvLen = (\<lambda>(w, s).
     if sizeRecvLen = 0 \<or> m_iSockfd s = -1 then ((-1, []), w, s)
     else let (r, w) = sys_setsockopt S (m_iSockfd s) (SO_RCVTIMEO tv_sec (unat (m_uiTimeout s))) w
          in if r = -1 then ((-1, []), w, s)
             else let (res, w) = sys_recv S (m_iSockfd s) sizeRecvLen w
                  in case res of
                       Received bs \<Rightarrow> ((int (length bs), bs), w, s)
                     | Again \<Rightarrow> ((-2, []), w, s)
                     | Broken \<Rightarrow> ((-1, []), w, s))"

definition TcpRead :: "'w sys \<Rightarrow> nat \<Rightarrow> 'w sockstate \<Rightarrow> (int \<times> string) \<times> 'w sockstate" where
  "TcpRead = read_timed 32"

definition TcpRead2 :: "'w sys \<Rightarrow> nat \<Rightarrow> 'w sockstate \<Rightarrow> (int \<times> string) \<times> 'w sockstate" where
  "TcpRead2 = read_timed 3"

lemma TcpRead_length: "TcpRead S n st = ((ilength, bs), st') \<Longrightarrow> 0 < ilength \<Longrightarrow> ilength = int (length bs)"
  by (auto simp: TcpRead_def read_timed_def split: prod.splits if_splits received.splits)

text \<open>The loop of \<open>TcpReadAll\<close>: \<open>buf\<close> is what the buffer holds, its length is \<open>ilen\<close>.\<close>

function read_all_loop :: "'w sys \<Rightarrow> nat \<Rightarrow> string \<Rightarrow> 'w sockstate \<Rightarrow> (int \<times> string) \<times> 'w sockstate" where
  "read_all_loop S sizeRecvLen buf st =
     (let ((ilength, bs), st) = TcpRead S (sizeRecvLen - length buf) st
      in if ilength > 0 then
           (let buf = buf @ bs
            in if length buf \<ge> sizeRecvLen then ((int (length buf), buf), st)
               else read_all_loop S sizeRecvLen buf st)
         else if ilength < 0 then ((ilength, buf), st)
         else ((int (length buf), buf), st))"
  by pat_completeness auto
termination
  by (relation "measure (\<lambda>(S, n, buf, st). n - length buf)") (auto, drule (1) TcpRead_length [OF sym], auto simp flip: length_greater_0_conv)

declare read_all_loop.simps [simp del]

definition TcpReadAll :: "'w sys \<Rightarrow> nat \<Rightarrow> 'w sockstate \<Rightarrow> (int \<times> string) \<times> 'w sockstate" where
  "TcpReadAll S sizeRecvLen st =
     (if sizeRecvLen = 0 then ((-1, []), st) else read_all_loop S sizeRecvLen [] st)"

section \<open>Writing\<close>

text \<open>
  \<open>TcpWrite\<close> sends until everything is out or more than 300000 attempts in a row have sent
  nothing. The attempt made before the counter is looked at is lost when the loop is left there.
\<close>

function write_loop :: "'w sys \<Rightarrow> int \<Rightarrow> string \<Rightarrow> nat \<Rightarrow> nat \<Rightarrow> 'w \<Rightarrow> nat \<times> 'w" where
  "write_loop S fd buf totalsend flagtimes w =
     (if totalsend < length buf then
        (let (alreadysend, w) = sys_send S fd (drop totalsend buf) w
         in if flagtimes > 300000 then (totalsend, w)
            else if alreadysend \<le> 0 then write_loop S fd buf totalsend (Suc flagtimes) w
            else write_loop S fd buf (totalsend + nat alreadysend) 0 w)
      else (totalsend, w))"
  by pat_completeness auto
termination
  by (relation "measures [\<lambda>(S, fd, buf, t, f, w). length buf - t, \<lambda>(S, fd, buf, t, f, w). 300001 - f]") auto

declare write_loop.simps [simp del]

definition TcpWrite :: "'w sys \<Rightarrow> string \<Rightarrow> 'w sockstate \<Rightarrow> bool \<times> 'w sockstate" where
  "TcpWrite S buf = (\<lambda>(w, s).
     if buf = [] then (False, w, s)
     else let (alreadysend, w) = sys_send S (m_iSockfd s) buf w;
              (totalsend, w) = write_loop S (m_iSockfd s) buf (nat alreadysend) 0 w
          in (totalsend = length buf, w, s))"

section \<open>TLS\<close>

definition TcpSslInitParams :: "'w sys \<Rightarrow> 'w sockstate \<Rightarrow> 'w sockstate" where
  "TcpSslInitParams S = (\<lambda>(w, s). (SSL_library_init S w, s\<lparr>m_ssl := None, m_ssl_ctx := None\<rparr>))"

definition TcpSslInitEnv :: "'w sys \<Rightarrow> 'w sockstate \<Rightarrow> int \<times> 'w sockstate" where
  "TcpSslInitEnv S = (\<lambda>(w, s).
     let (ctx, w) = SSL_CTX_new S w; (con, w) = SSL_new S ctx w
     in (0, w, s\<lparr>m_ssl_ctx := ctx, m_ssl := con\<rparr>))"

definition TcpSslConnect :: "'w sys \<Rightarrow> 'w sockstate \<Rightarrow> bool \<times> 'w sockstate" where
  "TcpSslConnect S = (\<lambda>(w, s).
     let (s1, w) = SSL_set_fd S (m_ssl s) (m_iSockfd s) w; (s2, w) = SSL_connect S (m_ssl s) w
     in (s1 = 1 \<and> s2 = 1, w, s))"

definition TcpSslReadLen :: "'w sys \<Rightarrow> nat \<Rightarrow> 'w sockstate \<Rightarrow> (int \<times> string) \<times> 'w sockstate" where
  "TcpSslReadLen S nBytes = (\<lambda>(w, s).
     let (nread, bs, w) = SSL_read S (m_ssl s) nBytes w in ((nread, bs), w, s))"

text \<open>
  The pointer moves by whatever \<open>SSL_write\<close> returned, also by \<open>-1\<close> when the connection asks to
  be tried again. \<open>None\<close>: the loop does not end, or the pointer has left the buffer.
\<close>

partial_function (option) ssl_write_loop ::
    "'w sys \<Rightarrow> nat option \<Rightarrow> string \<Rightarrow> nat \<Rightarrow> 'w \<Rightarrow> (int \<times> 'w) option" where
  "ssl_write_loop S con buf pos w =
     (let (nwrite, err, w) = SSL_write S con (drop pos buf) w
      in if err = SSL_ERROR_OTHER then Some (-1, w)
         else let next = int pos + (if err = SSL_ERROR_ZERO_RETURN then 0 else nwrite)
              in if next \<ge> int (length buf) then Some (next, w)
                 else if next < 0 then None
                 else ssl_write_loop S con buf (nat next) w)"

definition TcpSslWriteLen :: "'w sys \<Rightarrow> string \<Rightarrow> 'w sockstate \<Rightarrow> (int \<times> 'w sockstate) option" where
  "TcpSslWriteLen S buf = (\<lambda>(w, s).
     (case ssl_write_loop S (m_ssl s) buf 0 w of None \<Rightarrow> None | Some (n, w) \<Rightarrow> Some (n, w, s)))"

definition TcpSslDestroy :: "'w sys \<Rightarrow> 'w sockstate \<Rightarrow> 'w sockstate" where
  "TcpSslDestroy S = (\<lambda>(w, s).
     let w = SSL_free S (m_ssl s) (SSL_shutdown S (m_ssl s) w);
         (w, s) = TcpClose S (w, s)
     in (SSL_CTX_free S (m_ssl_ctx s) w, s))"


section \<open>The SMTP dialogue\<close>

text \<open>
  \<open>TcpSendEmail\<close> prints each line into \<open>buffer[1024]\<close>, sends it and, for all but the lines of the
  message itself, reads the answer; neither result is looked at after the greeting. The recipients
  are kept in \<open>p[100]\<close>. \<open>None\<close> is a line or a list of recipients that does not fit, or a user name or
  password that \<open>EncodingBase64\<close> cannot encode.
\<close>

datatype smtp_step = Say string | Put string

abbreviation smtp_crlf :: string where "smtp_crlf \<equiv> [CHR 0x0D, CHR 0x0A]"

primrec step_line :: "smtp_step \<Rightarrow> string" where
  "step_line (Say line) = line"
| "step_line (Put line) = line"

fun run_smtp :: "'w sys \<Rightarrow> smtp_step list \<Rightarrow> 'w sockstate \<Rightarrow> 'w sockstate option" where
  "run_smtp S [] st = Some st"
| "run_smtp S (Say line # steps) st =
     (if length line < 1024 then run_smtp S steps (snd (TcpReadAll S 8192 (snd (TcpWrite S line st)))) else None)"
| "run_smtp S (Put line # steps) st =
     (if length line < 1024 then run_smtp S steps (snd (TcpWrite S line st)) else None)"

definition smtp_script :: "string \<Rightarrow> string \<Rightarrow> string \<Rightarrow> string list \<Rightarrow> string \<Rightarrow> string \<Rightarrow> smtp_step list" where
  "smtp_script user64 pass64 mail_from addresses subject body =
     [Say (''AUTH LOGIN'' @ smtp_crlf), Say (user64 @ smtp_crlf), Say (pass64 @ smtp_crlf),
      Say (''MAIL FROM:<'' @ mail_from @ ''>'' @ smtp_crlf)] @
     map (\<lambda>a. Say (''RCPT TO: <'' @ a @ ''>'' @ smtp_crlf)) addresses @
     [Say (''DATA'' @ smtp_crlf), Put (''From: '' @ mail_from @ smtp_crlf)] @
     map (\<lambda>a. Put (''To: '' @ a @ smtp_crlf)) addresses @
     [Put (''Subject: '' @ subject @ [CHR 0x0A] @ smtp_crlf), Put (body @ smtp_crlf @ ''.'' @ smtp_crlf),
      Say (''QUIT'' @ smtp_crlf)]"

definition smtp_greeting :: "string \<Rightarrow> string" where
  "smtp_greeting mail_from = ''EHLO '' @ mail_from @ [CHR 0x0A]"

definition TcpSendEmail :: "'w sys \<Rightarrow> string \<Rightarrow> string \<Rightarrow> string \<Rightarrow> string \<Rightarrow> string \<Rightarrow> string \<Rightarrow> 'w sockstate
    \<Rightarrow> (int \<times> 'w sockstate) option" where
  "TcpSendEmail S username password mail_from rcpt_to subject body st =
     (if 1024 \<le> length (smtp_greeting mail_from) then None
      else let (sent, st) = TcpWrite S (smtp_greeting mail_from) st
           in if \<not> sent then Some (-1, st)
              else let st = snd (TcpReadAll S 8192 st); addresses = split_on (CHR '','') rcpt_to
                   in case (EncodingBase64 username, EncodingBase64 password) of
                        (Some (_, u), Some (_, p)) \<Rightarrow>
                          if 100 < length addresses then None
                          else map_option (Pair 0) (run_smtp S (smtp_script u p mail_from addresses subject body) st)
                      | _ \<Rightarrow> None)"

section \<open>What goes over the wire\<close>

text \<open>
  The documented behaviour of \<open>send\<close> and \<open>recv\<close> on a stream socket: \<open>send\<close> appends to what the peer
  will see a prefix of the bytes, as long as it says; \<open>recv\<close> takes at most the bytes asked for from
  the front of what the peer has sent. \<open>out fd w\<close> and \<open>inp fd w\<close> are these two streams.
\<close>

definition sends_into :: "'w sys \<Rightarrow> (int \<Rightarrow> 'w \<Rightarrow> string) \<Rightarrow> bool" where
  "sends_into S out \<longleftrightarrow>
     (\<forall>fd buf w n w'. sys_send S fd buf w = (n, w') \<longrightarrow>
        n \<le> int (length buf) \<and> out fd w' = out fd w @ take (nat n) buf) \<and>
     (\<forall>fd n w fd'. out fd' (snd (sys_recv S fd n w)) = out fd' w) \<and>
     (\<forall>fd opt w fd'. out fd' (snd (sys_setsockopt S fd opt w)) = out fd' w)"

definition receives_from :: "'w sys \<Rightarrow> (int \<Rightarrow> 'w \<Rightarrow> string) \<Rightarrow> bool" where
  "receives_from S inp \<longleftrightarrow>
     (\<forall>fd n w bs w'. sys_recv S fd n w = (Received bs, w') \<longrightarrow>
        length bs \<le> n \<and> inp fd w = bs @ inp fd w') \<and>
     (\<forall>fd n w r w'. sys_recv S fd n w = (r, w') \<longrightarrow> (\<forall>bs. r \<noteq> Received bs) \<longrightarrow> inp fd w' = inp fd w) \<and>
     (\<forall>fd opt w fd'. inp fd' (snd (sys_setsockopt S fd opt w)) = inp fd' w)"

text \<open>The contract of a read: what is stored is what the peer sent next, no more than was asked for.\<close>

locale stream_reader =
  fixes rd :: "'w sys \<Rightarrow> nat \<Rightarrow> 'w sockstate \<Rightarrow> (int \<times> string) \<times> 'w sockstate"
  assumes takes_front: "receives_from S inp \<Longrightarrow> rd S n (w, s) = ((r, bs), w', s') \<Longrightarrow>
      s' = s \<and> length bs \<le> n \<and> inp (m_iSockfd s) w = bs @ inp (m_iSockfd s) w'"
    and counts: "rd S n st = ((r, bs), st') \<Longrightarrow> 0 \<le> r \<Longrightarrow> r = int (length bs)"
begin

text \<open>Two reads in a row take the stream in order.\<close>

lemma takes_in_order:
  assumes "receives_from S inp" "rd S n (w, s) = ((r, bs), st')" "rd S m st' = ((r', bs'), w'', s'')"
  shows "inp (m_iSockfd s) w = bs @ bs' @ inp (m_iSockfd s) w''"
proof -
  obtain w' s' where st': "st' = (w', s')" by (cases st')
  note first = takes_front [OF assms(1) assms(2) [unfolded st']]
  note second = takes_front [OF assms(1) assms(3) [unfolded st']]
  from first second show ?thesis by simp
qed

end

lemma read_timed_front:
  assumes "receives_from S inp" "read_timed sec S n (w, s) = ((r, bs), w', s')"
  shows "s' = s \<and> length bs \<le> n \<and> inp (m_iSockfd s) w = bs @ inp (m_iSockfd s) w'"
proof -
  obtain q v where opt: "sys_setsockopt S (m_iSockfd s) (SO_RCVTIMEO sec (unat (m_uiTimeout s))) w = (q, v)"
    by (cases "sys_setsockopt S (m_iSockfd s) (SO_RCVTIMEO sec (unat (m_uiTimeout s))) w")
  have v: "inp (m_iSockfd s) v = inp (m_iSockfd s) w"
    using assms(1) opt unfolding receives_from_def by (metis snd_conv)
  obtain res u where rcv: "sys_recv S (m_iSockfd s) n v = (res, u)"
    by (cases "sys_recv S (m_iSockfd s) n v")
  have got: "\<And>bs. res = Received bs \<Longrightarrow> length bs \<le> n \<and> inp (m_iSockfd s) v = bs @ inp (m_iSockfd s) u"
    using assms(1) rcv unfolding receives_from_def by blast
  have none: "(\<forall>bs. res \<noteq> Received bs) \<Longrightarrow> inp (m_iSockfd s) u = inp (m_iSockfd s) v"
    using assms(1) rcv unfolding receives_from_def by blast
  show ?thesis
    using assms(2) opt rcv v got none
    by (auto simp: read_timed_def split: if_splits received.splits)
qed

lemma read_timed_counts: "read_timed sec S n st = ((r, bs), st') \<Longrightarrow> 0 \<le> r \<Longrightarrow> r = int (length bs)"
  by (cases st) (auto simp: read_timed_def split: prod.splits if_splits received.splits)

interpretation plain_read: stream_reader TcpRead
  by unfold_locales (auto simp: TcpRead_def dest: read_timed_front read_timed_counts)

interpretation short_read: stream_reader TcpRead2
  by unfold_locales (auto simp: TcpRead2_def dest: read_timed_front read_timed_counts)

lemma read_all_loop_step:
  assumes "TcpRead S (n - length buf) st = ((ilength, bs), st1)"
  shows "read_all_loop S n buf st =
     (if 0 < ilength \<and> length buf + length bs < n then read_all_loop S n (buf @ bs) st1
      else if ilength < 0 then ((ilength, buf), st1)
      else if ilength = 0 then ((int (length buf), buf), st1)
      else ((int (length (buf @ bs)), buf @ bs), st1))"
  using assms by (subst read_all_loop.simps) auto

lemma read_all_loop_counts:
  "read_all_loop S n buf st = ((r, buf'), st') \<Longrightarrow> 0 \<le> r \<Longrightarrow> r = int (length buf')"
proof (induction S n buf st rule: read_all_loop.induct)
  case (1 S n buf st)
  obtain ilength bs st1 where rd: "TcpRead S (n - length buf) st = ((ilength, bs), st1)"
    by (metis surj_pair)
  with "1.IH" [OF rd [symmetric] refl refl] "1.prems" show ?case
    by (auto simp: read_all_loop_step [OF rd] split: if_splits)
qed

lemma read_all_loop_front:
  "read_all_loop S n buf st = ((r, buf'), st') \<Longrightarrow> receives_from S inp \<Longrightarrow> length buf \<le> n \<Longrightarrow>
     snd st' = snd st \<and> length buf' \<le> n \<and>
     (\<exists>bs. buf' = buf @ bs \<and> inp (m_iSockfd (snd st)) (fst st) = bs @ inp (m_iSockfd (snd st)) (fst st'))"
proof (induction S n buf st rule: read_all_loop.induct)
  case (1 S n buf st)
  obtain w s ilength bs v q where st: "st = (w, s)" and rd: "TcpRead S (n - length buf) st = ((ilength, bs), v, q)"
    by (metis surj_pair)
  note front = plain_read.takes_front [OF "1.prems"(2) rd [unfolded st]]
  have bs: "ilength \<le> 0 \<Longrightarrow> bs = []"
    using rd by (auto simp: TcpRead_def read_timed_def split: prod.splits if_splits received.splits)
  show ?case
  proof (cases "0 < ilength \<and> length (buf @ bs) < n")
    case True
    then have "read_all_loop S n (buf @ bs) (v, q) = ((r, buf'), st')"
      using "1.prems"(1) by (simp add: read_all_loop_step [OF rd])
    from "1.IH" [OF rd [symmetric] refl refl _ refl _ this "1.prems"(2)] front True show ?thesis
      by (auto simp: st)
  next
    case False
    with "1.prems"(1,3) front bs show ?thesis
      by (auto simp: read_all_loop_step [OF rd [unfolded st]] st split: if_splits)
  qed
qed

interpretation whole_read: stream_reader TcpReadAll
proof
  fix S :: "'w sys" and inp n w s r bs w' s'
  assume "receives_from S inp" "TcpReadAll S n (w, s) = ((r, bs), w', s')"
  then show "s' = s \<and> length bs \<le> n \<and> inp (m_iSockfd s) w = bs @ inp (m_iSockfd s) w'"
    by (auto simp: TcpReadAll_def split: if_splits dest: read_all_loop_front)
qed (auto simp: TcpReadAll_def split: if_splits dest: read_all_loop_counts)

section \<open>Writing delivers the bytes in order\<close>

lemma sends_intoD:
  "sends_into S out \<Longrightarrow> sys_send S fd buf w = (n, w') \<Longrightarrow>
   n \<le> int (length buf) \<and> out fd w' = out fd w @ take (nat n) buf"
  unfolding sends_into_def by blast

lemma write_loop_delivers:
  "write_loop S fd buf t f w = (t', w') \<Longrightarrow> sends_into S out \<Longrightarrow> t \<le> length buf \<Longrightarrow>
   \<exists>k. t \<le> t' \<and> t' \<le> k \<and> k \<le> length buf \<and> out fd w' = out fd w @ take (k - t) (drop t buf)"
proof (induction S fd buf t f w rule: write_loop.induct)
  case (1 S fd buf t f w)
  obtain n v where snd: "sys_send S fd (drop t buf) w = (n, v)" by (metis surj_pair)
  note sent = sends_intoD [OF "1.prems"(2) snd]
  show ?case
  proof (cases "t < length buf")
    case False
    with "1.prems" show ?thesis by (auto simp: write_loop.simps [of S fd buf t f w] intro: exI [of _ t])
  next
    case more: True
    note unfold = write_loop.simps [of S fd buf t f w]
    consider (out) "300000 < f" | (none) "\<not> 300000 < f" "n \<le> 0" | (some) "\<not> 300000 < f" "0 < n" by linarith
    then show ?thesis
    proof cases
      case out
      with "1.prems"(1,3) more snd sent show ?thesis
        by (intro exI [of _ "t + nat n"]) (auto simp: unfold)
    next
      case none
      then have "write_loop S fd buf t (Suc f) v = (t', w')"
        using "1.prems"(1) more snd by (simp add: unfold)
      from "1.IH"(1) [OF more snd [symmetric] refl none this "1.prems"(2,3)] sent none show ?thesis
        by auto
    next
      case some
      then have loop: "write_loop S fd buf (t + nat n) 0 v = (t', w')"
        using "1.prems"(1) more snd by (simp add: unfold)
      have "t + nat n \<le> length buf" using sent some by auto
      from "1.IH"(2) [OF more snd [symmetric] refl some(1) _ loop "1.prems"(2) this] some obtain k where
        k: "t + nat n \<le> t'" "t' \<le> k" "k \<le> length buf"
           "out fd w' = out fd v @ take (k - (t + nat n)) (drop (t + nat n) buf)"
        by auto
      have "take (k - t) (drop t buf) = take (nat n) (drop t buf) @ take (k - (t + nat n)) (drop (t + nat n) buf)"
        using k(1,2) take_add [of "nat n" "k - (t + nat n)" "drop t buf"] by (simp add: add.commute)
      with k sent show ?thesis by (intro exI [of _ k]) auto
    qed
  qed
qed

lemma write_loop_patient:
  "write_loop S fd buf t f w = (t', w') \<Longrightarrow> t \<le> length buf \<Longrightarrow> f \<le> 300000 \<Longrightarrow>
   (\<And>b v. b \<noteq> [] \<Longrightarrow> 0 < fst (sys_send S fd b v)) \<Longrightarrow> sends_into S out \<Longrightarrow> t' = length buf"
proof (induction S fd buf t f w rule: write_loop.induct)
  case (1 S fd buf t f w)
  obtain n v where snd: "sys_send S fd (drop t buf) w = (n, v)" by (metis surj_pair)
  show ?case
  proof (cases "t < length buf")
    case False
    with "1.prems"(1,2) show ?thesis by (auto simp: write_loop.simps [of S fd buf t f w])
  next
    case more: True
    with "1.prems"(4) [of "drop t buf" w] snd have n: "0 < n" by simp
    then have loop: "write_loop S fd buf (t + nat n) 0 v = (t', w')"
      using "1.prems"(1,3) more snd by (simp add: write_loop.simps [of S fd buf t f w])
    have "t + nat n \<le> length buf" using sends_intoD [OF "1.prems"(5) snd] n by auto
    with "1.IH"(2) [OF more snd [symmetric] refl _ _ loop] "1.prems"(3-5) n show ?thesis by auto
  qed
qed

lemma TcpWrite_delivers:
  assumes "sends_into S out" "TcpWrite S buf (w, s) = (b, w', s')"
  shows "s' = s \<and> (\<exists>k \<le> length buf. out (m_iSockfd s) w' = out (m_iSockfd s) w @ take k buf \<and> (b \<longrightarrow> k = length buf))"
proof (cases "buf = []")
  case True
  with assms show ?thesis by (simp add: TcpWrite_def)
next
  case False
  obtain n v where snd: "sys_send S (m_iSockfd s) buf w = (n, v)" by (metis surj_pair)
  obtain t u where loop: "write_loop S (m_iSockfd s) buf (nat n) 0 v = (t, u)" by (metis surj_pair)
  note sent = sends_intoD [OF assms(1) snd]
  have "nat n \<le> length buf" using sent by auto
  from write_loop_delivers [OF loop assms(1) this] obtain k where
    k: "nat n \<le> t" "t \<le> k" "k \<le> length buf" "out (m_iSockfd s) u = out (m_iSockfd s) v @ take (k - nat n) (drop (nat n) buf)"
    by auto
  have "take k buf = take (nat n) buf @ take (k - nat n) (drop (nat n) buf)"
    using k(1,2) take_add [of "nat n" "k - nat n" buf] by simp
  with k sent False assms(2) snd loop show ?thesis by (auto simp: TcpWrite_def)
qed

lemma TcpWrite_patient:
  assumes "sends_into S out" "\<And>b v. b \<noteq> [] \<Longrightarrow> 0 < fst (sys_send S (m_iSockfd s) b v)" "buf \<noteq> []"
  shows "fst (TcpWrite S buf (w, s))"
proof -
  obtain n v where snd: "sys_send S (m_iSockfd s) buf w = (n, v)" by (metis surj_pair)
  obtain t u where loop: "write_loop S (m_iSockfd s) buf (nat n) 0 v = (t, u)" by (metis surj_pair)
  have "nat n \<le> length buf" using sends_intoD [OF assms(1) snd] by auto
  from write_loop_patient [OF loop this _ assms(2) assms(1)] show ?thesis
    using assms(3) snd loop by (simp add: TcpWrite_def)
qed

text \<open>A dialogue on a connection that takes every line whole is the lines one after the other.\<close>

definition takes_lines :: "'w sys \<Rightarrow> (int \<Rightarrow> 'w \<Rightarrow> string) \<Rightarrow> bool" where
  "takes_lines S out \<longleftrightarrow> sends_into S out \<and> (\<forall>fd b v. b \<noteq> [] \<longrightarrow> 0 < fst (sys_send S fd b v))"

lemma TcpWrite_line:
  assumes "takes_lines S out" "line \<noteq> []"
  obtains w' where "TcpWrite S line (w, s) = (True, w', s)" "out (m_iSockfd s) w' = out (m_iSockfd s) w @ line"
proof -
  obtain b w' s' where wr: "TcpWrite S line (w, s) = (b, w', s')" by (metis surj_pair)
  have b using TcpWrite_patient [of S out s line w] assms wr by (simp add: takes_lines_def)
  with TcpWrite_delivers [OF _ wr, of out] assms(1) wr show thesis
    using that by (auto simp: takes_lines_def)
qed

lemma read_timed_out:
  "sends_into S out \<Longrightarrow> out fd (fst (snd (read_timed sec S n st))) = out fd (fst st) \<and> snd (snd (read_timed sec S n st)) = snd st"
  by (cases st) (auto simp: read_timed_def sends_into_def split: prod.split received.split, (metis snd_conv)+)

lemma read_all_loop_out:
  "sends_into S out \<Longrightarrow>
   out fd (fst (snd (read_all_loop S n buf st))) = out fd (fst st) \<and> snd (snd (read_all_loop S n buf st)) = snd st"
proof (induction S n buf st rule: read_all_loop.induct)
  case (1 S n buf st)
  obtain ilength bs st1 where rd: "TcpRead S (n - length buf) st = ((ilength, bs), st1)"
    by (metis surj_pair)
  have "out fd (fst st1) = out fd (fst st) \<and> snd st1 = snd st"
    using read_timed_out [OF "1.prems", of fd 32 "n - length buf" st] rd by (simp add: TcpRead_def)
  with "1.IH" [OF rd [symmetric] refl refl] "1.prems" show ?case
    by (auto simp: read_all_loop_step [OF rd])
qed

lemma run_smtp_lines:
  assumes "takes_lines S out"
  shows "(\<forall>x \<in> set steps. step_line x \<noteq> [] \<and> length (step_line x) < 1024) \<Longrightarrow>
     \<exists>w'. run_smtp S steps (w, s) = Some (w', s) \<and>
       out (m_iSockfd s) w' = out (m_iSockfd s) w @ concat (map step_line steps)"
proof (induction steps arbitrary: w)
  case (Cons x steps)
  from Cons.prems have "step_line x \<noteq> []" by simp
  from TcpWrite_line [OF assms this, of w s] obtain v where
    v: "TcpWrite S (step_line x) (w, s) = (True, v, s)" "out (m_iSockfd s) v = out (m_iSockfd s) w @ step_line x" .
  obtain r u q where rd: "TcpReadAll S 8192 (v, s) = (r, u, q)" by (metis surj_pair)
  have "q = s" "out (m_iSockfd s) u = out (m_iSockfd s) v"
    using read_all_loop_out [of S out "m_iSockfd s" 8192 "[]" "(v, s)"] rd assms
    by (auto simp: TcpReadAll_def takes_lines_def)
  with v rd Cons.prems Cons.IH [of u] Cons.IH [of v] show ?case
    by (cases x) auto
qed simp

section \<open>Who owns the open descriptors\<close>

text \<open>
  The descriptor table of the process: \<open>tab w fd\<close> is \<open>None\<close> when \<open>fd\<close> is not open, and tells otherwise
  whether epoll watches it. Its documented life cycle: \<open>-1\<close> is not a descriptor; \<open>socket\<close> returns one that is not
  negative and was not open, or \<open>-1\<close>; \<open>close\<close> ends one; the other calls of a socket leave the table as it is.
\<close>

definition tracks_fds :: "'w sys \<Rightarrow> ('w \<Rightarrow> int \<rightharpoonup> bool) \<Rightarrow> bool" where
  "tracks_fds S tab \<longleftrightarrow>
     (\<forall>w. tab w (-1) = None) \<and>
     (\<forall>w fd w'. sys_socket S w = (fd, w') \<longrightarrow>
        (if fd = -1 then tab w' = tab w else 0 \<le> fd \<and> tab w fd = None \<and> tab w' = (tab w)(fd \<mapsto> False))) \<and>
     (\<forall>fd w. -1 \<le> fd \<longrightarrow> tab (sys_close S fd w) = (tab w)(fd := None)) \<and>
     (\<forall>fd opt w. tab (snd (sys_setsockopt S fd opt w)) = tab w) \<and>
     (\<forall>fd ip port w. tab (snd (sys_connect S fd ip port w)) = tab w) \<and>
     (\<forall>fd n w. tab (snd (sys_recv S fd n w)) = tab w) \<and>
     (\<forall>fd b w. tab (snd (sys_send S fd b w)) = tab w) \<and>
     (\<forall>w. tab (SSL_library_init S w) = tab w) \<and> (\<forall>w. tab (snd (SSL_CTX_new S w)) = tab w) \<and>
     (\<forall>c w. tab (snd (SSL_new S c w)) = tab w) \<and> (\<forall>c fd w. tab (snd (SSL_set_fd S c fd w)) = tab w) \<and>
     (\<forall>c w. tab (snd (SSL_connect S c w)) = tab w) \<and> (\<forall>c n w. tab (snd (snd (SSL_read S c n w))) = tab w) \<and>
     (\<forall>c b w. tab (snd (snd (SSL_write S c b w))) = tab w) \<and> (\<forall>c w. tab (SSL_shutdown S c w) = tab w) \<and>
     (\<forall>c w. tab (SSL_free S c w) = tab w) \<and> (\<forall>c w. tab (SSL_CTX_free S c w) = tab w)"

lemma tracks_fds_socket:
  "tracks_fds S tab \<Longrightarrow> sys_socket S w = (fd, w') \<Longrightarrow>
   fd = -1 \<and> tab w' = tab w \<or> 0 \<le> fd \<and> tab w fd = None \<and> tab w' = (tab w)(fd \<mapsto> False)"
  unfolding tracks_fds_def by metis

text \<open>
  A view of the world that no call of a socket changes, such as the connections that hiredis has open. What is
  shown of every table holds of such a view, too: its value is put into the table, at \<open>-2\<close>, which is no descriptor.
\<close>

definition keeps_view :: "'w sys \<Rightarrow> ('w \<Rightarrow> 'a) \<Rightarrow> bool" where
  "keeps_view S f \<longleftrightarrow>
     (\<forall>w. f (snd (sys_socket S w)) = f w) \<and> (\<forall>fd w. -1 \<le> fd \<longrightarrow> f (sys_close S fd w) = f w) \<and>
     (\<forall>fd opt w. f (snd (sys_setsockopt S fd opt w)) = f w) \<and>
     (\<forall>fd ip port w. f (snd (sys_connect S fd ip port w)) = f w) \<and>
     (\<forall>fd n w. f (snd (sys_recv S fd n w)) = f w) \<and>
     (\<forall>fd b w. f (snd (sys_send S fd b w)) = f w) \<and>
     (\<forall>w. f (SSL_library_init S w) = f w) \<and> (\<forall>w. f (snd (SSL_CTX_new S w)) = f w) \<and>
     (\<forall>c w. f (snd (SSL_new S c w)) = f w) \<and> (\<forall>c fd w. f (snd (SSL_set_fd S c fd w)) = f w) \<and>
     (\<forall>c w. f (snd (SSL_connect S c w)) = f w) \<and> (\<forall>c n w. f (snd (snd (SSL_read S c n w))) = f w) \<and>
     (\<forall>c b w. f (snd (snd (SSL_write S c b w))) = f w) \<and> (\<forall>c w. f (SSL_shutdown S c w) = f w) \<and>
     (\<forall>c w. f (SSL_free S c w) = f w) \<and> (\<forall>c w. f (SSL_CTX_free S c w) = f w)"

definition framed :: "('w \<Rightarrow> 'a) \<Rightarrow> 'a \<Rightarrow> ('w \<Rightarrow> int \<rightharpoonup> bool) \<Rightarrow> 'w \<Rightarrow> int \<rightharpoonup> bool" where
  "framed f v tab w = (tab w)(-2 := if f w = v then Some True else None)"

lemma framed_same: "framed f (f w) tab w' (-2) = framed f (f w) tab w (-2) \<Longrightarrow> f w' = f w"
  by (simp add: framed_def split: if_splits)

lemma framed_tracks:
  assumes "tracks_fds S tab" "keeps_view S f"
  shows "tracks_fds S (framed f v tab)"
proof -
  have "\<forall>w fd w'. sys_socket S w = (fd, w') \<longrightarrow>
      (if fd = -1 then framed f v tab w' = framed f v tab w
       else 0 \<le> fd \<and> framed f v tab w fd = None \<and> framed f v tab w' = (framed f v tab w)(fd \<mapsto> False))"
  proof (intro allI impI)
    fix w fd w' assume s: "sys_socket S w = (fd, w')"
    then have "f w' = f w" using assms(2) [unfolded keeps_view_def, THEN conjunct1, THEN spec, of w] by simp
    with tracks_fds_socket [OF assms(1) s] show "if fd = -1 then framed f v tab w' = framed f v tab w
       else 0 \<le> fd \<and> framed f v tab w fd = None \<and> framed f v tab w' = (framed f v tab w)(fd \<mapsto> False)"
      by (auto simp: framed_def fun_eq_iff)
  qed
  moreover have "\<forall>fd w. -1 \<le> fd \<longrightarrow> framed f v tab (sys_close S fd w) = (framed f v tab w)(fd := None)"
    using assms by (auto simp: tracks_fds_def keeps_view_def framed_def fun_eq_iff)
  ultimately show ?thesis
    using assms by (simp add: tracks_fds_def keeps_view_def framed_def)
qed

text \<open>An object owns the descriptor in it; \<open>others\<close> is the rest of the table.\<close>

definition owns_fd :: "('w \<Rightarrow> int \<rightharpoonup> bool) \<Rightarrow> (int \<rightharpoonup> bool) \<Rightarrow> 'w sockstate \<Rightarrow> bool" where
  "owns_fd tab others st \<longleftrightarrow>
     (case st of (w, s) \<Rightarrow>
        -1 \<le> m_iSockfd s \<and> others (-1) = None \<and> others (m_iSockfd s) = None \<and>
        tab w = (if m_iSockfd s = -1 then others else others(m_iSockfd s \<mapsto> False)))"

text \<open>The contract of an operation on a socket: of the table it changes nothing but its own entry.\<close>

locale descriptor_operation =
  fixes operation :: "'w sys \<Rightarrow> 'w sockstate \<Rightarrow> 'w sockstate option"
  assumes keeps_descriptors: "tracks_fds S tab \<Longrightarrow> owns_fd tab others st \<Longrightarrow> operation S st = Some st' \<Longrightarrow>
    owns_fd tab others st'"
begin

lemma destructor_closes:
  assumes "tracks_fds S tab" "owns_fd tab others st" "operation S st = Some st'"
  shows "tab (delete_CTcpSocket S st') = others"
proof -
  obtain w s where st': "st' = (w, s)" by (cases st')
  have "owns_fd tab others (w, s)" using keeps_descriptors assms st' by blast
  moreover have "tab (snd (sys_setsockopt S (m_iSockfd s) SO_LINGER w)) = tab w"
    and "\<And>fd v. -1 \<le> fd \<Longrightarrow> tab (sys_close S fd v) = (tab v)(fd := None)"
    using assms(1) by (simp_all add: tracks_fds_def)
  ultimately show ?thesis
    unfolding st' by (auto simp: delete_CTcpSocket_def owns_fd_def fun_upd_idem split: prod.split if_splits)
qed

end

context descriptor_operation begin

lemma keeps_rest:
  assumes "tracks_fds S tab" "keeps_view S f" "owns_fd tab others st" "operation S st = Some st'"
  shows "f (fst st') = f (fst st)"
proof -
  let ?tab = "framed f (f (fst st)) tab" and ?others = "others(-2 \<mapsto> True)"
  have "owns_fd ?tab ?others st" using assms(3) by (auto simp: owns_fd_def framed_def split: prod.splits)
  from keeps_descriptors [OF framed_tracks [OF assms(1,2)] this assms(4)] show ?thesis
    by (auto simp: owns_fd_def framed_def fun_eq_iff split: prod.splits if_splits dest!: spec [of _ "-2"])
qed

end

lemma tracks_fds_calls:
  assumes "tracks_fds S tab"
  shows "\<And>fd w. -1 \<le> fd \<Longrightarrow> tab (sys_close S fd w) = (tab w)(fd := None)"
    and "\<And>fd opt w r w'. sys_setsockopt S fd opt w = (r, w') \<Longrightarrow> tab w' = tab w"
    and "\<And>fd ip port w r w'. sys_connect S fd ip port w = (r, w') \<Longrightarrow> tab w' = tab w"
    and "\<And>fd n w r w'. sys_recv S fd n w = (r, w') \<Longrightarrow> tab w' = tab w"
    and "\<And>fd b w r w'. sys_send S fd b w = (r, w') \<Longrightarrow> tab w' = tab w"
    and "\<And>w. tab (SSL_library_init S w) = tab w" and "\<And>w r w'. SSL_CTX_new S w = (r, w') \<Longrightarrow> tab w' = tab w"
    and "\<And>c w r w'. SSL_new S c w = (r, w') \<Longrightarrow> tab w' = tab w"
    and "\<And>c fd w r w'. SSL_set_fd S c fd w = (r, w') \<Longrightarrow> tab w' = tab w"
    and "\<And>c w r w'. SSL_connect S c w = (r, w') \<Longrightarrow> tab w' = tab w"
    and "\<And>c n w r b w'. SSL_read S c n w = (r, b, w') \<Longrightarrow> tab w' = tab w"
    and "\<And>c b w r e w'. SSL_write S c b w = (r, e, w') \<Longrightarrow> tab w' = tab w"
    and "\<And>c w. tab (SSL_shutdown S c w) = tab w" and "\<And>c w. tab (SSL_free S c w) = tab w"
    and "\<And>c w. tab (SSL_CTX_free S c w) = tab w"
  using assms unfolding tracks_fds_def by (simp_all, (metis snd_conv)+)

lemma tracks_fds_none: "tracks_fds S tab \<Longrightarrow> tab w (-1) = None"
  by (simp add: tracks_fds_def)

lemma read_timed_fds:
  assumes "tracks_fds S tab" "read_timed sec S n st = (r, st')"
  shows "tab (fst st') = tab (fst st) \<and> snd st' = snd st"
proof -
  obtain w s where st: "st = (w, s)" by (cases st)
  obtain q v where opt: "sys_setsockopt S (m_iSockfd s) (SO_RCVTIMEO sec (unat (m_uiTimeout s))) w = (q, v)"
    by (metis surj_pair)
  obtain res u where rcv: "sys_recv S (m_iSockfd s) n v = (res, u)" by (metis surj_pair)
  from tracks_fds_calls(2) [OF assms(1) opt] tracks_fds_calls(4) [OF assms(1) rcv] assms(2) show ?thesis
    by (simp add: st read_timed_def opt rcv split: if_splits received.splits) (safe, simp_all)
qed

lemma read_all_loop_fds:
  "read_all_loop S n buf st = (r, st') \<Longrightarrow> tracks_fds S tab \<Longrightarrow> tab (fst st') = tab (fst st) \<and> snd st' = snd st"
proof (induction S n buf st rule: read_all_loop.induct)
  case (1 S n buf st)
  obtain ilength bs st1 where rd: "TcpRead S (n - length buf) st = ((ilength, bs), st1)"
    by (metis surj_pair)
  have "tab (fst st1) = tab (fst st) \<and> snd st1 = snd st"
    using read_timed_fds [OF "1.prems"(2)] rd unfolding TcpRead_def by blast
  with "1.IH" [OF rd [symmetric] refl refl] "1.prems" show ?case
    by (auto simp: read_all_loop_step [OF rd] split: if_splits)
qed

lemma write_loop_fds:
  "write_loop S fd buf t f w = (t', w') \<Longrightarrow> tracks_fds S tab \<Longrightarrow> tab w' = tab w"
proof (induction S fd buf t f w rule: write_loop.induct)
  case (1 S fd buf t f w)
  obtain n v where snd: "sys_send S fd (drop t buf) w = (n, v)" by (metis surj_pair)
  note v = tracks_fds_calls(5) [OF "1.prems"(2) snd]
  note unfold = write_loop.simps [of S fd buf t f w]
  from "1.prems" "1.IH"(1) [OF _ snd [symmetric] refl] "1.IH"(2) [OF _ snd [symmetric] refl] snd v show ?case
    unfolding unfold by (auto split: if_splits)
qed

lemma ssl_write_loop_fds:
  assumes "ssl_write_loop S con buf pos w = Some (n, w')" "tracks_fds S tab"
  shows "tab w' = tab w"
proof -
  have "tracks_fds S tab \<longrightarrow> tab (snd (n, w')) = tab w"
    using assms(1)
  proof (induction rule: ssl_write_loop.raw_induct [rotated, consumes 1, case_names step])
    case (step loop S con buf pos w r)
    obtain m e v where wr: "SSL_write S con (drop pos buf) w = (m, e, v)" by (metis surj_pair)
    show ?case
    proof
      assume tr: "tracks_fds S tab"
      note v = tracks_fds_calls(12) [OF tr wr]
      have "snd r = v \<or> (\<exists>p. loop S con buf p v = Some r)"
        using step.hyps wr by (simp add: Let_def split: if_splits) fastforce+
      with v tr show "tab (snd r) = tab w" by (metis step.IH)
    qed
  qed
  with assms(2) show ?thesis by simp
qed

lemma owns_fd_same:
  "owns_fd tab others st \<Longrightarrow> tab (fst st') = tab (fst st) \<Longrightarrow> m_iSockfd (snd st') = m_iSockfd (snd st) \<Longrightarrow> owns_fd tab others st'"
  by (cases st; cases st') (simp add: owns_fd_def)

lemma TcpConnect_fds:
  assumes "tracks_fds S tab" "TcpConnect S st = (r, st')"
  shows "tab (fst st') = tab (fst st) \<and> m_iSockfd (snd st') = m_iSockfd (snd st)"
proof -
  obtain w s where st: "st = (w, s)" by (cases st)
  obtain q v where opt: "sys_setsockopt S (m_iSockfd s) (SO_SNDTIMEO 10 (unat (m_uiTimeout s))) w = (q, v)"
    by (metis surj_pair)
  obtain q' v' where opt': "sys_setsockopt S (m_iSockfd s) (SO_RCVTIMEO 10 (unat (m_uiTimeout s))) v = (q', v')"
    by (metis surj_pair)
  obtain c u where con: "sys_connect S (m_iSockfd s) (m_strIp s) (m_in_portPort s) v' = (c, u)"
    by (metis surj_pair)
  from tracks_fds_calls(2) [OF assms(1) opt] tracks_fds_calls(2) [OF assms(1) opt']
    tracks_fds_calls(3) [OF assms(1) con] assms(2) show ?thesis
    by (simp add: st TcpConnect_def opt opt' con split: if_splits) (safe, simp_all)
qed

interpretation fd_connect: descriptor_operation "\<lambda>S st. Some (snd (TcpConnect S st))"
  by unfold_locales (metis TcpConnect_fds owns_fd_same option.inject prod.collapse)

interpretation fd_read: descriptor_operation "\<lambda>S st. Some (snd (TcpRead S n st))"
  by unfold_locales (metis TcpRead_def read_timed_fds owns_fd_same option.inject prod.collapse)

interpretation fd_read2: descriptor_operation "\<lambda>S st. Some (snd (TcpRead2 S n st))"
  by unfold_locales (metis TcpRead2_def read_timed_fds owns_fd_same option.inject prod.collapse)

interpretation fd_read_all: descriptor_operation "\<lambda>S st. Some (snd (TcpReadAll S n st))"
  by unfold_locales (metis TcpReadAll_def read_all_loop_fds owns_fd_same option.inject prod.collapse snd_conv)

lemma TcpWrite_fds:
  assumes "tracks_fds S tab"
  shows "tab (fst (snd (TcpWrite S buf st))) = tab (fst st) \<and> snd (snd (TcpWrite S buf st)) = snd st"
proof -
  obtain w s where st: "st = (w, s)" by (cases st)
  obtain n v where snd: "sys_send S (m_iSockfd s) buf w = (n, v)" by (metis surj_pair)
  obtain t u where loop: "write_loop S (m_iSockfd s) buf (nat n) 0 v = (t, u)" by (metis surj_pair)
  from tracks_fds_calls(5) [OF assms snd] write_loop_fds [OF loop assms] show ?thesis
    by (simp add: st TcpWrite_def snd loop)
qed

interpretation fd_write: descriptor_operation "\<lambda>S st. Some (snd (TcpWrite S buf st))"
  by unfold_locales (metis TcpWrite_fds owns_fd_same option.inject)

lemma TcpClose_owns:
  assumes "tracks_fds S tab" "owns_fd tab others st"
  shows "owns_fd tab others (TcpClose S st)"
proof -
  obtain w s where st: "st = (w, s)" by (cases st)
  obtain r v where opt: "sys_setsockopt S (m_iSockfd s) SO_LINGER w = (r, v)" by (metis surj_pair)
  from assms(2) tracks_fds_calls(2) [OF assms(1) opt] tracks_fds_calls(1) [OF assms(1)] show ?thesis
    by (auto simp: st TcpClose_def owns_fd_def opt split: if_splits)
qed

interpretation fd_close: descriptor_operation "\<lambda>S st. Some (TcpClose S st)"
  by unfold_locales (metis TcpClose_owns option.inject)

lemma TcpCloseFinal_owns:
  assumes "tracks_fds S tab" "owns_fd tab others st"
  shows "owns_fd tab others (TcpCloseFinal S st)"
proof -
  obtain w s where st: "st = (w, s)" by (cases st)
  obtain r v where opt: "sys_setsockopt S (m_iSockfd s) SO_LINGER w = (r, v)" by (metis surj_pair)
  from assms(2) tracks_fds_calls(2) [OF assms(1) opt] tracks_fds_calls(1) [OF assms(1)] show ?thesis
    by (auto simp: st TcpCloseFinal_def owns_fd_def opt split: if_splits)
qed

interpretation fd_close_final: descriptor_operation "\<lambda>S st. Some (TcpCloseFinal S st)"
  by unfold_locales (metis TcpCloseFinal_owns option.inject)

interpretation fd_reconnect: descriptor_operation "\<lambda>S st. Some (snd (TcpReconnect S st))"
proof
  fix S :: "'w sys" and tab others st st'
  assume *: "tracks_fds S tab" "owns_fd tab others st" "Some (snd (TcpReconnect S st)) = Some st'"
  obtain w s where st: "st = (w, s)" by (cases st)
  obtain fd v where sock: "sys_socket S (sys_close S (m_iSockfd s) w) = (fd, v)" by (metis surj_pair)
  let ?s = "s\<lparr>m_bConnect := False, m_iSockfd := fd\<rparr>"
  have new: "owns_fd tab others (v, ?s)"
    using *(2) tracks_fds_socket [OF *(1) sock] tracks_fds_calls(1) [OF *(1)]
    unfolding st by (auto simp: owns_fd_def split: if_splits)
  have "owns_fd tab others (snd (TcpConnect S (v, ?s)))" "owns_fd tab others (snd (TcpConnect S (w, s)))"
    using fd_connect.keeps_descriptors [OF *(1)] new *(2) st by auto
  with new * sock show "owns_fd tab others st'"
    unfolding st by (auto simp: TcpReconnect_def Let_def split: if_splits)
qed

lemma TcpSslInitParams_fds:
  "tracks_fds S tab \<Longrightarrow> tab (fst (TcpSslInitParams S st)) = tab (fst st) \<and> m_iSockfd (snd (TcpSslInitParams S st)) = m_iSockfd (snd st)"
  by (cases st) (simp add: TcpSslInitParams_def tracks_fds_calls(6))

lemma TcpSslInitEnv_fds:
  assumes "tracks_fds S tab"
  shows "tab (fst (snd (TcpSslInitEnv S st))) = tab (fst st) \<and> m_iSockfd (snd (snd (TcpSslInitEnv S st))) = m_iSockfd (snd st)"
proof -
  obtain w s where st: "st = (w, s)" by (cases st)
  obtain c v where ctx: "SSL_CTX_new S w = (c, v)" by (metis surj_pair)
  obtain k u where con: "SSL_new S c v = (k, u)" by (metis surj_pair)
  from tracks_fds_calls(7) [OF assms ctx] tracks_fds_calls(8) [OF assms con] show ?thesis
    by (simp add: st TcpSslInitEnv_def ctx con)
qed

lemma TcpSslConnect_fds:
  assumes "tracks_fds S tab"
  shows "tab (fst (snd (TcpSslConnect S st))) = tab (fst st) \<and> snd (snd (TcpSslConnect S st)) = snd st"
proof -
  obtain w s where st: "st = (w, s)" by (cases st)
  obtain c v where set: "SSL_set_fd S (m_ssl s) (m_iSockfd s) w = (c, v)" by (metis surj_pair)
  obtain k u where con: "SSL_connect S (m_ssl s) v = (k, u)" by (metis surj_pair)
  from tracks_fds_calls(9) [OF assms set] tracks_fds_calls(10) [OF assms con] show ?thesis
    by (simp add: st TcpSslConnect_def set con)
qed

lemma TcpSslReadLen_fds:
  assumes "tracks_fds S tab"
  shows "tab (fst (snd (TcpSslReadLen S n st))) = tab (fst st) \<and> snd (snd (TcpSslReadLen S n st)) = snd st"
proof -
  obtain w s where st: "st = (w, s)" by (cases st)
  obtain c b v where rd: "SSL_read S (m_ssl s) n w = (c, b, v)" by (metis surj_pair)
  from tracks_fds_calls(11) [OF assms rd] show ?thesis by (simp add: st TcpSslReadLen_def rd)
qed

lemma TcpSslWriteLen_fds:
  "tracks_fds S tab \<Longrightarrow> TcpSslWriteLen S buf st = Some (m, st') \<Longrightarrow> tab (fst st') = tab (fst st) \<and> snd st' = snd st"
  by (cases st) (auto simp: TcpSslWriteLen_def dest: ssl_write_loop_fds split: option.splits)

interpretation fd_ssl_params: descriptor_operation "\<lambda>S st. Some (TcpSslInitParams S st)"
  by unfold_locales (metis TcpSslInitParams_fds owns_fd_same option.inject)

interpretation fd_ssl_env: descriptor_operation "\<lambda>S st. Some (snd (TcpSslInitEnv S st))"
  by unfold_locales (metis TcpSslInitEnv_fds owns_fd_same option.inject)

interpretation fd_ssl_connect: descriptor_operation "\<lambda>S st. Some (snd (TcpSslConnect S st))"
  by unfold_locales (metis TcpSslConnect_fds owns_fd_same option.inject)

interpretation fd_ssl_read: descriptor_operation "\<lambda>S st. Some (snd (TcpSslReadLen S n st))"
  by unfold_locales (metis TcpSslReadLen_fds owns_fd_same option.inject)

interpretation fd_ssl_write: descriptor_operation "\<lambda>S st. map_option snd (TcpSslWriteLen S buf st)"
  by unfold_locales (auto dest!: TcpSslWriteLen_fds elim!: owns_fd_same)

lemma TcpSslDestroy_owns:
  assumes "tracks_fds S tab" "owns_fd tab others st"
  shows "owns_fd tab others (TcpSslDestroy S st)"
proof -
  obtain w s where st: "st = (w, s)" by (cases st)
  let ?v = "SSL_free S (m_ssl s) (SSL_shutdown S (m_ssl s) w)"
  have "owns_fd tab others (?v, s)"
    using assms(2) by (rule owns_fd_same) (simp_all add: st tracks_fds_calls(13,14) [OF assms(1)])
  from TcpClose_owns [OF assms(1) this] show ?thesis
    by (cases "TcpClose S (?v, s)")
       (auto simp: st TcpSslDestroy_def Let_def tracks_fds_calls(15) [OF assms(1)] elim!: owns_fd_same)
qed

interpretation fd_ssl_destroy: descriptor_operation "\<lambda>S st. Some (TcpSslDestroy S st)"
  by unfold_locales (metis TcpSslDestroy_owns option.inject)

section \<open>Properties\<close>

text \<open>
  C11. \<open>TcpWrite\<close> puts on the wire a prefix of the buffer and nothing else, all of it when it returns
  true; on a connection whose \<open>send\<close> always takes at least one byte it does return true.
\<close>

theorem tcp_write_delivers:
  assumes "sends_into S out" "TcpWrite S buf (w, s) = (b, w', s')" "buf \<noteq> []"
  shows "s' = s \<and>
    (\<exists>k \<le> length buf. out (m_iSockfd s) w' = out (m_iSockfd s) w @ take k buf \<and> (b \<longrightarrow> k = length buf)) \<and>
    ((\<forall>c v. c \<noteq> [] \<longrightarrow> 0 < fst (sys_send S (m_iSockfd s) c v)) \<longrightarrow> b)"
  using TcpWrite_delivers [OF assms(1,2)] TcpWrite_patient [OF assms(1) _ assms(3), of s w] assms(2)
  by auto

text \<open>
  A small operating system: the world is the bytes sent, the bytes still to be received and the
  open descriptors; \<open>send\<close> takes two bytes at a time, \<open>recv\<close> gives three. \<open>SSL_write\<close> takes two
  bytes, then asks to be tried again once, then takes everything.
\<close>

record toy =
  toy_out :: string
  toy_in :: string
  toy_fds :: "int set"
  toy_tls :: nat

definition toy_sys :: "toy sys" where
  "toy_sys =
     \<lparr>sys_socket = (\<lambda>w. if toy_fds w = {} then (3, w\<lparr>toy_fds := {3}\<rparr>) else (-1, w)),
      sys_close = (\<lambda>fd w. w\<lparr>toy_fds := toy_fds w - {fd}\<rparr>),
      sys_setsockopt = (\<lambda>_ _ w. (0, w)), sys_bind = (\<lambda>_ _ _ w. (0, w)), sys_listen = (\<lambda>_ _ w. (0, w)),
      sys_accept = (\<lambda>_ w. (-1, w)), sys_select = (\<lambda>_ _ w. (0, False, w)), sys_connect = (\<lambda>_ _ _ w. (0, w)),
      sys_recv = (\<lambda>_ n w. (Received (take (min n 3) (toy_in w)), w\<lparr>toy_in := drop (min n 3) (toy_in w)\<rparr>)),
      sys_send = (\<lambda>_ b w. (int (min 2 (length b)), w\<lparr>toy_out := toy_out w @ take 2 b\<rparr>)),
      sys_getpeername = (\<lambda>_ _. None), sys_getsockname = (\<lambda>_ _. None), sys_setfl_nonblock = (\<lambda>_ w. (0, w)),
      SSL_library_init = (\<lambda>w. w), SSL_CTX_new = (\<lambda>w. (Some 1, w)), SSL_new = (\<lambda>_ w. (Some 2, w)),
      SSL_set_fd = (\<lambda>_ _ w. (1, w)), SSL_connect = (\<lambda>_ w. (1, w)),
      SSL_read = (\<lambda>_ n w. (int (length (take n (toy_in w))), take n (toy_in w), w\<lparr>toy_in := drop n (toy_in w)\<rparr>)),
      SSL_write = (\<lambda>_ b w.
        (if toy_tls w = 0 then (int (min 2 (length b)), SSL_ERROR_NONE, w\<lparr>toy_out := toy_out w @ take 2 b, toy_tls := 1\<rparr>)
         else if toy_tls w = 1 then (-1, SSL_ERROR_WANT_WRITE, w\<lparr>toy_tls := 2\<rparr>)
         else (int (length b), SSL_ERROR_NONE, w\<lparr>toy_out := toy_out w @ b\<rparr>))),
      SSL_shutdown = (\<lambda>_ w. w), SSL_free = (\<lambda>_ w. w), SSL_CTX_free = (\<lambda>_ w. w)\<rparr>"

definition toy_world :: "string \<Rightarrow> toy" where
  "toy_world input = \<lparr>toy_out = [], toy_in = input, toy_fds = {}, toy_tls = 0\<rparr>"

definition toy_socket :: CTcpSocket where
  "toy_socket = new_accepted 3 300000"

lemma toy_sends_into: "sends_into toy_sys (\<lambda>_. toy_out)"
  by (auto simp: sends_into_def toy_sys_def min_def)

lemma toy_takes_lines: "takes_lines toy_sys (\<lambda>_. toy_out)"
  by (auto simp: takes_lines_def toy_sends_into) (auto simp: toy_sys_def)

lemma toy_receives_from: "receives_from toy_sys (\<lambda>_. toy_in)"
  by (auto simp: receives_from_def toy_sys_def)

definition toy_tab :: "toy \<Rightarrow> int \<rightharpoonup> bool" where
  "toy_tab w = (\<lambda>fd. if fd \<in> toy_fds w \<and> 0 \<le> fd then Some False else None)"

lemma toy_tracks_fds: "tracks_fds toy_sys toy_tab"
  by (auto simp: tracks_fds_def toy_sys_def toy_tab_def fun_eq_iff)

theorem tcp_write_delivers_witness:
  "toy_out (fst (snd (TcpWrite toy_sys ''hello'' (toy_world [], toy_socket)))) = ''hello''"
proof -
  obtain b w s where wr: "TcpWrite toy_sys ''hello'' (toy_world [], toy_socket) = (b, w, s)"
    by (metis surj_pair)
  have "\<forall>c v. c \<noteq> [] \<longrightarrow> 0 < fst (sys_send toy_sys (m_iSockfd toy_socket) c v)"
    by (simp add: toy_sys_def)
  with tcp_write_delivers [OF toy_sends_into wr] have "toy_out w = ''hello''"
    by (auto simp: toy_world_def)
  then show ?thesis by (simp add: wr)
qed





end
