(* ===== verification/DataHub.thy ===== *)
theory DataHub
  imports Task TcpSocket
begin

text \<open>
  The client of the DataHub service in \<open>src/UserQueryTask/TaskMain/TaskMain.cpp\<close> (lines 667 to 928):
  checking a user's token, fetching the gateway's own token, reading and updating orders. What is
  not in the repository is a parameter: the operating system and OpenSSL (\<open>'w sys\<close>), hiredis
  (\<open>'w hiredis\<close>), the environment, the clock and jsoncpp (\<open>'j json\<close>).

  An \<open>option\<close> result is \<open>None\<close> when the call has no defined outcome: an exception leaves the thread,
  a buffer is overrun, a null pointer is read or a loop does not end.
\<close>

section \<open>What the gateway is linked against\<close>

text \<open>
  \<open>json_parse\<close> is \<open>Json::Reader::parse\<close>; \<open>json_field\<close> and \<open>json_index\<close> are \<open>operator[]\<close>, \<open>None\<close> where
  jsoncpp asserts that the value is an object or an array; \<open>json_styled\<close> is \<open>toStyledString\<close>.
\<close>

record 'j json =
  json_parse :: "string \<Rightarrow> 'j option"
  json_field :: "'j \<Rightarrow> string \<Rightarrow> 'j option"
  json_index :: "'j \<Rightarrow> nat \<Rightarrow> 'j option"
  json_size :: "'j \<Rightarrow> nat"
  json_styled :: "'j \<Rightarrow> string"

record ('w, 'j) env =
  e_sys :: "'w sys"
  e_redis :: "'w hiredis"
  e_getenv :: "string \<Rightarrow> string option"
  e_now :: "'w \<Rightarrow> tm"
  e_json :: "'j json"

text \<open>The state a task works on: its own members and the globals of its thread.\<close>

record 'w gateway =
  g_world :: 'w
  InitSSLFlag :: int
  m_sRegion :: string
  m_pDataRedis :: CDataAdapter
  m_vecReport :: report
  m_vecHiveLog :: "HIVELOCALLOG_S list"
  g_strDataHubToken :: string
  m_httpType :: int
  m_pclSock :: "CTcpSocket option"

section \<open>Buffers and bodies\<close>

text \<open>\<open>sprintf\<close> into an array of \<open>n\<close> characters, and the text of an array that holds \<open>bs\<close> after zeros.\<close>

definition sprintf_into :: "nat \<Rightarrow> string \<Rightarrow> string option" where
  "sprintf_into n s = (if length s < n then Some s else None)"

definition buffer_text :: "nat \<Rightarrow> string \<Rightarrow> string option" where
  "buffer_text n bs = (if length (cstr bs) < n then Some (cstr bs) else None)"

abbreviation HEADER_END :: string where "HEADER_END \<equiv> CRLF @ CRLF"

text \<open>\<open>substr\<close> with \<open>int\<close> arguments: a negative length, converted to \<open>size_t\<close>, reaches to the end.\<close>

definition substr_int :: "string \<Rightarrow> int \<Rightarrow> int \<Rightarrow> string option" where
  "substr_int s pos n =
     (if pos < 0 then None else if n < 0 then str_substr_end s (nat pos) else str_substr s (nat pos) (nat n))"

text \<open>
  The body of an answer. Of a chunked one the first chunk is taken, with one character too many;
  \<open>find\<close> returning \<open>npos\<close> makes \<open>npos + 4\<close> wrap to 3.
\<close>

definition first_chunk :: "string \<Rightarrow> string option" where
  "first_chunk s =
     (let from = (case str_find s HEADER_END 0 of Some i \<Rightarrow> i + 4 | None \<Rightarrow> 3);
          itrunkStart = pos_int (str_find s CRLF from);
          itrunkEnd = pos_int (str_find s CRLF (nat (itrunkStart + 1)))
      in substr_int s (itrunkStart + 2) (itrunkEnd - itrunkStart - 1))"

definition after_header :: "string \<Rightarrow> string" where
  "after_header s =
     (case str_find s HEADER_END 0 of Some i \<Rightarrow> take (length s - (i + 4)) (drop (i + 4) s) | None \<Rightarrow> s)"

definition http_body :: "string \<Rightarrow> string option" where
  "http_body s =
     (if str_find s ''Transfer-Encoding: chunked'' 0 \<noteq> None then first_chunk s else Some (after_header s))"

section \<open>One exchange\<close>

text \<open>The request of each type: 1 verify token, 2 get token, 3 get order, 4 and 5 update order.\<close>

definition put_subscription :: "string \<Rightarrow> string \<Rightarrow> string \<Rightarrow> string \<Rightarrow> string" where
  "put_subscription subid datahubIP token content =
     ''PUT /api/subscription/'' @ cstr subid @ '' HTTP/1.1'' @ CRLF @ ''Host: '' @ datahubIP @ CRLF @
     ''Authorization: Token '' @ cstr token @ CRLF @ ''Content-Length: '' @ show_nat (length content) @ CRLF @
     ''Accept: application/json; charset=utf-8'' @ HEADER_END @ content"

definition quoted :: "string \<Rightarrow> string \<Rightarrow> string" where
  "quoted key val = [CHR 0x22] @ key @ [CHR 0x22] @ '':'' @ [CHR 0x22] @ cstr val @ [CHR 0x22]"

definition datahub_request :: "string \<Rightarrow> string \<Rightarrow> string \<Rightarrow> string \<Rightarrow> string \<Rightarrow> string \<Rightarrow> string \<Rightarrow> string \<Rightarrow>
    int \<Rightarrow> int \<Rightarrow> string option" where
  "datahub_request datahubIP datahubAdminAuth region AuthUser AuthToken repo item subid used type =
     (if type = 1 then
        sprintf_into 8192
          (''GET /api/valid HTTP/1.1'' @ CRLF @ ''Host: '' @ datahubIP @ CRLF @
           ''Authorization:Token '' @ cstr AuthToken @ CRLF @
           ''Authuser: '' @ cstr (url_decode AuthUser) @ HEADER_END)
      else if type = 2 then
        sprintf_into 8192
          (''GET /api/ HTTP/1.1'' @ CRLF @ ''Host: '' @ datahubIP @ CRLF @
           ''Authorization: Basic '' @ datahubAdminAuth @ HEADER_END)
      else if type = 3 then
        sprintf_into 8192
          (''GET /api/subscriptions/pull/'' @ cstr repo @ ''/'' @ cstr item @ ''?username='' @
           cstr (region @ ''%2B'' @ AuthUser) @ '' HTTP/1.1'' @ CRLF @ ''Host: '' @ datahubIP @ CRLF @
           ''Accept: application/json; charset=utf-8'' @ CRLF @
           ''Authorization: Token '' @ cstr AuthToken @ HEADER_END)
      else if type = 4 \<or> type = 5 then
        (let username = region @ ''+'' @ cstr (url_decode AuthUser);
             action = (if type = 4 then quoted ''action'' ''set_retrieved''
                       else quoted ''action'' ''set_plan_used'' @ '','' @ [CHR 0x22] @ ''used'' @ [CHR 0x22] @ '':'' @ show_int used);
             content = ''{'' @ action @ '','' @ quoted ''repname'' repo @ '','' @ quoted ''itemname'' item @ '','' @
               quoted ''username'' username @ ''}''
         in case sprintf_into 1024 content of
              None \<Rightarrow> None
            | Some content \<Rightarrow> sprintf_into 8192 (put_subscription subid datahubIP AuthToken content))
      else Some [])"

text \<open>The global flag guards \<open>SSL_library_init\<close>; it is tested and set under a mutex.\<close>

definition ssl_init_once :: "'w sys \<Rightarrow> int \<Rightarrow> 'w sockstate \<Rightarrow> int \<times> 'w sockstate" where
  "ssl_init_once S flag st = (if flag = 0 then (1, TcpSslInitParams S st) else (flag, st))"

definition ssl_exchange :: "'w sys \<Rightarrow> string \<Rightarrow> 'w sockstate \<Rightarrow> (string \<times> 'w sockstate) option" where
  "ssl_exchange S request st =
     (let (_, st) = TcpSslInitEnv S st; (connected, st) = TcpSslConnect S st
      in if \<not> connected then Some ([], TcpSslDestroy S st)
         else case TcpSslWriteLen S request st of
           None \<Rightarrow> None
         | Some (n, st) \<Rightarrow>
             if n = 0 then Some ([], TcpSslDestroy S st)
             else let ((_, bs), st) = TcpSslReadLen S 8192 st
                  in case buffer_text 8192 bs of
                       None \<Rightarrow> None
                     | Some t \<Rightarrow>
                         if t = [] then Some ([], TcpSslDestroy S st)
                         else (case http_body t of
                                 None \<Rightarrow> None
                               | Some body \<Rightarrow> Some (body, TcpSslDestroy S st)))"

definition hub_exchange :: "'w sys \<Rightarrow> u16 \<Rightarrow> string \<Rightarrow> string \<Rightarrow> int \<Rightarrow> 'w \<Rightarrow> (string \<times> int \<times> 'w sockstate) option" where
  "hub_exchange S port ip request flag w =
     (case new_CTcpSocket S port ip 300000 w of
        None \<Rightarrow> None
      | Some st \<Rightarrow>
          let (r, st) = TcpConnect S st
          in if r = 0 then
               (let (flag, st) = ssl_init_once S flag st
                in case ssl_exchange S request st of
                     None \<Rightarrow> None
                   | Some (text, st) \<Rightarrow> Some (text, flag, st))
             else Some ([], flag, TcpClose S st))"

definition BdxGetDatafromDataHub :: "('w, 'j) env \<Rightarrow> string \<Rightarrow> string \<Rightarrow> string \<Rightarrow> string \<Rightarrow> string \<Rightarrow> int \<Rightarrow> int \<Rightarrow>
    'w gateway \<Rightarrow> (string \<times> 'w gateway) option" where
  "BdxGetDatafromDataHub E AuthUser AuthToken repo item subid used type g =
     (case (e_getenv E ''DATAHUB_IP'', e_getenv E ''DATAHUB_PORT'', e_getenv E ''ADMIN_AUTH'') of
        (Some datahubIP, Some port, Some datahubAdminAuth) \<Rightarrow>
          (case datahub_request datahubIP datahubAdminAuth (m_sRegion g) AuthUser AuthToken repo item subid used type of
             None \<Rightarrow> None
           | Some request \<Rightarrow>
               (case hub_exchange (e_sys E) (word_of_int (atoi port)) datahubIP (cstr request) (InitSSLFlag g) (g_world g) of
                  None \<Rightarrow> None
                | Some (text, flag, w, s) \<Rightarrow> Some (text, g\<lparr>g_world := w, InitSSLFlag := flag\<rparr>)))
      | _ \<Rightarrow> None)"

section \<open>What the answers mean\<close>

abbreviation MSG_OK :: string where
  "MSG_OK \<equiv> [CHR 0x22] @ ''msg'' @ [CHR 0x22] @ '': '' @ [CHR 0x22] @ ''OK'' @ [CHR 0x22]"
abbreviation MSG_OK_tight :: string where
  "MSG_OK_tight \<equiv> [CHR 0x22] @ ''msg'' @ [CHR 0x22] @ '':'' @ [CHR 0x22] @ ''OK'' @ [CHR 0x22]"

text \<open>The region is the string between the first two quotes of the styled text.\<close>

definition region_of :: "string \<Rightarrow> string option" where
  "region_of styled =
     (let iSecond = pos_int (str_find styled [CHR 0x22] 1) in substr_int styled 1 (iSecond - 1))"

definition hub_region :: "'j json \<Rightarrow> string \<Rightarrow> string \<Rightarrow> string option" where
  "hub_region J retDataHub region =
     (case json_parse J retDataHub of
        None \<Rightarrow> Some region
      | Some jValue \<Rightarrow>
          (case json_field J jValue ''data'' of
             None \<Rightarrow> None
           | Some jData \<Rightarrow>
               (case json_parse J (json_styled J jData) of
                  None \<Rightarrow> Some region
                | Some jValueData \<Rightarrow>
                    (case json_field J jValueData ''sregion'' of
                       None \<Rightarrow> None
                     | Some r \<Rightarrow> region_of (json_styled J r)))))"

definition BdxVerifyDataHubToken :: "('w, 'j) env \<Rightarrow> string \<Rightarrow> string \<Rightarrow> 'w gateway \<Rightarrow> (int \<times> 'w gateway) option" where
  "BdxVerifyDataHubToken E AuthUser AuthToken g =
     (case BdxGetDatafromDataHub E AuthUser AuthToken [] [] [] 0 1 g of
        None \<Rightarrow> None
      | Some (retDataHub, g) \<Rightarrow>
          if str_find retDataHub MSG_OK 0 \<noteq> None
          then (case hub_region (e_json E) retDataHub (m_sRegion g) of
                  None \<Rightarrow> None
                | Some r \<Rightarrow> Some (1, g\<lparr>m_sRegion := r\<rparr>))
          else Some (0, g))"

text \<open>32 characters at a fixed distance behind the word \<open>token\<close>; \<open>npos + 9\<close> wraps to 8.\<close>

definition token_in :: "string \<Rightarrow> string option" where
  "token_in s = (case str_find s ''token'' 0 of Some i \<Rightarrow> str_substr s (i + 9) 32 | None \<Rightarrow> str_substr s 8 32)"

definition token_if_ok :: "(string \<times> 'w gateway) option \<Rightarrow> (string \<times> 'w gateway) option" where
  "token_if_ok r =
     (case r of
        None \<Rightarrow> None
      | Some (retDataHub, g) \<Rightarrow>
          if str_find retDataHub MSG_OK 0 \<noteq> None
          then (case token_in retDataHub of None \<Rightarrow> None | Some t \<Rightarrow> Some (t, g))
          else Some ([], g))"

definition BdxApiGateWayGetDataHubToken :: "('w, 'j) env \<Rightarrow> 'w gateway \<Rightarrow> (string \<times> 'w gateway) option" where
  "BdxApiGateWayGetDataHubToken E g = token_if_ok (BdxGetDatafromDataHub E [] [] [] [] [] 0 2 g)"

definition BdxApiSetUserOrderStatus :: "('w, 'j) env \<Rightarrow> string \<Rightarrow> string \<Rightarrow> string \<Rightarrow> string \<Rightarrow> string \<Rightarrow> 'w gateway \<Rightarrow>
    (bool \<times> 'w gateway) option" where
  "BdxApiSetUserOrderStatus E user subid repo item token g =
     (case BdxGetDatafromDataHub E user token repo item subid 0 4 g of
        None \<Rightarrow> None
      | Some (retDataHub, g) \<Rightarrow> Some (str_find retDataHub MSG_OK_tight 0 \<noteq> None, g))"

definition BdxApiUpdateUserOrder :: "('w, 'j) env \<Rightarrow> string \<Rightarrow> string \<Rightarrow> string \<Rightarrow> string \<Rightarrow> string \<Rightarrow> int \<Rightarrow>
    'w gateway \<Rightarrow> (string \<times> 'w gateway) option" where
  "BdxApiUpdateUserOrder E user subid repo item token used g =
     token_if_ok (BdxGetDatafromDataHub E user token repo item subid used 5 g)"

text \<open>The orders in phase 1, read back from the styled text of each value (\<open>atol\<close>, then \<open>%ld\<close>).\<close>

definition styled_number :: "'j json \<Rightarrow> 'j \<Rightarrow> string \<Rightarrow> string option" where
  "styled_number J v key = map_option (\<lambda>x. show_int (atol (json_styled J x))) (json_field J v key)"

definition read_order :: "'j json \<Rightarrow> 'j \<Rightarrow> DATAHUB_ORDER_INFO_S list option" where
  "read_order J v =
     (case json_field J v ''phase'' of
        None \<Rightarrow> None
      | Some phase \<Rightarrow>
          if json_styled J phase \<noteq> ''1'' @ [CTRL_N] then Some []
          else (case (styled_number J v ''subscriptionid'', json_field J v ''plan'') of
                  (Some subid, Some plan) \<Rightarrow>
                    (case json_parse J (json_styled J plan) of
                       None \<Rightarrow> Some []
                     | Some jValue2 \<Rightarrow>
                         (case (styled_number J jValue2 ''units'', styled_number J jValue2 ''expire'') of
                            (Some units, Some expire) \<Rightarrow>
                              Some [\<lparr>m_expireTime = expire, m_subscriptionID = subid, m_units = units\<rparr>]
                          | _ \<Rightarrow> None))
                | _ \<Rightarrow> None))"

fun read_orders :: "'j json \<Rightarrow> 'j \<Rightarrow> nat list \<Rightarrow> DATAHUB_ORDER_INFO_S list option" where
  "read_orders J jValue [] = Some []"
| "read_orders J jValue (i # is) =
     (case json_index J jValue i of
        None \<Rightarrow> None
      | Some v \<Rightarrow>
          (case (read_order J v, read_orders J jValue is) of
             (Some os, Some os') \<Rightarrow> Some (os @ os')
           | _ \<Rightarrow> None))"

text \<open>Descends into a field by printing and parsing it again; \<open>Some None\<close> when the text does not parse.\<close>

definition reparse_field :: "'j json \<Rightarrow> 'j \<Rightarrow> string \<Rightarrow> 'j option option" where
  "reparse_field J v key =
     (case json_field J v key of None \<Rightarrow> None | Some x \<Rightarrow> Some (json_parse J (json_styled J x)))"

definition hub_orders :: "'j json \<Rightarrow> string \<Rightarrow> DATAHUB_ORDER_INFO_S list option" where
  "hub_orders J retDataHub =
     (case json_parse J retDataHub of
        None \<Rightarrow> Some []
      | Some jValue \<Rightarrow>
          (case reparse_field J jValue ''data'' of
             None \<Rightarrow> None
           | Some None \<Rightarrow> Some []
           | Some (Some jValue) \<Rightarrow>
               (case reparse_field J jValue ''results'' of
                  None \<Rightarrow> None
                | Some None \<Rightarrow> Some []
                | Some (Some jValue) \<Rightarrow> read_orders J jValue [0..<json_size J jValue])))"

definition BdxApiGetUserOrder :: "('w, 'j) env \<Rightarrow> string \<Rightarrow> string \<Rightarrow> string \<Rightarrow> string \<Rightarrow> 'w gateway \<Rightarrow>
    (DATAHUB_ORDER_INFO_S list \<times> 'w gateway) option" where
  "BdxApiGetUserOrder E repo item user apitoken g =
     (case BdxGetDatafromDataHub E user apitoken repo item [] 0 3 g of
        None \<Rightarrow> None
      | Some (retDataHub, g) \<Rightarrow>
          if str_find retDataHub MSG_OK_tight 0 \<noteq> None
          then (case hub_orders (e_json E) retDataHub of None \<Rightarrow> None | Some os \<Rightarrow> Some (os, g))
          else Some ([], g))"

section \<open>Descriptors of an exchange\<close>

lemma ssl_keeps_connect:
  "m_bConnect (snd (TcpSslInitParams S st)) = m_bConnect (snd st)"
  "m_bConnect (snd (snd (TcpSslInitEnv S st))) = m_bConnect (snd st)"
  "m_bConnect (snd (snd (TcpSslConnect S st))) = m_bConnect (snd st)"
  "m_bConnect (snd (snd (TcpSslReadLen S n st))) = m_bConnect (snd st)"
  "TcpSslWriteLen S buf st = Some (m, st') \<Longrightarrow> m_bConnect (snd st') = m_bConnect (snd st)"
  by (cases st; auto simp: TcpSslInitParams_def TcpSslInitEnv_def TcpSslConnect_def TcpSslReadLen_def
      TcpSslWriteLen_def split: prod.splits option.splits)+

lemma TcpSslDestroy_closed: "m_bConnect (snd st) \<Longrightarrow> m_iSockfd (snd (TcpSslDestroy S st)) = -1"
  by (cases st) (auto simp: TcpSslDestroy_def TcpClose_def Let_def split: prod.splits if_splits)

lemma ssl_exchange_closes:
  assumes tr: "tracks_fds S tab" and own: "owns_fd tab others st" and con: "m_bConnect (snd st)"
    and ex: "ssl_exchange S request st = Some (t, st')"
  shows "owns_fd tab others st' \<and> m_iSockfd (snd st') = -1"
proof -
  obtain a st1 where i: "TcpSslInitEnv S st = (a, st1)" by (metis surj_pair)
  obtain ok st2 where c: "TcpSslConnect S st1 = (ok, st2)" by (metis surj_pair)
  have 1: "owns_fd tab others st1" "m_bConnect (snd st1)"
    using fd_ssl_env.keeps_descriptors [OF tr own] ssl_keeps_connect(2) [of S st] con i by auto
  have 2: "owns_fd tab others st2" "m_bConnect (snd st2)"
    using fd_ssl_connect.keeps_descriptors [OF tr 1(1)] ssl_keeps_connect(3) [of S st1] 1(2) c by auto
  have fin: "owns_fd tab others (TcpSslDestroy S st0) \<and> m_iSockfd (snd (TcpSslDestroy S st0)) = -1"
    if "owns_fd tab others st0" "m_bConnect (snd st0)" for st0
    using that TcpSslDestroy_owns [OF tr] TcpSslDestroy_closed by blast
  show ?thesis
  proof (cases "TcpSslWriteLen S request st2")
    case None
    with ex i c fin [OF 2] show ?thesis by (auto simp: ssl_exchange_def split: if_splits)
  next
    case (Some p)
    obtain n st3 where w: "TcpSslWriteLen S request st2 = Some (n, st3)" using Some by (cases p) simp
    obtain r st4 where rd: "TcpSslReadLen S 8192 st3 = (r, st4)" by (metis surj_pair)
    have 3: "owns_fd tab others st3" "m_bConnect (snd st3)"
      using fd_ssl_write.keeps_descriptors [OF tr 2(1), of request st3] ssl_keeps_connect(5) [OF w] 2(2) w by auto
    have 4: "owns_fd tab others st4" "m_bConnect (snd st4)"
      using fd_ssl_read.keeps_descriptors [OF tr 3(1), of 8192 st4] ssl_keeps_connect(4) [of S 8192 st3] 3(2) rd by auto
    from ex have "st' = TcpSslDestroy S st2 \<or> st' = TcpSslDestroy S st3 \<or> st' = TcpSslDestroy S st4"
      by (auto simp: ssl_exchange_def i c w rd split: if_splits option.splits prod.splits)
    with fin [OF 2] fin [OF 3] fin [OF 4] show ?thesis by auto
  qed
qed

lemma new_CTcpSocket_owns:
  assumes "tracks_fds S tab" "new_CTcpSocket S port ip t w = Some (w', s)"
  shows "owns_fd tab (tab w) (w', s) \<and> \<not> m_bConnect s \<and> m_iSockfd s \<noteq> -1"
proof -
  obtain fd v where sock: "sys_socket S w = (fd, v)" by (metis surj_pair)
  with assms(2) have s: "fd \<noteq> -1" "w' = v" "m_iSockfd s = fd" "\<not> m_bConnect s"
    by (auto simp: new_CTcpSocket_def split: if_splits)
  with tracks_fds_socket [OF assms(1) sock] have "0 \<le> fd" "tab w fd = None" "tab v = (tab w)(fd \<mapsto> False)" by auto
  with s tracks_fds_none [OF assms(1), of w] show ?thesis by (simp add: owns_fd_def)
qed

lemma TcpConnect_connect:
  "TcpConnect S st = (r, st') \<Longrightarrow> m_bConnect (snd st') = (if r = 0 then True else m_bConnect (snd st))"
  by (cases st) (simp add: TcpConnect_def split: prod.splits if_splits, auto)

lemma hub_exchange_descriptors:
  assumes tr: "tracks_fds S tab" and new: "new_CTcpSocket S port ip 300000 w = Some st" and con: "TcpConnect S st = (r, st1)"
    and ex: "hub_exchange S port ip request flag w = Some (text, flag', w', s')"
  shows "tab w' = (if r = 0 then tab w else (tab w)(m_iSockfd (snd st) \<mapsto> False)) \<and> tab w (m_iSockfd (snd st)) = None"
proof -
  obtain w0 s0 where st: "st = (w0, s0)" by (cases st)
  note own = new_CTcpSocket_owns [OF tr new [unfolded st]]
  have own1: "owns_fd tab (tab w) st1" "m_iSockfd (snd st1) = m_iSockfd s0"
    using fd_connect.keeps_descriptors [OF tr, of _ st st1] own con TcpConnect_fds [OF tr con] by (auto simp: st)
  have fresh: "tab w (m_iSockfd s0) = None" using own by (auto simp: owns_fd_def)
  show ?thesis
  proof (cases "r = 0")
    case True
    obtain flag1 st2 where i: "ssl_init_once S flag st1 = (flag1, st2)" by (metis surj_pair)
    have st2: "owns_fd tab (tab w) st2" "m_bConnect (snd st2)"
      using i own1 fd_ssl_params.keeps_descriptors [OF tr own1(1)] TcpConnect_connect [OF con] True
        ssl_keeps_connect(1) [of S st1]
      by (auto simp: ssl_init_once_def split: if_splits)
    from ex have "ssl_exchange S request st2 = Some (text, w', s')"
      by (auto simp: hub_exchange_def new con True i split: option.splits)
    from ssl_exchange_closes [OF tr st2 this] have "tab w' = tab w" by (auto simp: owns_fd_def)
    with True fresh show ?thesis by (simp add: st)
  next
    case False
    then have "TcpClose S st1 = (w', s')" using ex by (auto simp: hub_exchange_def new con)
    moreover have "\<not> m_bConnect (snd st1)" using TcpConnect_connect [OF con] own False st by simp
    ultimately have "owns_fd tab (tab w) (w', s') \<and> m_iSockfd s' = m_iSockfd s0"
      using TcpClose_owns [OF tr own1(1)] own1(2) by (cases st1) (auto simp: TcpClose_def split: prod.splits)
    with own False fresh show ?thesis by (auto simp: st owns_fd_def)
  qed
qed

section \<open>The interface to the rest of the task\<close>

text \<open>
  What a task relies on when it calls the service: its own members stay as they are, and no
  descriptor is closed under it; at most one more is open afterwards.
\<close>

definition grows :: "(int \<rightharpoonup> bool) \<Rightarrow> (int \<rightharpoonup> bool) \<Rightarrow> bool" where
  "grows t t' \<longleftrightarrow> (\<forall>fd. t' fd = t fd \<or> t fd = None \<and> t' fd = Some False)"

lemma grows_refl [simp]: "grows t t"
  by (simp add: grows_def)

lemma grows_trans: "grows t t' \<Longrightarrow> grows t' t'' \<Longrightarrow> grows t t''"
  unfolding grows_def by (metis option.distinct(1))

lemma grows_open: "t fd = None \<Longrightarrow> grows t (t(fd \<mapsto> False))"
  by (simp add: grows_def)

definition same_task :: "'w gateway \<Rightarrow> 'w gateway \<Rightarrow> bool" where
  "same_task g g' \<longleftrightarrow>
     m_pDataRedis g' = m_pDataRedis g \<and> m_vecReport g' = m_vecReport g \<and> m_vecHiveLog g' = m_vecHiveLog g \<and>
     g_strDataHubToken g' = g_strDataHubToken g \<and> m_httpType g' = m_httpType g \<and> m_pclSock g' = m_pclSock g"

locale hub_operation =
  fixes operation :: "('w, 'j) env \<Rightarrow> 'w gateway \<Rightarrow> ('r \<times> 'w gateway) option"
  assumes keeps_task: "operation E g = Some (r, g') \<Longrightarrow> same_task g g'"
    and opens_at_most_one: "tracks_fds (e_sys E) tab \<Longrightarrow> operation E g = Some (r, g') \<Longrightarrow>
      tab (g_world g') = tab (g_world g) \<or>
      (\<exists>fd. tab (g_world g) fd = None \<and> tab (g_world g') = (tab (g_world g))(fd \<mapsto> False))"
begin

lemma closes_nothing:
  "tracks_fds (e_sys E) tab \<Longrightarrow> operation E g = Some (r, g') \<Longrightarrow> grows (tab (g_world g)) (tab (g_world g'))"
  using opens_at_most_one [of E tab g r g'] grows_open by auto

lemma keeps_rest:
  assumes "tracks_fds (e_sys E) tab" "keeps_view (e_sys E) f" "operation E g = Some (r, g')"
  shows "f (g_world g') = f (g_world g)"
proof -
  let ?tab = "framed f (f (g_world g)) tab"
  have "grows (?tab (g_world g)) (?tab (g_world g'))" by (rule closes_nothing [OF framed_tracks [OF assms(1,2)] assms(3)])
  then show ?thesis by (auto simp: grows_def framed_def split: if_splits dest!: spec [of _ "-2"])
qed

end

lemma same_task_refl [simp]: "same_task g g"
  by (simp add: same_task_def)

lemma same_task_trans: "same_task a b \<Longrightarrow> same_task b c \<Longrightarrow> same_task a c"
  by (simp add: same_task_def)

lemma same_task_updates [simp]:
  "same_task g (g'\<lparr>g_world := w\<rparr>) = same_task g g'" "same_task g (g'\<lparr>InitSSLFlag := f\<rparr>) = same_task g g'"
  "same_task g (g'\<lparr>m_sRegion := r\<rparr>) = same_task g g'"
  by (simp_all add: same_task_def)

interpretation hub_data: hub_operation "\<lambda>E. BdxGetDatafromDataHub E user token repo item subid used type"
proof
  fix E :: "('w, 'j) env" and g r g'
  assume "BdxGetDatafromDataHub E user token repo item subid used type g = Some (r, g')"
  then show "same_task g g'" by (auto simp: BdxGetDatafromDataHub_def split: option.splits)
next
  fix E :: "('w, 'j) env" and tab g r g'
  assume *: "tracks_fds (e_sys E) tab"
    "BdxGetDatafromDataHub E user token repo item subid used type g = Some (r, g')"
  then obtain port ip req flag w s where
    ex: "hub_exchange (e_sys E) port ip req (InitSSLFlag g) (g_world g) = Some (r, flag, w, s)"
    and g': "g_world g' = w"
    by (auto simp: BdxGetDatafromDataHub_def split: option.splits)
  from ex obtain st where new: "new_CTcpSocket (e_sys E) port ip 300000 (g_world g) = Some st"
    by (auto simp: hub_exchange_def split: option.splits)
  obtain c st1 where con: "TcpConnect (e_sys E) st = (c, st1)" by (metis surj_pair)
  from hub_exchange_descriptors [OF *(1) new con ex] g'
  show "tab (g_world g') = tab (g_world g) \<or>
      (\<exists>fd. tab (g_world g) fd = None \<and> tab (g_world g') = (tab (g_world g))(fd \<mapsto> False))"
    by (auto split: if_splits)
qed

text \<open>Every other call is one exchange followed by a step that touches neither world nor members.\<close>

lemma hub_operation_of_exchange:
  fixes operation :: "('w, 'j) env \<Rightarrow> 'w gateway \<Rightarrow> ('r \<times> 'w gateway) option"
  assumes "\<And>E g r g'. operation E g = Some (r, g') \<Longrightarrow>
     \<exists>t h. BdxGetDatafromDataHub E user token repo item subid used type g = Some (t, h) \<and>
        same_task h g' \<and> g_world g' = g_world h"
  shows "hub_operation operation"
proof
  fix E :: "('w, 'j) env" and g r g'
  assume "operation E g = Some (r, g')"
  from assms [OF this] show "same_task g g'"
    using hub_data.keeps_task same_task_trans by blast
next
  fix E :: "('w, 'j) env" and tab g r g'
  assume *: "tracks_fds (e_sys E) tab" and "operation E g = Some (r, g')"
  from assms [OF this(2)] hub_data.opens_at_most_one [OF *]
  show "tab (g_world g') = tab (g_world g) \<or>
      (\<exists>fd. tab (g_world g) fd = None \<and> tab (g_world g') = (tab (g_world g))(fd \<mapsto> False))"
    by metis
qed

interpretation hub_verify: hub_operation "\<lambda>E. BdxVerifyDataHubToken E user token"
  by (rule hub_operation_of_exchange)
     (fastforce simp: BdxVerifyDataHubToken_def split: option.splits if_splits)

interpretation hub_token: hub_operation BdxApiGateWayGetDataHubToken
  by (rule hub_operation_of_exchange)
     (fastforce simp: BdxApiGateWayGetDataHubToken_def token_if_ok_def split: option.splits if_splits)

interpretation hub_status: hub_operation "\<lambda>E. BdxApiSetUserOrderStatus E user subid repo item token"
  by (rule hub_operation_of_exchange)
     (fastforce simp: BdxApiSetUserOrderStatus_def split: option.splits)

interpretation hub_update: hub_operation "\<lambda>E. BdxApiUpdateUserOrder E user subid repo item token used"
  by (rule hub_operation_of_exchange)
     (fastforce simp: BdxApiUpdateUserOrder_def token_if_ok_def split: option.splits if_splits)

interpretation hub_order: hub_operation "\<lambda>E. BdxApiGetUserOrder E repo item user token"
  by (rule hub_operation_of_exchange)
     (fastforce simp: BdxApiGetUserOrder_def split: option.splits if_splits)

section \<open>Orders\<close>

text \<open>
  An order as the service means it: phase, subscription, units and days. \<open>has_number\<close> says that a
  field prints as a number on a line of its own.
\<close>

definition has_number :: "'j json \<Rightarrow> 'j \<Rightarrow> string \<Rightarrow> nat \<Rightarrow> bool" where
  "has_number J v key n \<longleftrightarrow>
     n < 2 ^ 63 \<and> (\<exists>x. json_field J v key = Some x \<and> json_styled J x = show_nat n @ [CTRL_N])"

definition describes_order :: "'j json \<Rightarrow> 'j \<Rightarrow> nat \<times> nat \<times> nat \<times> nat \<Rightarrow> bool" where
  "describes_order J v = (\<lambda>(phase, subid, units, expire).
     has_number J v ''phase'' phase \<and> has_number J v ''subscriptionid'' subid \<and>
     (\<exists>plan p. json_field J v ''plan'' = Some plan \<and> json_parse J (json_styled J plan) = Some p \<and>
        has_number J p ''units'' units \<and> has_number J p ''expire'' expire))"

definition order_info :: "nat \<times> nat \<times> nat \<times> nat \<Rightarrow> DATAHUB_ORDER_INFO_S" where
  "order_info = (\<lambda>(phase, subid, units, expire).
     \<lparr>m_expireTime = show_nat expire, m_subscriptionID = show_nat subid, m_units = show_nat units\<rparr>)"

lemma has_number_styled: "has_number J v key n \<Longrightarrow> styled_number J v key = Some (show_nat n)"
proof -
  assume "has_number J v key n"
  then obtain x where x: "n < 2 ^ 63" "json_field J v key = Some x" "json_styled J x = show_nat n @ [CTRL_N]"
    by (auto simp: has_number_def)
  have "atol (show_nat n @ [CTRL_N]) = int n"
    by (rule atol_show_nat_append) (use x(1) in \<open>auto simp: isdigit_def\<close>)
  with x show ?thesis by (simp add: styled_number_def show_int_def)
qed

lemma show_nat_inject: "show_nat n = show_nat m \<longleftrightarrow> n = m"
proof
  assume "show_nat n = show_nat m"
  then have "read_digits (show_nat n @ []) = read_digits (show_nat m @ [])" by simp
  then show "n = m" using read_digits_show_nat_append [of "[]"] by simp
qed simp

lemma has_phase: "has_number J v ''phase'' n \<Longrightarrow>
   \<exists>x. json_field J v ''phase'' = Some x \<and> (json_styled J x = ''1'' @ [CTRL_N] \<longleftrightarrow> n = 1)"
proof -
  have "show_nat 1 = ''1''" by (simp add: show_nat.simps digit_char_def char_of_def bit_0)
  moreover assume "has_number J v ''phase'' n"
  ultimately show ?thesis using show_nat_inject [of n 1] by (auto simp: has_number_def)
qed

lemma read_order_described:
  assumes "describes_order J v row"
  shows "read_order J v = Some (if fst row = 1 then [order_info row] else [])"
proof -
  obtain phase subid units expire where row: "row = (phase, subid, units, expire)" by (metis surj_pair)
  from assms obtain plan p where d: "has_number J v ''phase'' phase" "has_number J v ''subscriptionid'' subid"
    "json_field J v ''plan'' = Some plan" "json_parse J (json_styled J plan) = Some p"
    "has_number J p ''units'' units" "has_number J p ''expire'' expire"
    by (auto simp: describes_order_def row)
  from has_phase [OF d(1)] obtain x where
    x: "json_field J v ''phase'' = Some x" "json_styled J x = ''1'' @ [CTRL_N] \<longleftrightarrow> phase = 1" by blast
  show ?thesis
    using x d(3,4) has_number_styled [OF d(2)] has_number_styled [OF d(5)] has_number_styled [OF d(6)]
    by (simp add: read_order_def row order_info_def)
qed

lemma read_orders_described:
  "(\<forall>i \<in> set is. \<exists>v. json_index J r i = Some v \<and> describes_order J v (rows i)) \<Longrightarrow>
   read_orders J r is = Some (map order_info (filter (\<lambda>row. fst row = 1) (map rows is)))"
  by (induction "is") (auto simp: read_order_described)

text \<open>
  C16. An exchange with DataHub closes the descriptor it opened exactly when the connection was
  made: a connection that fails leaves the new socket open for good, because \<open>TcpClose\<close> only
  closes what is marked connected and the object is never deleted.
\<close>

theorem datahub_descriptors:
  assumes "tracks_fds S tab" "new_CTcpSocket S port ip 300000 w = Some st"
    "TcpConnect S st = (r, st1)" "hub_exchange S port ip request flag w = Some (text, flag', w', s')"
  shows "tab w' = (if r = 0 then tab w else (tab w)(m_iSockfd (snd st) \<mapsto> False)) \<and> tab w (m_iSockfd (snd st)) = None"
  by (rule hub_exchange_descriptors [OF assms])

definition down_sys :: "toy sys" where
  "down_sys = toy_sys\<lparr>sys_connect := \<lambda>_ _ _ w. (-1, w)\<rparr>"

lemma down_tracks_fds: "tracks_fds down_sys toy_tab"
  using toy_tracks_fds by (simp add: tracks_fds_def down_sys_def)

theorem datahub_descriptors_witness:
  "\<exists>w s. hub_exchange down_sys 443 ''10.1.235.98'' ''GET'' 0 (toy_world []) = Some ([], 0, w, s) \<and> toy_tab w = [3 \<mapsto> False]"
proof -
  let ?s = "\<lparr>m_iSockfd = 3, m_in_portPort = 443, m_strIp = ''10.1.235.98'', m_uiTimeout = 300000,
    m_bConnect = False, m_ssl = None, m_ssl_ctx = None\<rparr>"
  have new: "new_CTcpSocket down_sys 443 ''10.1.235.98'' 300000 (toy_world []) = Some (toy_world []\<lparr>toy_fds := {3}\<rparr>, ?s)"
    by (simp add: new_CTcpSocket_def down_sys_def toy_sys_def toy_world_def)
  have con: "TcpConnect down_sys (toy_world []\<lparr>toy_fds := {3}\<rparr>, ?s) = (-1, toy_world []\<lparr>toy_fds := {3}\<rparr>, ?s)"
    by (simp add: TcpConnect_def down_sys_def toy_sys_def)
  have ex: "hub_exchange down_sys 443 ''10.1.235.98'' ''GET'' 0 (toy_world []) = Some ([], 0, toy_world []\<lparr>toy_fds := {3}\<rparr>, ?s)"
    by (simp add: hub_exchange_def new con) (simp add: TcpClose_def down_sys_def toy_sys_def)
  have "toy_tab (toy_world []) = Map.empty" by (simp add: toy_world_def toy_tab_def)
  with datahub_descriptors [OF down_tracks_fds new con ex] ex show ?thesis by simp
qed

text \<open>
  C21. When the service's answer lists orders, \<open>BdxApiGetUserOrder\<close>'s reader returns exactly those
  in phase 1, in the order of the answer, with their numbers unchanged by the way over
  \<open>toStyledString\<close>, \<open>atol\<close> and \<open>sprintf\<close>.
\<close>

theorem hub_orders_phase1:
  assumes "json_parse J text = Some v" "json_field J v ''data'' = Some d" "json_parse J (json_styled J d) = Some d'"
    "json_field J d' ''results'' = Some r" "json_parse J (json_styled J r) = Some r'"
    "json_size J r' = length rows"
    "\<forall>i < length rows. \<exists>x. json_index J r' i = Some x \<and> describes_order J x (rows ! i)"
  shows "hub_orders J text = Some (map order_info (filter (\<lambda>row. fst row = 1) rows))"
  using assms(1-6) read_orders_described [of "[0..<length rows]" J r' "\<lambda>i. rows ! i"] assms(7)
  by (simp add: hub_orders_def reparse_field_def map_nth)

text \<open>A JSON library that knows the answers of one concrete exchange.\<close>

definition sample_json :: "string json" where
  "sample_json =
     \<lparr>json_parse = (\<lambda>t. Some t),
      json_field = (\<lambda>v key.
        if key = ''phase'' then Some (if v = ''A'' then ''1'' else ''5'')
        else if key = ''subscriptionid'' then Some ''42''
        else if key = ''units'' then Some ''10''
        else if key = ''expire'' then Some ''30''
        else Some v),
      json_index = (\<lambda>v i. Some (if i = 0 then ''A'' else ''B'')),
      json_size = (\<lambda>v. 2),
      json_styled = (\<lambda>v. v @ [CTRL_N])\<rparr>"

theorem hub_orders_phase1_witness:
  "hub_orders sample_json ''answer'' =
     Some [\<lparr>m_expireTime = ''30'', m_subscriptionID = ''42'', m_units = ''10''\<rparr>]"
proof -
  have n: "has_number sample_json v ''subscriptionid'' 42" "has_number sample_json v ''units'' 10"
    "has_number sample_json v ''expire'' 30" for v
    by (simp_all add: has_number_def sample_json_def show_nat.simps digit_char_def char_of_def bit_0)
  have p: "has_number sample_json ''A'' ''phase'' 1" "has_number sample_json ''B'' ''phase'' 5"
    by (simp_all add: has_number_def sample_json_def show_nat.simps digit_char_def char_of_def bit_0)
  have plan: "\<exists>plan q. json_field sample_json v ''plan'' = Some plan \<and> json_parse sample_json (json_styled sample_json plan) = Some q"
    for v by (simp add: sample_json_def)
  have row: "describes_order sample_json ''A'' (1, 42, 10, 30)" "describes_order sample_json ''B'' (5, 42, 10, 30)"
    using n p plan by (fastforce simp: describes_order_def)+
  have "\<forall>i < length [(1, 42, 10, 30), (5, 42, 10, 30)]. \<exists>x. json_index sample_json [CTRL_N] i = Some x \<and>
     describes_order sample_json x ([(1, 42, 10, 30), (5, 42, 10, 30)] ! i)"
    using row by (auto simp: less_Suc_eq nth_Cons' sample_json_def)
  then show ?thesis
    using hub_orders_phase1 [of sample_json "''answer''" "''answer''" "''answer''" "''answer'' @ [CTRL_N]"
        "''answer'' @ [CTRL_N]" "''answer'' @ [CTRL_N, CTRL_N]" "[(1, 42, 10, 30), (5, 42, 10, 30)]"] row
    by (auto simp: sample_json_def order_info_def show_nat.simps digit_char_def char_of_def bit_0 less_Suc_eq nth_Cons')
qed

end
