(* ===== verification/RemoteApi.thy ===== *)
theory RemoteApi
  imports DataHub
begin

text \<open>
  The call of the remote API in \<open>src/UserQueryTask/TaskMain/TaskMain.cpp\<close> (lines 930 to 1272): the
  request built from the configuration, the exchange over plain TCP or TLS, and the reading of a
  body that is either counted (\<open>Content-Length\<close>) or chunked.

  The receive buffer \<open>remoteBuffer\<close> has 8192000 bytes and starts as zeros: it is the list of what
  has been stored so far, with zeros behind. As before \<open>None\<close> is a call without a defined outcome.
\<close>

section \<open>The request\<close>

fun post_template :: "string list \<Rightarrow> string \<Rightarrow> string option" where
  "post_template [] t = Some t"
| "post_template (p # ps) t =
     (let (param, val) = (case str_find p ''='' 0 of
            Some i \<Rightarrow> (take i p, drop (i + 1) p)
          | None \<Rightarrow> (p, p))
      in case BdxTaskMainReplace_All t (''POSTREQ_'' @ param) val of
           None \<Rightarrow> None
         | Some t \<Rightarrow> post_template ps t)"

definition httpReq :: "string \<Rightarrow> string \<Rightarrow> string" where
  "httpReq url host =
     ''GET '' @ cstr url @ '' HTTP/1.1'' @ CRLF @ ''Host: '' @ cstr host @ CRLF @ ''Accept-Encoding: identity'' @ HEADER_END"

definition httpReqPost :: "string \<Rightarrow> string \<Rightarrow> int \<Rightarrow> string \<Rightarrow> string" where
  "httpReqPost url host len content =
     ''POST '' @ cstr url @ '' HTTP/1.1'' @ CRLF @ ''Host: '' @ cstr host @ CRLF @ ''Accept-Encoding: identity'' @ CRLF @
     ''Content-Type: application/json;charset=utf-8'' @ CRLF @ ''Content-length:'' @ show_int len @ HEADER_END @ cstr content"

definition get_url :: "BDXAPIGATEWAYCONFIF_S \<Rightarrow> string" where
  "get_url conf =
     (let strReqUrl = concat (map (\<lambda>p. p @ ''&'') (mStrReqParams conf))
      in if mIntIsVerify conf = 1 then mStrUrlPath conf @ strReqUrl @ mStrApiKey conf
         else mStrUrlPath conf @ take (length strReqUrl - 1) strReqUrl)"

definition BdxGenerateReqUrl :: "BDXAPIGATEWAYCONFIF_S \<Rightarrow> string option" where
  "BdxGenerateReqUrl conf =
     (if mIntReqtype conf = 1 then sprintf_into 8192 (httpReq (get_url conf) (mStrCname conf))
      else if mIntReqtype conf = 2 then
        (case post_template (mStrReqParams conf) (mStrPostTemplate conf) of
           None \<Rightarrow> None
         | Some t \<Rightarrow> sprintf_into 8192 (httpReqPost (mStrUrlPath conf) (mStrCname conf) (to_int32 (int (length t))) t))
      else Some [])"

section \<open>The receive buffer\<close>

abbreviation CAP :: nat where "CAP \<equiv> 8192000"

definition store :: "string \<Rightarrow> nat \<Rightarrow> string \<Rightarrow> string" where
  "store mem off bs = take off (mem @ replicate (off - length mem) NUL) @ bs @ drop (off + length bs) mem"

definition load :: "string \<Rightarrow> nat \<Rightarrow> nat \<Rightarrow> string" where
  "load mem off n = take n (drop off mem @ replicate n NUL)"

text \<open>\<open>strstr\<close> from the start of the buffer; \<open>None\<close> when it runs past the end.\<close>

definition strstr_buf :: "string \<Rightarrow> string \<Rightarrow> nat option option" where
  "strstr_buf mem pat =
     (case find_sub pat (cstr mem) of
        Some i \<Rightarrow> Some (Some i)
      | None \<Rightarrow> if length (cstr mem) < CAP then Some None else None)"

text \<open>\<open>strtol(s, NULL, 16)\<close>: white space, a sign, an optional \<open>0x\<close>, hexadecimal digits.\<close>

definition hex_val :: "char \<Rightarrow> nat option" where
  "hex_val c =
     (if isdigit c then Some (digit_val c)
      else if 97 \<le> (of_char (tolower c) :: nat) \<and> of_char (tolower c) \<le> (102 :: nat)
           then Some (of_char (tolower c) - 87) else None)"

fun hex_digits :: "nat \<Rightarrow> string \<Rightarrow> nat" where
  "hex_digits acc [] = acc"
| "hex_digits acc (c # cs) = (case hex_val c of None \<Rightarrow> acc | Some d \<Rightarrow> hex_digits (acc * 16 + d) cs)"

fun drop_0x :: "string \<Rightarrow> string" where
  "drop_0x (z # x # c # cs) = (if z = CHR ''0'' \<and> tolower x = CHR ''x'' \<and> hex_val c \<noteq> None then c # cs else z # x # c # cs)"
| "drop_0x s = s"

definition strtol16 :: "string \<Rightarrow> int" where
  "strtol16 s = (let t = dropWhile isspace s in
     case t of
       [] \<Rightarrow> 0
     | c # cs \<Rightarrow>
         (if c = CHR ''-'' then max (- (2 ^ 63)) (- int (hex_digits 0 (drop_0x cs)))
          else if c = CHR ''+'' then min (2 ^ 63 - 1) (int (hex_digits 0 (drop_0x cs)))
          else min (2 ^ 63 - 1) (int (hex_digits 0 (drop_0x t)))))"

section \<open>Reading a counted body\<close>

text \<open>
  Both loops go on after a read that brought nothing: the plain one closes the socket first, after
  which every further read fails at once.
\<close>

partial_function (option) plain_body_loop ::
    "'w sys \<Rightarrow> nat \<Rightarrow> int \<Rightarrow> string \<Rightarrow> nat \<Rightarrow> 'w sockstate \<Rightarrow> (string \<times> 'w sockstate) option" where
  "plain_body_loop S uiHeadLen uiBodyLen mem uiReadLen st =
     (if uiBodyLen > int uiReadLen - int uiHeadLen then
        (let ((iRes, bs), st) = TcpRead S (nat (uiBodyLen - (int uiReadLen - int uiHeadLen))) st
         in if iRes \<le> 0 then plain_body_loop S uiHeadLen uiBodyLen mem uiReadLen (TcpClose S st)
            else if CAP < uiReadLen + length bs then None
            else plain_body_loop S uiHeadLen uiBodyLen (store mem uiReadLen bs) (uiReadLen + nat iRes) st)
      else Some (mem, st))"

partial_function (option) ssl_body_loop ::
    "'w sys \<Rightarrow> nat \<Rightarrow> int \<Rightarrow> string \<Rightarrow> nat \<Rightarrow> 'w sockstate \<Rightarrow> (string \<times> 'w sockstate) option" where
  "ssl_body_loop S uiHeadLen uiBodyLen mem uiReadLen st =
     (if uiBodyLen > int uiReadLen - int uiHeadLen then
        (let ((iRes, bs), st) = TcpSslReadLen S (nat (uiBodyLen - (int uiReadLen - int uiHeadLen))) st
         in if iRes \<le> 0 then ssl_body_loop S uiHeadLen uiBodyLen mem uiReadLen st
            else if CAP < uiReadLen + length bs then None
            else ssl_body_loop S uiHeadLen uiBodyLen (store mem uiReadLen bs) (uiReadLen + nat iRes) st)
      else Some (mem, st))"

declare plain_body_loop.simps [code] ssl_body_loop.simps [code]

section \<open>Reading a chunked body\<close>

text \<open>The inner loop: reads until the chunk is complete, \<open>Inl\<close> when a read fails.\<close>

function chunk_fill :: "'w sys \<Rightarrow> int \<Rightarrow> int \<Rightarrow> string \<Rightarrow> nat \<Rightarrow> 'w sockstate \<Rightarrow>
    (unit + int \<times> string \<times> nat) \<times> 'w sockstate" where
  "chunk_fill S lChunkLen iTmpBodyLen mem uiReadLen st =
     (if lChunkLen > iTmpBodyLen then
        (let ((iRes, bs), st) = TcpRead S (CAP - uiReadLen) st
         in if iRes \<le> 0 then (Inl (), st)
            else chunk_fill S lChunkLen (iTmpBodyLen + iRes) (store mem uiReadLen bs) (uiReadLen + nat iRes) st)
      else (Inr (iTmpBodyLen, mem, uiReadLen), st))"
  by pat_completeness auto
termination
  by (relation "measure (\<lambda>(S, l, t, m, r, st). nat (l - t))") auto

declare chunk_fill.simps [simp del]

text \<open>
  The chunks are moved together at the start of the body. \<open>head\<close> is \<open>pszChunkHead\<close>; when no line end
  is found \<open>pszTmp\<close> is null, so after one more successful read \<open>strstr\<close> is called on a null
  pointer. \<open>memcpy\<close> copies forward; a negative length, or one that leaves the buffer, is undefined.
\<close>

partial_function (option) chunk_loop ::
    "'w sys \<Rightarrow> nat \<Rightarrow> nat \<Rightarrow> nat \<Rightarrow> int \<Rightarrow> string \<Rightarrow> nat \<Rightarrow> 'w sockstate \<Rightarrow> (string option \<times> 'w sockstate) option" where
  "chunk_loop S uiHeadLen uiBodyLen head iTmpBodyLen mem uiReadLen st =
     (case find_sub CRLF (cstr (drop head mem)) of
        None \<Rightarrow>
          (let ((iRes, bs), st) = TcpRead S (CAP - uiReadLen) st
           in if iRes \<le> 0 then Some (None, st) else None)
      | Some i \<Rightarrow>
          (let tmp = head + i + 2;
               lChunkLen = strtol16 (cstr (drop head mem));
               (filled, st) = chunk_fill S lChunkLen (iTmpBodyLen - int (i + 2)) mem uiReadLen st
           in case filled of
                Inl _ \<Rightarrow> Some (None, st)
              | Inr (iTmpBodyLen, mem, uiReadLen) \<Rightarrow>
                  if lChunkLen < 0 \<or> CAP < tmp + nat lChunkLen then None
                  else let mem = store mem (uiHeadLen + uiBodyLen) (load mem tmp (nat lChunkLen))
                       in if lChunkLen > 0
                          then chunk_loop S uiHeadLen (uiBodyLen + nat lChunkLen) (tmp + nat lChunkLen)
                                 iTmpBodyLen mem uiReadLen st
                          else Some (Some mem, st)))"

declare chunk_loop.simps [code]

text \<open>The text of a chunked body: what follows the header, without its last ten characters.\<close>

definition chunked_text :: "string \<Rightarrow> string option" where
  "chunked_text t =
     (case str_find t HEADER_END 0 of
        Some i \<Rightarrow> substr_int t (int (i + 4)) (int (length t) - int (i + 4) - 10)
      | None \<Rightarrow> Some t)"

section \<open>The answer\<close>

text \<open>\<open>Inl (code, message)\<close> is an early return; the message of a broken chunk is not set.\<close>

definition plain_answer :: "'w sys \<Rightarrow> int \<Rightarrow> string \<Rightarrow> 'w sockstate \<Rightarrow> ((int \<times> string option + string) \<times> 'w sockstate) option" where
  "plain_answer S uiReadLen mem st =
     (let failed = Inl (OTHERERROR, Some ''2002 read socket is error'')
      in if uiReadLen < 0 then Some (failed, TcpClose S st)
         else case strstr_buf mem HEADER_END of
           None \<Rightarrow> None
         | Some None \<Rightarrow> Some (failed, TcpClose S st)
         | Some (Some i) \<Rightarrow>
             (let uiHeadLen = i + 4
              in case strstr_buf mem ''Content-Length:'' of
                   None \<Rightarrow> None
                 | Some (Some j) \<Rightarrow>
                     (let uiBodyLen = atoi (drop (j + 15) (cstr mem))
                      in if uiBodyLen = 0 then Some (failed, TcpClose S st)
                         else case plain_body_loop S uiHeadLen uiBodyLen mem (nat uiReadLen) st of
                           None \<Rightarrow> None
                         | Some (mem, st) \<Rightarrow>
                             (case buffer_text CAP mem of
                                None \<Rightarrow> None
                              | Some t \<Rightarrow> Some (Inr (after_header t), TcpClose S st)))
                 | Some None \<Rightarrow>
                     (case chunk_loop S uiHeadLen 0 uiHeadLen (uiReadLen - int uiHeadLen) mem (nat uiReadLen) st of
                        None \<Rightarrow> None
                      | Some (None, st) \<Rightarrow> Some (Inl (LINKERROR, None), st)
                      | Some (Some mem, st) \<Rightarrow>
                          (case buffer_text CAP mem of
                             None \<Rightarrow> None
                           | Some t \<Rightarrow>
                               (case chunked_text t of
                                  None \<Rightarrow> None
                                | Some b \<Rightarrow> Some (Inr b, TcpClose S st))))))"

definition remote_plain :: "'w sys \<Rightarrow> string \<Rightarrow> 'w sockstate \<Rightarrow> ((int \<times> string option + string) \<times> 'w sockstate) option" where
  "remote_plain S request st =
     (let (sent, st) = TcpWrite S request st
      in if \<not> sent then Some (Inr [], TcpClose S st)
         else let ((uiReadLen, mem), st) = TcpRead S CAP st in plain_answer S uiReadLen mem st)"

definition ssl_answer :: "'w sys \<Rightarrow> int \<Rightarrow> string \<Rightarrow> 'w sockstate \<Rightarrow> ((int \<times> string option + string) \<times> 'w sockstate) option" where
  "ssl_answer S uiReadLen mem st =
     (let failed = Inl (OTHERERROR, Some ''2003 read socket is error'')
      in if uiReadLen < 0 then Some (failed, TcpSslDestroy S st)
         else case (strstr_buf mem HEADER_END, strstr_buf mem ''Content-Length:'') of
           (Some (Some i), Some (Some j)) \<Rightarrow>
             (let uiBodyLen = atoi (drop (j + 15) (cstr mem))
              in if uiBodyLen = 0 then Some (failed, TcpSslDestroy S st)
                 else case ssl_body_loop S (i + 4) uiBodyLen mem (nat uiReadLen) st of
                   None \<Rightarrow> None
                 | Some (mem, st) \<Rightarrow>
                     (case buffer_text CAP mem of
                        None \<Rightarrow> None
                      | Some t \<Rightarrow> (case http_body t of None \<Rightarrow> None | Some b \<Rightarrow> Some (Inr b, TcpSslDestroy S st))))
         | (Some None, _) \<Rightarrow> Some (failed, TcpSslDestroy S st)
         | (Some (Some i), Some None) \<Rightarrow> Some (failed, TcpSslDestroy S st)
         | _ \<Rightarrow> None)"

definition remote_ssl :: "'w sys \<Rightarrow> string \<Rightarrow> 'w sockstate \<Rightarrow> ((int \<times> string option + string) \<times> 'w sockstate) option" where
  "remote_ssl S request st =
     (let (_, st) = TcpSslInitEnv S st; (connected, st) = TcpSslConnect S st
      in if \<not> connected then Some (Inr [], TcpSslDestroy S st)
         else case TcpSslWriteLen S request st of
           None \<Rightarrow> None
         | Some (n, st) \<Rightarrow>
             if n = 0 then Some (Inr [], TcpSslDestroy S st)
             else let ((uiReadLen, mem), st) = TcpSslReadLen S CAP st in ssl_answer S uiReadLen mem st)"

definition remote_address :: "string \<Rightarrow> string \<times> u16" where
  "remote_address hostInfo =
     (case str_find hostInfo '':'' 0 of
        Some i \<Rightarrow> (take i hostInfo, word_of_int (atoi (drop (i + 1) hostInfo)))
      | None \<Rightarrow> (hostInfo, word_of_int (atoi hostInfo)))"

definition BdxGetRemoteGateWayData :: "('w, 'j) env \<Rightarrow> BDXAPIGATEWAYCONFIF_S \<Rightarrow> BDXREQUEST_S \<Rightarrow> BDXRESPONSE_S \<Rightarrow> string \<Rightarrow>
    'w gateway \<Rightarrow> ((int \<times> BDXREQUEST_S \<times> BDXRESPONSE_S \<times> string) \<times> 'w gateway) option" where
  "BdxGetRemoteGateWayData E conf stRequestInfo stResponseInfo errorMsg g =
     (case BdxGenerateReqUrl conf of
        None \<Rightarrow> None
      | Some request \<Rightarrow>
          (let S = e_sys E;
               (remoteIp, remotePort) = remote_address (mStrHostInfo conf);
               stRequestInfo = stRequestInfo\<lparr>m_strRequestParam := mStrHostInfo conf @ ''###'' @ cstr request\<rparr>
           in case new_CTcpSocket S remotePort remoteIp 300000 (g_world g) of
                None \<Rightarrow> None
              | Some st \<Rightarrow>
                  (let (r, st) = TcpConnect S st
                   in if r \<noteq> 0 then
                        Some ((OTHERERROR, stRequestInfo, stResponseInfo, ''2001 connect remote is error''),
                              g\<lparr>g_world := fst (TcpClose S st)\<rparr>)
                      else
                        (let (flag, st) = (if mIntIsHttps conf = 1 then ssl_init_once S (InitSSLFlag g) st else (InitSSLFlag g, st))
                         in case (if mIntIsHttps conf = 1 then remote_ssl S (cstr request) st else remote_plain S (cstr request) st) of
                              None \<Rightarrow> None
                            | Some (Inl (code, msg), st) \<Rightarrow>
                                Some ((code, stRequestInfo, stResponseInfo, (case msg of None \<Rightarrow> errorMsg | Some m \<Rightarrow> m)),
                                      g\<lparr>g_world := fst st, InitSSLFlag := flag\<rparr>)
                            | Some (Inr text, st) \<Rightarrow>
                                Some ((SUCCESS, stRequestInfo, stResponseInfo\<lparr>mResValue := text\<rparr>, errorMsg),
                                      g\<lparr>g_world := fst st, InitSSLFlag := flag\<rparr>)))))"

section \<open>One round of the chunk loop\<close>

lemma chunk_fill_done: "l \<le> t \<Longrightarrow> chunk_fill S l t mem r st = (Inr (t, mem, r), st)"
  by (simp add: chunk_fill.simps)

lemma chunk_loop_next:
  assumes "find_sub CRLF (cstr (drop head mem)) = Some i" "strtol16 (cstr (drop head mem)) = int l" "0 < l"
    "int l \<le> t - int (i + 2)" "head + i + 2 + l \<le> CAP"
  shows "chunk_loop S hl bl head t mem r st =
     chunk_loop S hl (bl + l) (head + i + 2 + l) (t - int (i + 2))
       (store mem (hl + bl) (load mem (head + i + 2) l)) r st"
  by (subst chunk_loop.simps) (use assms in \<open>simp add: chunk_fill_done Let_def\<close>)

lemma chunk_loop_last:
  assumes "find_sub CRLF (cstr (drop head mem)) = Some i" "strtol16 (cstr (drop head mem)) = 0"
    "0 \<le> t - int (i + 2)" "head + i + 2 \<le> CAP" "hl + bl \<le> length mem"
  shows "chunk_loop S hl bl head t mem r st = Some (Some mem, st)"
  by (subst chunk_loop.simps) (use assms in \<open>simp add: chunk_fill_done Let_def store_def load_def\<close>)

lemma find_sub_prefix:
  assumes "find_sub pat (a @ pat @ x) = Some (length a)"
  shows "find_sub pat (a @ pat @ y) = Some (length a)"
  using assms
proof (induction a)
  case Nil
  show ?case by (cases "pat @ y") (auto simp: starts_with_def, cases pat, auto)
next
  case (Cons c a)
  have "take (length pat) ((c # a @ pat) @ x) = take (length pat) ((c # a @ pat) @ y)"
    by (simp only: take_append) simp
  with Cons show ?case by (auto simp: starts_with_def split: if_splits)
qed

lemma isspace_hex: "hex_val c = Some n \<Longrightarrow> \<not> isspace c \<and> c \<noteq> CHR ''-'' \<and> c \<noteq> CHR ''+'' \<and> c \<noteq> CTRL_R \<and> c \<noteq> NUL"
proof -
  assume "hex_val c = Some n"
  then have "(48::nat) \<le> of_char c \<and> of_char c \<le> (57::nat) \<or> (65::nat) \<le> of_char c"
    by (auto simp: hex_val_def isdigit_def tolower_def isupper_def split: if_splits)
  then show ?thesis by (auto simp: isspace_def NUL_def)
qed

lemma hex_val_zero: "hex_val c = Some n \<Longrightarrow> 0 < n \<Longrightarrow> c \<noteq> CHR ''0''"
  by (auto simp: hex_val_def isdigit_def digit_val_def)

lemma strtol16_digit:
  assumes "hex_val c = Some n" "0 < n" "n < 16"
  shows "strtol16 (c # CTRL_R # t) = int n"
proof -
  have r: "hex_val CTRL_R = None" by (simp add: hex_val_def isdigit_def tolower_def isupper_def)
  have d: "drop_0x (c # CTRL_R # t) = c # CTRL_R # t"
    using hex_val_zero [OF assms(1,2)] by (cases t) auto
  show ?thesis using isspace_hex [OF assms(1)] assms(1,3) r d by (simp add: strtol16_def Let_def)
qed

lemma strtol16_end: "strtol16 (CRLF @ ''0'' @ CTRL_R # t) = 0"
proof -
  have "hex_val CTRL_R = None" "hex_val (CHR ''0'') = Some 0" "tolower CTRL_R = CTRL_R"
    by (simp_all add: hex_val_def isdigit_def tolower_def isupper_def digit_val_def)
  then show ?thesis
    by (cases t) (auto simp: strtol16_def isspace_def Let_def)
qed

lemma store_in: "length a = off \<Longrightarrow> length b = length bs \<Longrightarrow> store (a @ b @ c) off bs = a @ bs @ c"
  by (simp add: store_def)

lemma load_in: "length a = off \<Longrightarrow> length b = n \<Longrightarrow> load (a @ b @ c) off n = b"
  by (simp add: load_def)

section \<open>Properties of the body reader\<close>

text \<open>The loop moves the data of a single chunk to the front of the body.\<close>

lemma single_chunk_loop:
  assumes "mem = head @ HEADER_END @ [d] @ CRLF @ body @ CRLF @ ''0'' @ HEADER_END" "h = length head + 4"
    "hex_val d = Some (length body)" "0 < length body" "length body < 16" "NUL \<notin> set mem" "length mem < CAP"
  shows "chunk_loop S h 0 h (int (length mem) - int h) mem (length mem) st =
    Some (Some ((head @ HEADER_END) @ body @ drop (length body) ([d] @ CRLF @ body) @ CRLF @ ''0'' @ HEADER_END), st)"
    (is "_ = Some (Some ?mem, st)")
proof -
  let ?tail = "CRLF @ ''0'' @ HEADER_END"
  define n where "n = length body"
  have len: "length mem = h + n + 10" by (simp add: assms(1,2) n_def)
  have nul: "NUL \<notin> set body" "NUL \<notin> set head" "d \<noteq> NUL" using assms(6) by (auto simp: assms(1))
  have dropped: "cstr (drop h mem) = d # CTRL_R # CTRL_N # body @ ?tail"
    using nul by (simp add: assms(1,2)) (subst cstr_id; auto simp: NUL_def)
  have find: "find_sub CRLF (cstr (drop h mem)) = Some 1"
    using isspace_hex [OF assms(3)] by (simp add: dropped starts_with_def)
  have num: "strtol16 (cstr (drop h mem)) = int n"
    using strtol16_digit [OF assms(3-5)] by (simp add: dropped n_def)
  have ld: "load mem (h + 1 + 2) n = body"
    using load_in [of "head @ HEADER_END @ [d] @ CRLF" "h + 3" body n ?tail] by (simp add: assms(1,2) n_def)
  have split: "mem = (head @ HEADER_END) @ take n ([d] @ CRLF @ body) @ drop n ([d] @ CRLF @ body) @ ?tail"
    by (simp add: assms(1))
  have st: "store mem (h + 0) body = ?mem"
    unfolding split n_def by (rule store_in) (simp_all add: assms(2))
  let ?A = "(head @ HEADER_END) @ body @ drop n ([d] @ CRLF @ body)"
  have "length ?A = h + 1 + 2 + n" by (simp add: assms(2) n_def)
  then have "drop (h + 1 + 2 + n) (?A @ ?tail) = ?tail" by (metis append_eq_conv_conj)
  then have dropped2: "cstr (drop (h + 1 + 2 + n) ?mem) = ?tail"
    by (simp only: append_assoc n_def) (simp add: cstr_def NUL_def)
  have "chunk_loop S h 0 h (int (length mem) - int h) mem (length mem) st =
      chunk_loop S h (0 + n) (h + 1 + 2 + n) (int (length mem) - int h - int (1 + 2)) ?mem (length mem) st"
    using chunk_loop_next [OF find num, of "int (length mem) - int h" S h 0 "length mem" st] assms(4,7) len st ld
    by (simp add: n_def)
  also have "\<dots> = Some (Some ?mem, st)"
  proof (rule chunk_loop_last)
    show "find_sub CRLF (cstr (drop (h + 1 + 2 + n) ?mem)) = Some 0" by (simp only: dropped2) (simp add: starts_with_def)
    show "strtol16 (cstr (drop (h + 1 + 2 + n) ?mem)) = 0" by (simp only: dropped2) (use strtol16_end in simp)
  qed (use len assms(7) in \<open>simp_all add: assms(2) n_def\<close>)
  finally show ?thesis .
qed


definition sample_answer :: string where
  "sample_answer = ''HTTP/1.1 200 OK'' @ HEADER_END @ ''5'' @ CRLF @ ''hello'' @ CRLF @ ''0'' @ HEADER_END"

lemma hex_val_5: "hex_val (CHR ''5'') = Some 5"
  by (simp add: hex_val_def isdigit_def digit_val_def)


text \<open>
  An answer in two chunks is not put together: the length line of the second chunk is taken
  for data, its last bytes are lost and the end of the buffer holds left-overs.
\<close>

definition two_chunks :: string where
  "two_chunks = ''HTTP/1.1 200 OK'' @ HEADER_END @ ''5'' @ CRLF @ ''hello'' @ CRLF @ ''5'' @ CRLF @ ''world'' @ CRLF @ ''0'' @ HEADER_END"

lemmas literal_text = starts_with_def cstr_def NUL_def isspace_def hex_val_def isdigit_def digit_val_def
  tolower_def isupper_def strtol16_def store_def load_def

theorem remote_two_chunks:
  "plain_answer S (int (length two_chunks)) two_chunks st =
     Some (Inr (''hello5'' @ CRLF @ ''wo5'' @ CRLF @ ''wo''), TcpClose S st)"
proof -
  let ?m1 = "''HTTP/1.1 200 OK'' @ HEADER_END @ ''hello'' @ ''llo'' @ CRLF @ ''5'' @ CRLF @ ''world'' @ CRLF @ ''0'' @ HEADER_END"
  let ?m2 = "''HTTP/1.1 200 OK'' @ HEADER_END @ ''hello5'' @ CRLF @ ''wo5'' @ CRLF @ ''world'' @ CRLF @ ''0'' @ HEADER_END"
  have "chunk_loop S 19 0 19 25 two_chunks 44 st = chunk_loop S 19 5 27 22 ?m1 44 st"
    by (subst chunk_loop_next [where l = 5 and i = 1]) (simp_all add: two_chunks_def literal_text)
  also have "\<dots> = chunk_loop S 19 10 34 20 ?m2 44 st"
    by (subst chunk_loop_next [where l = 5 and i = 0]) (simp_all add: literal_text)
  also have "\<dots> = Some (Some ?m2, st)"
    by (subst chunk_loop_last [where i = 3]) (simp_all add: literal_text)
  finally have loop: "chunk_loop S 19 0 19 25 two_chunks 44 st = Some (Some ?m2, st)" .
  have "strstr_buf two_chunks HEADER_END = Some (Some 15)" "strstr_buf two_chunks ''Content-Length:'' = Some None"
    by (simp_all add: two_chunks_def strstr_buf_def literal_text)
  moreover have "length two_chunks = 44" by (simp add: two_chunks_def)
  moreover have "buffer_text CAP ?m2 = Some ?m2" by (simp add: buffer_text_def literal_text)
  moreover have "chunked_text ?m2 = Some (''hello5'' @ CRLF @ ''wo5'' @ CRLF @ ''wo'')"
    by (simp add: chunked_text_def str_find_def substr_int_def str_substr_def literal_text)
  ultimately show ?thesis using loop by (simp add: plain_answer_def Let_def)
qed

section \<open>The remote call as an operation of a task\<close>

lemma TcpRead_owns:
  "tracks_fds S tab \<Longrightarrow> owns_fd tab others st \<Longrightarrow> TcpRead S n st = (r, st') \<Longrightarrow> owns_fd tab others st'"
  by (metis fd_read.keeps_descriptors snd_conv)

lemma TcpSslReadLen_owns:
  "tracks_fds S tab \<Longrightarrow> owns_fd tab others st \<Longrightarrow> TcpSslReadLen S n st = (r, st') \<Longrightarrow> owns_fd tab others st'"
  by (metis fd_ssl_read.keeps_descriptors snd_conv)

lemma plain_body_loop_owns:
  assumes "plain_body_loop S h n mem r st = Some res" "tracks_fds S tab" "owns_fd tab others st"
  shows "owns_fd tab others (snd res)"
proof -
  have "tracks_fds S tab \<and> owns_fd tab others st \<longrightarrow> owns_fd tab others (snd res)"
    using assms(1)
  proof (induction rule: plain_body_loop.raw_induct [rotated, consumes 1, case_names step])
    case (step loop S h n mem r st res)
    obtain i bs st' where rd: "TcpRead S (nat (n - (int r - int h))) st = ((i, bs), st')" by (metis surj_pair)
    show ?case
    proof
      assume *: "tracks_fds S tab \<and> owns_fd tab others st"
      then have own: "owns_fd tab others st'" "owns_fd tab others (TcpClose S st')"
        using TcpRead_owns rd TcpClose_owns by blast+
      have "snd res = st \<or> (\<exists>mem' r'. loop S h n mem' r' st' = Some res) \<or>
          (\<exists>mem' r'. loop S h n mem' r' (TcpClose S st') = Some res)"
        using step.hyps rd by (auto split: if_splits)
      with own * show "owns_fd tab others (snd res)" using step.IH by metis
    qed
  qed
  with assms(2,3) show ?thesis by blast
qed

lemma ssl_body_loop_owns:
  assumes "ssl_body_loop S h n mem r st = Some res" "tracks_fds S tab" "owns_fd tab others st"
  shows "owns_fd tab others (snd res)"
proof -
  have "tracks_fds S tab \<and> owns_fd tab others st \<longrightarrow> owns_fd tab others (snd res)"
    using assms(1)
  proof (induction rule: ssl_body_loop.raw_induct [rotated, consumes 1, case_names step])
    case (step loop S h n mem r st res)
    obtain i bs st' where rd: "TcpSslReadLen S (nat (n - (int r - int h))) st = ((i, bs), st')" by (metis surj_pair)
    show ?case
    proof
      assume *: "tracks_fds S tab \<and> owns_fd tab others st"
      then have own: "owns_fd tab others st'" using TcpSslReadLen_owns rd by blast
      have "snd res = st \<or> (\<exists>mem' r'. loop S h n mem' r' st' = Some res)"
        using step.hyps rd by (auto split: if_splits)
      with own * show "owns_fd tab others (snd res)" using step.IH by metis
    qed
  qed
  with assms(2,3) show ?thesis by blast
qed

lemma chunk_fill_owns:
  "chunk_fill S l t mem r st = (f, st') \<Longrightarrow> tracks_fds S tab \<Longrightarrow> owns_fd tab others st \<Longrightarrow> owns_fd tab others st'"
proof (induction S l t mem r st rule: chunk_fill.induct)
  case (1 S l t mem r st)
  obtain i bs st1 where rd: "TcpRead S (CAP - r) st = ((i, bs), st1)" by (metis surj_pair)
  note own = TcpRead_owns [OF "1.prems"(2,3) rd]
  from "1.prems" "1.IH" [OF _ rd [symmetric] refl refl] own rd show ?case
    unfolding chunk_fill.simps [of S l t mem r st] by (auto split: if_splits)
qed

lemma chunk_loop_owns:
  assumes "chunk_loop S h b head t mem r st = Some res" "tracks_fds S tab" "owns_fd tab others st"
  shows "owns_fd tab others (snd res)"
proof -
  have "tracks_fds S tab \<and> owns_fd tab others st \<longrightarrow> owns_fd tab others (snd res)"
    using assms(1)
  proof (induction rule: chunk_loop.raw_induct [rotated, consumes 1, case_names step])
    case (step loop S h b head t mem r st res)
    obtain a st1 where rd: "TcpRead S (CAP - r) st = (a, st1)" by (metis surj_pair)
    show ?case
    proof
      assume *: "tracks_fds S tab \<and> owns_fd tab others st"
      show "owns_fd tab others (snd res)"
      proof (cases "find_sub CRLF (cstr (drop head mem))")
        case None
        with step.hyps rd have "snd res = st1" by (auto split: if_splits prod.splits)
        with TcpRead_owns [OF _ _ rd] * show ?thesis by blast
      next
        case (Some i)
        obtain f st2 where fill: "chunk_fill S (strtol16 (cstr (drop head mem))) (t - int (i + 2)) mem r st = (f, st2)"
          by (metis surj_pair)
        have own: "owns_fd tab others st2" using chunk_fill_owns [OF fill] * by blast
        have "snd res = st2 \<or> (\<exists>b' head' t' mem' r'. loop S h b' head' t' mem' r' st2 = Some res)"
          using step.hyps Some fill by (auto simp: Let_def split: sum.splits if_splits)
        with own * show ?thesis using step.IH by metis
      qed
    qed
  qed
  with assms(2,3) show ?thesis by blast
qed

lemma plain_answer_owns:
  assumes "plain_answer S n mem st = Some (res, st')" "tracks_fds S tab" "owns_fd tab others st"
  shows "owns_fd tab others st'"
proof -
  have counted: "owns_fd tab others (TcpClose S s)" if "plain_body_loop S h b m r st = Some (m', s)" for h b m r m' s
    using plain_body_loop_owns [OF that assms(2,3)] TcpClose_owns [OF assms(2)] by simp
  have chunked: "owns_fd tab others s" if "chunk_loop S h b d t m r st = Some (m', s)" for h b d t m r m' s
    using chunk_loop_owns [OF that assms(2,3)] by simp
  note closed = TcpClose_owns [OF assms(2,3)] TcpClose_owns [OF assms(2) chunked]
  show ?thesis
  proof (cases "n < 0 \<or> (\<forall>i. strstr_buf mem HEADER_END \<noteq> Some (Some i))")
    case True
    with assms(1) closed(1) show ?thesis
      by (auto simp: plain_answer_def Let_def split: option.splits if_splits)
  next
    case False
    then obtain i where i: "strstr_buf mem HEADER_END = Some (Some i)" "\<not> n < 0" by blast
    show ?thesis
    proof (cases "strstr_buf mem ''Content-Length:''")
      case None
      with assms(1) i show ?thesis by (simp add: plain_answer_def Let_def)
    next
      case (Some j)
      with assms(1) i closed counted chunked show ?thesis
        by (cases j) (auto simp: plain_answer_def Let_def split: option.splits if_splits)
    qed
  qed
qed

lemma ssl_answer_owns:
  assumes "ssl_answer S n mem st = Some (res, st')" "tracks_fds S tab" "owns_fd tab others st"
  shows "owns_fd tab others st'"
proof -
  have "st' = TcpSslDestroy S st \<or>
      (\<exists>h b m r m' s. ssl_body_loop S h b m r st = Some (m', s) \<and> st' = TcpSslDestroy S s)"
    using assms(1) by (fastforce simp: ssl_answer_def Let_def split: if_splits option.splits)
  then show ?thesis
    using ssl_body_loop_owns [OF _ assms(2,3)] TcpSslDestroy_owns [OF assms(2)] assms(3) by fastforce
qed

lemma remote_plain_owns:
  assumes "remote_plain S request st = Some (res, st')" "tracks_fds S tab" "owns_fd tab others st"
  shows "owns_fd tab others st'"
proof -
  obtain b st1 where wr: "TcpWrite S request st = (b, st1)" by (metis surj_pair)
  obtain n mem st2 where rd: "TcpRead S CAP st1 = ((n, mem), st2)" by (metis surj_pair)
  have 1: "owns_fd tab others st1" using fd_write.keeps_descriptors [OF assms(2,3), of request st1] wr by simp
  note 2 = TcpRead_owns [OF assms(2) 1 rd]
  from assms(1) wr rd plain_answer_owns [OF _ assms(2) 2] TcpClose_owns [OF assms(2) 1] show ?thesis
    by (auto simp: remote_plain_def split: if_splits)
qed

lemma remote_ssl_owns:
  assumes "remote_ssl S request st = Some (res, st')" "tracks_fds S tab" "owns_fd tab others st"
  shows "owns_fd tab others st'"
proof -
  obtain a st1 where i: "TcpSslInitEnv S st = (a, st1)" by (metis surj_pair)
  obtain ok st2 where c: "TcpSslConnect S st1 = (ok, st2)" by (metis surj_pair)
  have 1: "owns_fd tab others st1" using fd_ssl_env.keeps_descriptors [OF assms(2,3), of st1] i by simp
  have 2: "owns_fd tab others st2" using fd_ssl_connect.keeps_descriptors [OF assms(2) 1, of st2] c by simp
  show ?thesis
  proof (cases "TcpSslWriteLen S request st2")
    case None
    with assms(1) i c TcpSslDestroy_owns [OF assms(2) 2] show ?thesis by (auto simp: remote_ssl_def split: if_splits)
  next
    case (Some p)
    obtain m st3 where w: "TcpSslWriteLen S request st2 = Some (m, st3)" using Some by (cases p) simp
    obtain n mem st4 where rd: "TcpSslReadLen S CAP st3 = ((n, mem), st4)" by (metis surj_pair)
    have 3: "owns_fd tab others st3" using fd_ssl_write.keeps_descriptors [OF assms(2) 2, of request st3] w by simp
    note 4 = TcpSslReadLen_owns [OF assms(2) 3 rd]
    from assms(1) i c w rd ssl_answer_owns [OF _ assms(2) 4] TcpSslDestroy_owns [OF assms(2) 2]
      TcpSslDestroy_owns [OF assms(2) 3] show ?thesis
      by (auto simp: remote_ssl_def split: if_splits)
  qed
qed

lemma remote_data_cases:
  assumes "BdxGetRemoteGateWayData E conf req res err g = Some (x, g')"
  obtains port ip st r st1 st2 where
    "new_CTcpSocket (e_sys E) port ip 300000 (g_world g) = Some st" "TcpConnect (e_sys E) st = (r, st1)"
    "st2 = TcpClose (e_sys E) st1 \<or>
     (\<exists>request y f. remote_ssl (e_sys E) request (snd (ssl_init_once (e_sys E) f st1)) = Some (y, st2) \<or>
        remote_plain (e_sys E) request st1 = Some (y, st2))"
    "g_world g' = fst st2" "same_task g g'"
proof -
  obtain ip port where a: "remote_address (mStrHostInfo conf) = (ip, port)" by (metis surj_pair)
  from assms obtain request st where r: "BdxGenerateReqUrl conf = Some request"
    and new: "new_CTcpSocket (e_sys E) port ip 300000 (g_world g) = Some st"
    by (auto simp: BdxGetRemoteGateWayData_def a Let_def split: option.splits)
  obtain c st1 where con: "TcpConnect (e_sys E) st = (c, st1)" by (metis surj_pair)
  obtain f st1' where ini: "ssl_init_once (e_sys E) (InitSSLFlag g) st1 = (f, st1')" by (metis surj_pair)
  show thesis
  proof (cases "c = 0")
    case False
    with assms a r new con show thesis by (intro that [OF new con]) (auto simp: BdxGetRemoteGateWayData_def Let_def)
  next
    case True
    with assms a r new con ini obtain y st2 where
      ex: "(if mIntIsHttps conf = 1 then remote_ssl (e_sys E) (cstr request) st1'
            else remote_plain (e_sys E) (cstr request) st1) = Some (y, st2)"
      and "g_world g' = fst st2" "same_task g g'"
      by (auto simp: BdxGetRemoteGateWayData_def Let_def split: option.splits sum.splits if_splits)
    moreover have "st1' = snd (ssl_init_once (e_sys E) (InitSSLFlag g) st1)" by (simp add: ini)
    ultimately show thesis by (intro that [OF new con]) (auto split: if_splits)
  qed
qed

interpretation remote_call: hub_operation "\<lambda>E. BdxGetRemoteGateWayData E conf req res err"
proof
  fix E :: "('w, 'j) env" and g :: "'w gateway" and r g'
  assume "BdxGetRemoteGateWayData E conf req res err g = Some (r, g')"
  then show "same_task g g'" by (rule remote_data_cases)
next
  fix E :: "('w, 'j) env" and tab and g :: "'w gateway" and r g'
  assume *: "tracks_fds (e_sys E) tab"
  assume "BdxGetRemoteGateWayData E conf req res err g = Some (r, g')"
  then show "tab (g_world g') = tab (g_world g) \<or>
      (\<exists>fd. tab (g_world g) fd = None \<and> tab (g_world g') = (tab (g_world g))(fd \<mapsto> False))"
  proof (rule remote_data_cases)
    fix port ip st c st1 st2
    assume new: "new_CTcpSocket (e_sys E) port ip 300000 (g_world g) = Some st" and con: "TcpConnect (e_sys E) st = (c, st1)"
      and st2: "st2 = TcpClose (e_sys E) st1 \<or>
        (\<exists>request y f. remote_ssl (e_sys E) request (snd (ssl_init_once (e_sys E) f st1)) = Some (y, st2) \<or>
          remote_plain (e_sys E) request st1 = Some (y, st2))" and w: "g_world g' = fst st2"
    have 0: "owns_fd tab (tab (g_world g)) st" using new_CTcpSocket_owns [OF *] new by (cases st) blast
    have 1: "owns_fd tab (tab (g_world g)) st1" using fd_connect.keeps_descriptors [OF * 0, of st1] con by simp
    have "owns_fd tab (tab (g_world g)) (snd (ssl_init_once (e_sys E) f st1))" for f
      using 1 fd_ssl_params.keeps_descriptors [OF * 1] by (simp add: ssl_init_once_def)
    with st2 1 have "owns_fd tab (tab (g_world g)) st2"
      using remote_ssl_owns [OF _ *] remote_plain_owns [OF _ *] TcpClose_owns [OF *] by blast
    with w show ?thesis by (cases st2) (auto simp: owns_fd_def split: if_splits)
  qed
qed

section \<open>Properties of the exchange\<close>

lemma plain_body_loop_closed:
  assumes "plain_body_loop S h n mem r st = Some res" "m_iSockfd (snd st) = -1" "int r - int h < n"
  shows False
proof -
  have "m_iSockfd (snd st) = -1 \<and> int r - int h < n \<longrightarrow> False"
    using assms(1)
  proof (induction rule: plain_body_loop.raw_induct [rotated, consumes 1, case_names step])
    case (step loop S h n mem r st res)
    obtain w s where st: "st = (w, s)" by (cases st)
    show ?case
    proof
      assume *: "m_iSockfd (snd st) = -1 \<and> int r - int h < n"
      then have rd: "TcpRead S k st = ((-1, []), w, s)" for k by (simp add: st TcpRead_def read_timed_def)
      have "m_iSockfd (snd (TcpClose S (w, s))) = -1"
        using * by (auto simp: st TcpClose_def split: prod.splits)
      moreover from step.hyps * rd have "loop S h n mem r (TcpClose S (w, s)) = Some res" by simp
      ultimately show False using step.IH * by blast
    qed
  qed
  with assms(2,3) show False by blast
qed

text \<open>
  C38. When the remote side stops sending before the announced \<open>Content-Length\<close>, the loop that
  reads the body closes the socket and never returns: the working thread is lost.
\<close>

theorem remote_truncated_body_hangs:
  assumes "int uiReadLen - int uiHeadLen < uiBodyLen"
    "TcpRead S (nat (uiBodyLen - (int uiReadLen - int uiHeadLen))) st = ((iRes, bs), st')" "iRes \<le> 0"
    "m_bConnect (snd st')"
  shows "plain_body_loop S uiHeadLen uiBodyLen mem uiReadLen st = None"
proof -
  have "m_iSockfd (snd (TcpClose S st')) = -1"
    using assms(4) by (cases st') (auto simp: TcpClose_def split: prod.splits)
  then have "plain_body_loop S uiHeadLen uiBodyLen mem uiReadLen (TcpClose S st') = None"
    using plain_body_loop_closed assms(1) by (metis not_None_eq)
  then show ?thesis using assms(1-3) by (subst plain_body_loop.simps) simp
qed

theorem remote_truncated_body_hangs_witness:
  "plain_body_loop toy_sys 19 100 (''HTTP/1.1 200 OK'' @ HEADER_END) 19 (toy_world [], toy_socket) = None"
  by (rule remote_truncated_body_hangs [where iRes = 0 and bs = "[]" and st' = "(toy_world [], toy_socket)"])
     (simp_all add: TcpRead_def read_timed_def toy_sys_def toy_world_def toy_socket_def new_accepted_def)

text \<open>
  C39. A TLS handshake with the remote API that fails is reported as success with an empty answer,
  which the caller sends to the user and counts against the order.
\<close>

theorem remote_tls_failure_succeeds:
  assumes "BdxGenerateReqUrl conf = Some request" "remote_address (mStrHostInfo conf) = (ip, port)"
    "new_CTcpSocket (e_sys E) port ip 300000 (g_world g) = Some st" "TcpConnect (e_sys E) st = (0, st1)"
    "mIntIsHttps conf = 1" "ssl_init_once (e_sys E) (InitSSLFlag g) st1 = (flag, st2)"
    "TcpSslInitEnv (e_sys E) st2 = (r, st3)" "TcpSslConnect (e_sys E) st3 = (False, st4)"
  shows "BdxGetRemoteGateWayData E conf req res errorMsg g =
    Some ((SUCCESS, req\<lparr>m_strRequestParam := mStrHostInfo conf @ ''###'' @ cstr request\<rparr>, res\<lparr>mResValue := []\<rparr>, errorMsg),
          g\<lparr>g_world := fst (TcpSslDestroy (e_sys E) st4), InitSSLFlag := flag\<rparr>)"
  using assms by (simp add: BdxGetRemoteGateWayData_def remote_ssl_def Let_def)

text \<open>A gateway on the small operating system, with a redis that answers each command as told.\<close>

definition toy_redis :: "(string \<Rightarrow> rarg list \<Rightarrow> redisReply) \<Rightarrow> toy hiredis" where
  "toy_redis answers =
     \<lparr>redisConnectWithTimeout = (\<lambda>w host port t. (Some (0, False), w)), redisFree = (\<lambda>w c. w),
      redisCommand = (\<lambda>w c fmt args. (Some (answers fmt args), w)), getenv = (\<lambda>w name. None)\<rparr>"

definition toy_env :: "toy sys \<Rightarrow> (string \<Rightarrow> rarg list \<Rightarrow> redisReply) \<Rightarrow> (toy, string) env" where
  "toy_env S answers =
     \<lparr>e_sys = S, e_redis = toy_redis answers, e_getenv = (\<lambda>name. Some ''443''), e_now = (\<lambda>w. sample_tm),
      e_json = sample_json\<rparr>"

definition toy_gateway :: "string \<Rightarrow> toy gateway" where
  "toy_gateway input =
     \<lparr>g_world = toy_world input, InitSSLFlag = 0, m_sRegion = [],
      m_pDataRedis = \<lparr>serv_count = 1, data = [new_CDataRedis\<lparr>r_context := Some 0\<rparr>], m_clMd5 = sample_md5\<rparr>,
      m_vecReport = [], m_vecHiveLog = [], g_strDataHubToken = [], m_httpType = 0, m_pclSock = Some toy_socket\<rparr>"

definition sample_api :: BDXAPIGATEWAYCONFIF_S where
  "sample_api =
     \<lparr>mStrHostInfo = ''10.0.0.1:443'', mStrUrlPath = ''/api?'', mStrCname = ''api'', mStrReqParams = [''tel=1'', ''city=0''],
      mStrApiKey = [], mIntIsHttps = 0, mIntIsVerify = 0, mIntQueryTimesLimit = 0, mIntReqtype = 1, mStrPostTemplate = []\<rparr>"

definition refusing_sys :: "toy sys" where
  "refusing_sys = toy_sys\<lparr>SSL_connect := \<lambda>_ w. (0, w)\<rparr>"

definition zero_response :: BDXRESPONSE_S where
  "zero_response =
     \<lparr>mResValue = [], ssUserCountKeyReq = [], ssUserCountKeyRes = [], ssUserCountKeyEmptyRes = [],
      ssUserCountKeyLimitReq = [], ssUserName = [], ssOperatorName = [], ssOperatorNameKeyReq = [],
      ssOperatorNameKeyEmptyRes = [], ssOperatorNameKeyRes = [], ssOperatorNameKeyLimit = [], queryType = 0\<rparr>"

theorem remote_tls_failure_succeeds_witness:
  "\<exists>req g. BdxGetRemoteGateWayData (toy_env refusing_sys (\<lambda>_ _. ok_reply)) (sample_api\<lparr>mIntIsHttps := 1\<rparr>)
      \<lparr>m_strRequestParam = []\<rparr> zero_response [] (toy_gateway []) = Some ((0, req, zero_response, []), g)"
proof -
  let ?conf = "sample_api\<lparr>mIntIsHttps := 1\<rparr>"
  let ?w = "toy_world []\<lparr>toy_fds := {3}\<rparr>"
  let ?s = "\<lparr>m_iSockfd = 3, m_in_portPort = 443, m_strIp = ''10.0.0.1'', m_uiTimeout = 300000,
    m_bConnect = False, m_ssl = None, m_ssl_ctx = None\<rparr>"
  let ?s1 = "?s\<lparr>m_bConnect := True\<rparr>" and ?s3 = "?s\<lparr>m_bConnect := True, m_ssl_ctx := Some 1, m_ssl := Some 2\<rparr>"
  have "BdxGenerateReqUrl ?conf = Some (httpReq (get_url ?conf) ''api'')"
    by (simp add: BdxGenerateReqUrl_def sample_api_def sprintf_into_def httpReq_def get_url_def literal_text)
  moreover have "remote_address (mStrHostInfo ?conf) = (''10.0.0.1'', 443)"
    by (simp add: remote_address_def sample_api_def str_find_def literal_text atoi_eval)
  ultimately have "BdxGetRemoteGateWayData (toy_env refusing_sys (\<lambda>_ _. ok_reply)) ?conf \<lparr>m_strRequestParam = []\<rparr>
      zero_response [] (toy_gateway []) =
    Some ((SUCCESS, \<lparr>m_strRequestParam = mStrHostInfo ?conf @ ''###'' @ cstr (httpReq (get_url ?conf) ''api'')\<rparr>,
        zero_response\<lparr>mResValue := []\<rparr>, []),
      (toy_gateway [])\<lparr>g_world := fst (TcpSslDestroy (e_sys (toy_env refusing_sys (\<lambda>_ _. ok_reply))) (?w, ?s3)), InitSSLFlag := 1\<rparr>)"
    by (subst remote_tls_failure_succeeds [where st = "(?w, ?s)" and ?st1.0 = "(?w, ?s1)" and ?st2.0 = "(?w, ?s1)" and
          r = 0 and ?st3.0 = "(?w, ?s3)" and ?st4.0 = "(?w, ?s3)" and flag = 1])
       (simp_all add: toy_env_def refusing_sys_def toy_sys_def toy_gateway_def toy_world_def new_CTcpSocket_def
         TcpConnect_def ssl_init_once_def TcpSslInitParams_def TcpSslInitEnv_def TcpSslConnect_def)
  then show ?thesis by (simp add: zero_response_def)
qed

end
