(* ===== verification/TaskMain.thy ===== *)
theory TaskMain
  imports RemoteApi "HOL-Library.Monad_Syntax"
begin

text \<open>
  A request from its first byte to the answer: \<open>CTaskMain\<close> of
  \<open>src/UserQueryTask/TaskMain/TaskMain.cpp\<close> (lines 55 to 663 and 1274 to 1345). The long method
  \<open>BdxParseBody\<close> is cut into the phases it goes through, in order: request line, query string,
  user token, gateway token, order, quota, parameters, remote call.

  The table of configured APIs, which the update thread maintains, is the argument \<open>apis\<close>.
  \<open>None\<close> is a request without a defined outcome, as in the theories this one builds on; an error
  that the code reports is a value.
\<close>

section \<open>Redis from within a task\<close>

definition on_redis :: "('w astate \<Rightarrow> ('r \<times> 'w astate) option) \<Rightarrow> 'w gateway \<Rightarrow> ('r \<times> 'w gateway) option" where
  "on_redis operation g =
     do { (r, w, a) \<leftarrow> operation (g_world g, m_pDataRedis g);
          Some (r, g\<lparr>g_world := w, m_pDataRedis := a\<rparr>) }"

definition bump :: "(USERINFO_S \<Rightarrow> USERINFO_S) \<Rightarrow> string \<Rightarrow> 'w gateway \<Rightarrow> 'w gateway" where
  "bump f name g = g\<lparr>m_vecReport := report_bump f name (m_vecReport g)\<rparr>"

abbreviation one_more_req :: "USERINFO_S \<Rightarrow> USERINFO_S" where
  "one_more_req u \<equiv> u\<lparr>m_ullReqNum := m_ullReqNum u + 1\<rparr>"
abbreviation one_more_res :: "USERINFO_S \<Rightarrow> USERINFO_S" where
  "one_more_res u \<equiv> u\<lparr>m_ullResNum := m_ullResNum u + 1\<rparr>"
abbreviation one_more_empty :: "USERINFO_S \<Rightarrow> USERINFO_S" where
  "one_more_empty u \<equiv> u\<lparr>m_ullEmptyResNum := m_ullEmptyResNum u + 1\<rparr>"

section \<open>The request line\<close>

text \<open>
  The positions are stored in \<open>unsigned int\<close>s, so the test for \<open>npos\<close> never fails and \<open>m_httpType\<close> is
  always set. The length passed to \<open>substr\<close> is computed in 64 bits.
\<close>

definition request_target :: "string \<Rightarrow> string option" where
  "request_target buf =
     (let ssContent = url_decode buf;
          ipos = pos_uint (str_find ssContent [CTRL_N] 0);
          jpos = pos_uint (str_find ssContent ''GET'' 0)
      in substr_int ssContent (uint (jpos + 4)) (uint ipos - 9 - uint (jpos + 4)))"

definition action_of :: "string \<Rightarrow> string" where
  "action_of ssContent =
     (let strAction = (case str_find ssContent ''?'' 0 of Some i \<Rightarrow> take i ssContent | None \<Rightarrow> ssContent)
      in case str_rfind strAction (CHR ''/'') of Some i \<Rightarrow> drop (i + 1) strAction | None \<Rightarrow> strAction)"

text \<open>The query string: between the first question mark and the last blank.\<close>

definition query_of :: "string \<Rightarrow> string option" where
  "query_of ssContent =
     (case (str_find ssContent ''?'' 0, str_rfind ssContent BLANK) of
        (Some ibegin, Some iend) \<Rightarrow> substr_int ssContent (int ibegin + 1) (int iend - int ibegin - 1)
      | _ \<Rightarrow> None)"

section \<open>The query string\<close>

text \<open>
  One counter runs through the tokens of all parameters: every second token is a value of the one
  before it. A parameter without a value shifts the ones after it.
\<close>

fun pair_tokens :: "string list \<Rightarrow> (string \<times> string) list" where
  "pair_tokens (k # v # ts) = (k, url_encode v) # pair_tokens ts"
| "pair_tokens ts = []"

definition query_map :: "string \<Rightarrow> string smap" where
  "query_map s =
     foldl (\<lambda>m (k, v). smap_put k v m) []
       (pair_tokens (concat (map (tokens (CHR ''='')) (tokens (CHR ''&'') s))))"

text \<open>Blanks become \<open>%20\<close>; the text is copied into \<open>bufTemp[1024]\<close>.\<close>

definition parse_query :: "string \<Rightarrow> string smap option" where
  "parse_query ssContent =
     do { s \<leftarrow> BdxTaskMainReplace_All ssContent '' '' ''%20'';
          if length s < 1024 then Some (query_map s) else None }"

section \<open>The user's token\<close>

definition user_keys :: "string \<Rightarrow> string \<Rightarrow> BDXRESPONSE_S \<Rightarrow> BDXRESPONSE_S" where
  "user_keys time user res =
     res\<lparr>ssUserName := user, ssUserCountKeyReq := ''Req_'' @ time @ ''_'' @ user,
         ssUserCountKeyRes := ''Res_'' @ time @ ''_'' @ user,
         ssUserCountKeyEmptyRes := ''EmptyRes_'' @ time @ ''_'' @ user, ssUserCountKeyLimitReq := ''Limit_'' @ user\<rparr>"

definition count_request :: "('w, 'j) env \<Rightarrow> string \<Rightarrow> BDXRESPONSE_S \<Rightarrow> 'w gateway \<Rightarrow> (BDXRESPONSE_S \<times> 'w gateway) option" where
  "count_request E user res g =
     do { time \<leftarrow> BdxTaskMainGetTime (e_now E (g_world g));
          let res = user_keys time user res;
          (_, g) \<leftarrow> on_redis (UserIncr (e_redis E) (ssUserCountKeyReq res) 0) g;
          Some (res, bump one_more_req user g) }"

text \<open>\<open>Some message\<close> when the request is refused.\<close>

definition authorise :: "('w, 'j) env \<Rightarrow> string \<Rightarrow> string \<Rightarrow> 'w gateway \<Rightarrow> (string option \<times> 'w gateway) option" where
  "authorise E user sig g =
     do { let strUserToken = user @ KEY_DELIMITER @ KEY_startToken;
          let strTokenRegion = sig @ KEY_DELIMITER @ KEY_SREGION;
          ((_, stored), g) \<leftarrow> on_redis (UserGet (e_redis E) strUserToken []) g;
          if sig \<noteq> cstr stored then
            do { (ok, g) \<leftarrow> BdxVerifyDataHubToken E user sig g;
                 if ok = 1 then
                   do { (put, g) \<leftarrow> on_redis (UserPutExpire (e_redis E) strUserToken sig 10800) g;
                        if \<not> put then Some (Some ''8008 set redis value error'', g)
                        else do { (put, g) \<leftarrow> on_redis (UserPutExpire (e_redis E) strTokenRegion (m_sRegion g) 10800) g;
                                  Some (if \<not> put then Some ''8008 set redis value error'' else None, g) } }
                 else Some (Some ''8001 user token is error'', g) }
          else
            do { ((_, region), g) \<leftarrow> on_redis (UserGet (e_redis E) strTokenRegion (m_sRegion g)) g;
                 Some (None, g\<lparr>m_sRegion := region\<rparr>) } }"

section \<open>The gateway's token\<close>

definition gateway_token :: "('w, 'j) env \<Rightarrow> 'w gateway \<Rightarrow> (string option \<times> 'w gateway) option" where
  "gateway_token E g =
     do { let key = KEY_apiGateWayAdmin @ KEY_DELIMITER @ KEY_startToken;
          ((found, stored), g) \<leftarrow> on_redis (UserGet (e_redis E) key []) g;
          if found then Some (Some stored, g\<lparr>g_strDataHubToken := stored\<rparr>)
          else do { (token, g) \<leftarrow> BdxApiGateWayGetDataHubToken E g;
                    if token = [] then Some (None, g)
                    else do { (_, g) \<leftarrow> on_redis (UserPutExpire (e_redis E) key token 10800) g;
                              Some (Some token, g\<lparr>g_strDataHubToken := token\<rparr>) } } }"

section \<open>The order\<close>

definition order_set :: "string \<Rightarrow> string \<Rightarrow> string \<Rightarrow> string" where
  "order_set user repo item =
     user @ KEY_DELIMITER @ KEY_startOrderID @ KEY_DELIMITER @ repo @ KEY_DELIMITER @ item"

definition order_prefix :: "string \<Rightarrow> string \<Rightarrow> string \<Rightarrow> string" where
  "order_prefix user repo item = user @ KEY_DELIMITER @ repo @ KEY_DELIMITER @ item @ KEY_DELIMITER"

definition order_key :: "string \<Rightarrow> string \<Rightarrow> string \<Rightarrow> string \<Rightarrow> string \<Rightarrow> string" where
  "order_key kind user repo item subid = kind @ KEY_DELIMITER @ order_prefix user repo item @ subid"

text \<open>
  Each order of the service is stored under its four keys and acknowledged. When the service does
  not take the acknowledgement, an entry of the user's set is removed again; its name is left in
  \<open>ssmoidValue\<close>.
\<close>

fun store_orders :: "('w, 'j) env \<Rightarrow> string \<Rightarrow> string \<Rightarrow> string \<Rightarrow> string \<Rightarrow> DATAHUB_ORDER_INFO_S list \<Rightarrow> string \<Rightarrow>
    'w gateway \<Rightarrow> 'w gateway option" where
  "store_orders E user repo item token [] ssmoidValue g = Some g"
| "store_orders E user repo item token (order # os) ssmoidValue g =
     do { let subid = m_subscriptionID order;
          (_, g) \<leftarrow> on_redis (UserPutOrderSet (e_redis E) (order_set user repo item) subid subid) g;
          (_, g) \<leftarrow> on_redis (UserPut (e_redis E) (order_key KEY_startOrderCount user repo item subid) ''0'') g;
          (_, g) \<leftarrow> on_redis (UserPutExpire (e_redis E) (order_key KEY_startOrderExpire user repo item subid) subid
                     (to_int32 (atol (m_expireTime order) * 86400))) g;
          (_, g) \<leftarrow> on_redis (UserPut (e_redis E) (order_key KEY_startOrderLimit user repo item subid) (m_units order)) g;
          (_, g) \<leftarrow> on_redis (UserPut (e_redis E) (order_key KEY_startOrderStatus user repo item subid) ''0'') g;
          (ok, g) \<leftarrow> BdxApiSetUserOrderStatus E user subid repo item token g;
          if ok then store_orders E user repo item token os ssmoidValue g
          else do { ((_, v), g) \<leftarrow> on_redis (UserRemoveSortedSet (e_redis E) (order_set user repo item) ssmoidValue) g;
                    store_orders E user repo item token os v g } }"

definition find_order :: "('w, 'j) env \<Rightarrow> string \<Rightarrow> string \<Rightarrow> string \<Rightarrow> string \<Rightarrow> 'w gateway \<Rightarrow> (string \<times> 'w gateway) option" where
  "find_order E user repo item token g =
     do { ((found, subid), g) \<leftarrow> on_redis (UserGetSortedSet (e_redis E) (order_set user repo item) []) g;
          if found then Some (subid, g)
          else do { (orders, g) \<leftarrow> BdxApiGetUserOrder E repo item user token g;
                    g \<leftarrow> store_orders E user repo item token orders subid g;
                    ((_, subid), g) \<leftarrow> on_redis (UserGetSortedSet (e_redis E) (order_set user repo item) []) g;
                    Some (subid, g) } }"

section \<open>The quota\<close>

abbreviation MSG_8004 :: string where "MSG_8004 \<equiv> ''8004 can'' @ [CHR 0x27] @ ''t get order info''"

text \<open>What is done about an order that is used up or has expired.\<close>

definition close_order :: "('w, 'j) env \<Rightarrow> string \<Rightarrow> string \<Rightarrow> string \<Rightarrow> string \<Rightarrow> string \<Rightarrow> int \<Rightarrow> 'w gateway \<Rightarrow> 'w gateway option" where
  "close_order E user repo item subid token used g =
     do { (_, g) \<leftarrow> on_redis (UserRemoveSortedSet (e_redis E) (order_set user repo item) []) g;
          let status = order_key KEY_startOrderStatus user repo item subid;
          ((found, v), g) \<leftarrow> on_redis (UserGet (e_redis E) status []) g;
          if found \<and> atoi v = 0 then
            do { (_, g) \<leftarrow> BdxApiUpdateUserOrder E user subid repo item token used g;
                 (_, g) \<leftarrow> on_redis (UserSmove (e_redis E) ''need_updated_datahub_order'' ''already_updated_datahub_order''
                            (order_prefix user repo item @ subid)) g;
                 (_, g) \<leftarrow> on_redis (UserPut (e_redis E) status ''1'') g;
                 Some g }
          else Some g }"

definition check_quota :: "('w, 'j) env \<Rightarrow> string \<Rightarrow> string \<Rightarrow> string \<Rightarrow> string \<Rightarrow> string \<Rightarrow> 'w gateway \<Rightarrow>
    (string option \<times> 'w gateway) option" where
  "check_quota E user repo item subid token g =
     do { ((found, count), g) \<leftarrow> on_redis (UserGet (e_redis E) (order_key KEY_startOrderCount user repo item subid) []) g;
          if \<not> found then Some (Some MSG_8004, g)
          else
            do { ((found, limit), g) \<leftarrow> on_redis (UserGet (e_redis E) (order_key KEY_startOrderLimit user repo item subid) []) g;
                 if \<not> found then Some (Some MSG_8004, g)
                 else
                   do { (valid, g) \<leftarrow>
                          (if atoi count \<ge> atoi limit then Some (False, g)
                           else do { ((b, _), g) \<leftarrow> on_redis (UserGet (e_redis E)
                                        (order_key KEY_startOrderExpire user repo item subid) count) g;
                                     Some (b, g) });
                        if valid then Some (None, g)
                        else do { g \<leftarrow> close_order E user repo item subid token (atoi count) g;
                                  Some (Some ''8003 over quato limit or order is expired'', g) } } } }"

section \<open>The parameters of the API\<close>

text \<open>
  Each configured parameter is \<open>name=marker\<close>. A parameter the request has gets its value in the
  place of the marker; one it does not have is an error when the marker is the number 1, and is
  left out otherwise.
\<close>

fun fill_params :: "string smap \<Rightarrow> string list \<Rightarrow> string + string list" where
  "fill_params m [] = Inr []"
| "fill_params m (p # ps) =
     (case str_find p ''='' 0 of
        None \<Rightarrow> Inl ''1400 config req param is not wrong''
      | Some equalPosition \<Rightarrow>
          (let tempValue = drop (equalPosition + 1) p; realParam = take equalPosition p
           in case smap_find m realParam of
                Some realValue \<Rightarrow>
                  (case fill_params m ps of
                     Inl e \<Rightarrow> Inl e
                   | Inr qs \<Rightarrow> Inr (BdxTaskMainReplace_FirstOnece p tempValue realValue # qs))
              | None \<Rightarrow>
                  if atoi tempValue = 1 then Inl (''1401  req param is missing '' @ realParam)
                  else fill_params m ps))"

section \<open>The call\<close>

definition operator_keys :: "string \<Rightarrow> string \<Rightarrow> BDXRESPONSE_S \<Rightarrow> BDXRESPONSE_S" where
  "operator_keys time name res =
     res\<lparr>ssOperatorName := name, ssOperatorNameKeyReq := ''Req_'' @ time @ ''_'' @ name,
         ssOperatorNameKeyRes := ''Res_'' @ time @ ''_'' @ name,
         ssOperatorNameKeyEmptyRes := ''EmptyRes_'' @ time @ ''_'' @ name, ssOperatorNameKeyLimit := ''Limit_'' @ name\<rparr>"

definition log_call :: "('w, 'j) env \<Rightarrow> string \<Rightarrow> BDXREQUEST_S \<Rightarrow> BDXRESPONSE_S \<Rightarrow> 'w gateway \<Rightarrow> 'w gateway option" where
  "log_call E target req res g =
     do { full \<leftarrow> BdxTaskMainGetFullTime (e_now E (g_world g));
          date \<leftarrow> BdxTaskMainGetDate (e_now E (g_world g));
          hour \<leftarrow> str_substr full 8 2;
          Some (g\<lparr>m_vecHiveLog := m_vecHiveLog g @
            [\<lparr>h_strAction = base64_encode (map byte_of (m_strRequestParam req)), h_strReqParams = target,
              h_strValue = mResValue res, h_strQuerytime = full, h_strDayId = date, h_strHourId = hour\<rparr>]\<rparr>) }"

type_synonym outcome = "int \<times> BDXREQUEST_S \<times> BDXRESPONSE_S \<times> string"

definition count_failure :: "('w, 'j) env \<Rightarrow> string \<Rightarrow> BDXREQUEST_S \<Rightarrow> BDXRESPONSE_S \<Rightarrow> 'w gateway \<Rightarrow> (outcome \<times> 'w gateway) option" where
  "count_failure E user req res g =
     do { time \<leftarrow> BdxTaskMainGetTime (e_now E (g_world g));
          let res = res\<lparr>ssUserCountKeyEmptyRes := ''EmptyRes_'' @ time @ ''_'' @ user\<rparr>;
          (_, g) \<leftarrow> on_redis (UserIncr (e_redis E) (ssOperatorNameKeyEmptyRes res) 0) g;
          (_, g) \<leftarrow> on_redis (UserIncr (e_redis E) (ssUserCountKeyEmptyRes res) 0)
                     (bump one_more_empty (ssOperatorName res) g);
          Some ((OTHERERROR, req, res, ''1104 get remote api data is  error''), bump one_more_empty (ssUserName res) g) }"

definition count_success :: "('w, 'j) env \<Rightarrow> string \<Rightarrow> BDXREQUEST_S \<Rightarrow> BDXRESPONSE_S \<Rightarrow> string \<Rightarrow> 'w gateway \<Rightarrow>
    (outcome \<times> 'w gateway) option" where
  "count_success E strCountOrderId req res errorMsg g =
     do { (_, g) \<leftarrow> on_redis (UserIncr (e_redis E) strCountOrderId 0) g;
          (_, g) \<leftarrow> on_redis (UserIncr (e_redis E) (ssOperatorNameKeyRes res) 0) g;
          (_, g) \<leftarrow> on_redis (UserIncr (e_redis E) (ssUserCountKeyRes res) 0) (bump one_more_res (ssOperatorName res) g);
          Some ((SUCCESS, req, res, errorMsg), bump one_more_res (ssUserName res) g) }"

definition call_api :: "('w, 'j) env \<Rightarrow> BDXAPIGATEWAYCONFIF_S \<Rightarrow> string \<Rightarrow> string \<Rightarrow> string \<Rightarrow> BDXREQUEST_S \<Rightarrow> BDXRESPONSE_S \<Rightarrow>
    string \<Rightarrow> 'w gateway \<Rightarrow> (outcome \<times> 'w gateway) option" where
  "call_api E conf target user strCountOrderId req res errorMsg g =
     do { (_, g) \<leftarrow> on_redis (UserIncr (e_redis E) (ssOperatorNameKeyReq res) 0) g;
          ((iRes, req, res, errorMsg), g) \<leftarrow>
             BdxGetRemoteGateWayData E conf req res errorMsg (bump one_more_req (ssOperatorName res) g);
          g \<leftarrow> log_call E target req res g;
          if iRes \<noteq> 0 then count_failure E user req res g
          else count_success E strCountOrderId req res errorMsg g }"

section \<open>The whole request\<close>

definition dispatch :: "('w, 'j) env \<Rightarrow> BDXAPIGATEWAYCONFIF_S smap \<Rightarrow> string \<Rightarrow> string \<Rightarrow> string smap \<Rightarrow> string \<Rightarrow> string \<Rightarrow> string \<Rightarrow>
    string \<Rightarrow> BDXREQUEST_S \<Rightarrow> BDXRESPONSE_S \<Rightarrow> string \<Rightarrow> 'w gateway \<Rightarrow> (outcome \<times> 'w gateway) option" where
  "dispatch E apis target action m user repo item subid req res errorMsg g =
     do { time \<leftarrow> BdxTaskMainGetTime (e_now E (g_world g));
          let res = operator_keys time (user @ ''_'' @ repo @ ''_'' @ item @ ''_'' @ action @ ''_'' @ subid) res;
          case smap_find apis action of
            None \<Rightarrow> Some ((OTHERERROR, req, res, ''1103 apiname is not exists''), g)
          | Some conf \<Rightarrow>
              (case fill_params m (mStrReqParams conf) of
                 Inl e \<Rightarrow> Some ((OTHERERROR, req, res, e), g)
               | Inr params \<Rightarrow>
                   call_api E (conf\<lparr>mStrReqParams := params\<rparr>) target user
                     (order_key KEY_startOrderCount user repo item subid) req res errorMsg g) }"

definition serve :: "('w, 'j) env \<Rightarrow> BDXAPIGATEWAYCONFIF_S smap \<Rightarrow> string \<Rightarrow> string \<Rightarrow> string smap \<Rightarrow> string \<Rightarrow> string \<Rightarrow> string \<Rightarrow>
    string \<Rightarrow> BDXREQUEST_S \<Rightarrow> BDXRESPONSE_S \<Rightarrow> string \<Rightarrow> 'w gateway \<Rightarrow> (outcome \<times> 'w gateway) option" where
  "serve E apis target action m user repo item sig req res errorMsg g =
     do { (res, g) \<leftarrow> count_request E user res g;
          (refused, g) \<leftarrow> authorise E user sig g;
          case refused of
            Some e \<Rightarrow> Some ((OTHERERROR, req, res, e), g)
          | None \<Rightarrow>
              do { (token, g) \<leftarrow> gateway_token E g;
                   case token of
                     None \<Rightarrow> Some ((OTHERERROR, req, res, ''8002 gateway token is error''), g)
                   | Some token \<Rightarrow>
                       do { (subid, g) \<leftarrow> find_order E user repo item token g;
                            (refused, g) \<leftarrow> check_quota E user repo item subid token g;
                            case refused of
                              Some e \<Rightarrow> Some ((OTHERERROR, req, res, e), g)
                            | None \<Rightarrow> dispatch E apis target action m user repo item subid req res errorMsg g } } }"

definition BdxParseBody :: "('w, 'j) env \<Rightarrow> BDXAPIGATEWAYCONFIF_S smap \<Rightarrow> string \<Rightarrow> BDXREQUEST_S \<Rightarrow> BDXRESPONSE_S \<Rightarrow>
    string \<Rightarrow> 'w gateway \<Rightarrow> (outcome \<times> 'w gateway) option" where
  "BdxParseBody E apis buf req res errorMsg g =
     do { target \<leftarrow> request_target buf;
          let g = g\<lparr>m_httpType := 1\<rparr>;
          case query_of target of
            None \<Rightarrow> Some ((OTHERERROR, req, res, ''1100  request param is error''), g)
          | Some query \<Rightarrow>
              do { m \<leftarrow> parse_query query;
                   case (smap_find m KEY_ACCESS_KEY_ID, smap_find m KEY_REPOSITIRY, smap_find m KEY_ITEM,
                         smap_find m KEY_SIGNATURE) of
                     (Some user, Some repo, Some item, Some sig) \<Rightarrow>
                       serve E apis target (action_of target) m user repo item sig req res errorMsg g
                   | _ \<Rightarrow> Some ((OTHERERROR, req, res, ''1100 param missing or error''), g) } }"

text \<open>The first bytes and the end of the header, looked for in \<open>m_pszAdxBuf[8192]\<close>.\<close>

definition BdxParseHttpPacket :: "string \<Rightarrow> int option" where
  "BdxParseHttpPacket mem =
     (if \<not> starts_with ''GET'' (cstr mem) then Some PROTOERROR
      else case find_sub HEADER_END (cstr mem) of
        Some _ \<Rightarrow> Some SUCCESS
      | None \<Rightarrow> if length (cstr mem) < 8192 then Some PROTOERROR else None)"

definition on_socket :: "('w sockstate \<Rightarrow> 'r \<times> 'w sockstate) \<Rightarrow> CTcpSocket \<Rightarrow> 'w gateway \<Rightarrow> 'r \<times> 'w gateway" where
  "on_socket operation sock g =
     (let (r, w, s) = operation (g_world g, sock) in (r, g\<lparr>g_world := w, m_pclSock := Some s\<rparr>))"

definition BdxGetHttpPacket :: "('w, 'j) env \<Rightarrow> BDXAPIGATEWAYCONFIF_S smap \<Rightarrow> CTcpSocket \<Rightarrow> BDXREQUEST_S \<Rightarrow> BDXRESPONSE_S \<Rightarrow>
    'w gateway \<Rightarrow> (outcome \<times> 'w gateway) option" where
  "BdxGetHttpPacket E apis sock req res g =
     (let ((iRes, mem), g) = on_socket (TcpRead (e_sys E) 8192) sock g
      in if iRes \<le> 0 then Some ((LINKERROR, req, res, ''1101 Read Socket Error''), g)
         else do { code \<leftarrow> BdxParseHttpPacket mem;
                   if code = SUCCESS then do { buf \<leftarrow> buffer_text 8192 mem; BdxParseBody E apis buf req res [] g }
                   else Some ((code, req, res, []), g) })"

section \<open>The answer\<close>

definition http200ok :: string where
  "http200ok =
     ''HTTP/1.1 200 OK'' @ CRLF @ ''Server: Bdx DMP/0.1.0'' @ CRLF @ ''Access-Control-Allow-Origin: *'' @ CRLF @
     ''Cache-Control: must-revalidate'' @ CRLF @ ''Expires: Thu, 01 Jan 1970 00:00:00 GMT'' @ CRLF @
     ''Pragma: no-cache'' @ CRLF @ ''Connection: Keep-Alive'' @ CRLF @
     ''Content-Type: application/json;charset=UTF-8'' @ CRLF @ ''Date: ''"

definition response_head :: "tm \<Rightarrow> string \<Rightarrow> string" where
  "response_head now body =
     http200ok @ BdxGetHttpDate now @ ''Content-Length: '' @ show_int (to_int32 (int (length body))) @ HEADER_END"

definition BdxSendEmpyRespones :: "('w, 'j) env \<Rightarrow> string \<Rightarrow> CTcpSocket \<Rightarrow> 'w gateway \<Rightarrow> (int \<times> 'w gateway) option" where
  "BdxSendEmpyRespones E errorMsg sock g =
     (let packet = response_head (e_now E (g_world g)) errorMsg @ errorMsg
      in if 8192 < length packet then None
         else let (sent, g) = on_socket (TcpWrite (e_sys E) packet) sock g
              in Some (if sent then SUCCESS else LINKERROR, g))"

definition count_answer :: "('w, 'j) env \<Rightarrow> BDXRESPONSE_S \<Rightarrow> 'w gateway \<Rightarrow> 'w gateway option" where
  "count_answer E res g =
     (if queryType res = 1
      then do { (_, g) \<leftarrow> on_redis (UserIncr (e_redis E) (ssUserCountKeyRes res) 0) g; Some g }
      else Some g)"

definition BdxSendRespones :: "('w, 'j) env \<Rightarrow> BDXRESPONSE_S \<Rightarrow> CTcpSocket \<Rightarrow> 'w gateway \<Rightarrow> (int \<times> 'w gateway) option" where
  "BdxSendRespones E res sock g =
     (let packet = (if m_httpType g \<noteq> 0 then response_head (e_now E (g_world g)) (mResValue res) @ mResValue res
                    else cstr (mResValue res))
      in if CAP \<le> length packet then None
         else let (sent, g) = on_socket (TcpWrite (e_sys E) (cstr packet)) sock g
              in if sent then do { g \<leftarrow> count_answer E res g; Some (SUCCESS, g) }
                 else do { g \<leftarrow> count_answer E res
                             (bump (\<lambda>u. u\<lparr>m_ullTotalEmptyResNum := m_ullTotalEmptyResNum u + 1\<rparr>) (ssUserName res)
                               (bump one_more_empty (ssUserName res) g));
                           Some (LINKERROR, g) })"

definition BdxRunTask :: "('w, 'j) env \<Rightarrow> BDXAPIGATEWAYCONFIF_S smap \<Rightarrow> BDXREQUEST_S \<Rightarrow> BDXRESPONSE_S \<Rightarrow> 'w gateway \<Rightarrow>
    (int \<times> 'w gateway) option" where
  "BdxRunTask E apis req res g =
     (case m_pclSock g of
        None \<Rightarrow> Some (LINKERROR, g)
      | Some sock \<Rightarrow>
          do { ((code, req, res, errorMsg), g) \<leftarrow> BdxGetHttpPacket E apis sock req res g;
               if code = SUCCESS then BdxSendRespones E res (the (m_pclSock g)) g
               else BdxSendEmpyRespones E errorMsg (the (m_pclSock g)) g })"

text \<open>Construction on an accepted socket, and destruction, which closes the connection.\<close>

definition new_CTaskMain :: "CTcpSocket \<Rightarrow> 'w gateway \<Rightarrow> 'w gateway" where
  "new_CTaskMain sock g = g\<lparr>m_pclSock := Some sock, m_httpType := 0\<rparr>"

definition delete_CTaskMain :: "('w, 'j) env \<Rightarrow> 'w gateway \<Rightarrow> 'w gateway option" where
  "delete_CTaskMain E g =
     (case m_pclSock g of
        None \<Rightarrow> None
      | Some sock \<Rightarrow> let (w, s) = TcpClose (e_sys E) (g_world g, sock) in Some (g\<lparr>g_world := w, m_pclSock := Some s\<rparr>))"

section \<open>Lemmas on the request line\<close>

text \<open>A well-formed request, as a client prints it.\<close>

definition print_param :: "string \<times> string \<Rightarrow> string" where
  "print_param = (\<lambda>(k, v). k @ ''='' @ v)"

fun print_query :: "(string \<times> string) list \<Rightarrow> string" where
  "print_query [] = []"
| "print_query [kv] = print_param kv"
| "print_query (kv # kvs) = print_param kv @ ''&'' @ print_query kvs"

definition reserved :: "char set" where
  "reserved = {CHR ''%'', CHR ''+'', CHR ''&'', CHR ''='', CHR ''?'', BLANK, CTRL_R, CTRL_N, NUL}"

definition plain_text :: "string \<Rightarrow> bool" where
  "plain_text s \<longleftrightarrow> set s \<inter> reserved = {}"

definition param_ok :: "string \<times> string \<Rightarrow> bool" where
  "param_ok = (\<lambda>(k, v). k \<noteq> [] \<and> v \<noteq> [] \<and> plain_text k \<and> plain_text v)"

definition print_request :: "string \<Rightarrow> string \<Rightarrow> (string \<times> string) list \<Rightarrow> string \<Rightarrow> string" where
  "print_request dir name kvs rest =
     ''GET '' @ dir @ ''/'' @ name @ ''?'' @ print_query kvs @ '' HTTP/1.1'' @ CRLF @ rest"

lemma url_decode_loop_append:
  "CHR ''%'' \<notin> set a \<Longrightarrow> CHR ''+'' \<notin> set a \<Longrightarrow> url_decode_loop (a @ b) = a @ url_decode_loop b"
  by (induction a) (auto simp: url_decode_loop_plain)

lemma url_decode_append:
  "CHR ''%'' \<notin> set a \<Longrightarrow> CHR ''+'' \<notin> set a \<Longrightarrow> NUL \<notin> set a \<Longrightarrow> url_decode (a @ b) = a @ url_decode b"
  by (simp add: url_decode_def cstr_append url_decode_loop_append)

lemma reserved_chars [simp]:
  "CHR ''%'' \<in> reserved" "CHR ''+'' \<in> reserved" "CHR ''?'' \<in> reserved" "CHR ''&'' \<in> reserved" "CHR ''='' \<in> reserved"
  "BLANK \<in> reserved" "CTRL_R \<in> reserved" "CTRL_N \<in> reserved" "NUL \<in> reserved"
  by (simp_all add: reserved_def)

lemma plain_textD: "plain_text s \<Longrightarrow> c \<in> reserved \<Longrightarrow> c \<notin> set s"
  by (auto simp: plain_text_def)

lemma print_query_free:
  "list_all param_ok kvs \<Longrightarrow> c \<in> reserved \<Longrightarrow> c \<noteq> CHR ''='' \<Longrightarrow> c \<noteq> CHR ''&'' \<Longrightarrow> c \<notin> set (print_query kvs)"
  by (induction kvs rule: print_query.induct) (auto simp: print_param_def param_ok_def dest: plain_textD)

lemma find_sub_single: "c \<notin> set a \<Longrightarrow> find_sub [c] (a @ c # b) = Some (length a)"
  by (induction a) (auto simp: starts_with_def)

lemma request_target_printed:
  assumes dir: "plain_text dir" and name: "plain_text name" and kvs: "list_all param_ok kvs"
    and short: "length dir + length name + length (print_query kvs) < 4000000000"
  shows "request_target (print_request dir name kvs rest) = Some (dir @ ''/'' @ name @ ''?'' @ print_query kvs @ '' '')"
proof -
  let ?t = "dir @ ''/'' @ name @ ''?'' @ print_query kvs @ '' ''"
  let ?line = "''GET '' @ ?t @ ''HTTP/1.1'' @ [CTRL_R]"
  have "NUL \<notin> set (print_query kvs)"
    by (rule print_query_free [OF kvs reserved_chars(9)]) (simp_all add: NUL_def)
  then have nul: "NUL \<notin> set ?line"
    using plain_textD [OF dir reserved_chars(9)] plain_textD [OF name reserved_chars(9)] by (simp add: NUL_def)
  have free: "CHR ''%'' \<notin> set ?line" "CHR ''+'' \<notin> set ?line" "CTRL_N \<notin> set ?line"
    using plain_textD [OF dir] plain_textD [OF name] print_query_free [OF kvs] by auto
  have "print_request dir name kvs rest = (?line @ [CTRL_N]) @ rest" by (simp add: print_request_def)
  then have dec: "url_decode (print_request dir name kvs rest) = (?line @ [CTRL_N]) @ url_decode rest"
    using free nul by (subst url_decode_append [symmetric]) (auto simp: NUL_def)
  have n: "find_sub [CTRL_N] ((?line @ [CTRL_N]) @ url_decode rest) = Some (length ?line)"
    using find_sub_single [OF free(3), of "url_decode rest"] by simp
  have g: "find_sub ''GET'' ((?line @ [CTRL_N]) @ url_decode rest) = Some 0" by (simp add: starts_with_def)
  have len: "length ?line = length ?t + 13" by simp
  have small: "length ?line < 2 ^ 32" using short by simp
  have "uint (word_of_nat (length ?line) :: u32) = int (length ?line)"
    using small by (simp only: unsigned_of_nat take_bit_nat_eq_self_iff) (simp add: take_bit_nat_eq_self)
  then have "uint (word_of_nat (length ?line) :: u32) - 9 - uint (word_of_nat 0 + 4 :: u32) = int (length ?t)"
    using len by simp
  moreover have "substr_int (''GET '' @ t @ x) (uint (word_of_nat 0 + 4 :: u32)) (int (length t)) = Some t" for t x
    by (simp add: substr_int_def str_substr_def)
  ultimately have "substr_int (''GET '' @ ?t @ ''HTTP/1.1'' @ CRLF @ url_decode rest) (uint (word_of_nat 0 + 4 :: u32))
      (uint (word_of_nat (length ?line) :: u32) - 9 - uint (word_of_nat 0 + 4 :: u32)) = Some ?t"
    by (simp only:)
  then show ?thesis
    unfolding request_target_def Let_def dec str_find_0 n g pos_uint_def option.case by (simp only: append_assoc append.simps)
qed

lemma find_sub_char: "c \<notin> set a \<Longrightarrow> str_find (a @ c # b) [c] 0 = Some (length a)"
  by (simp add: str_find_0 find_sub_single)

lemma target_parts:
  assumes "plain_text dir" "plain_text name" "CHR ''/'' \<notin> set name" "BLANK \<notin> set q"
  shows "action_of (dir @ ''/'' @ name @ ''?'' @ q @ '' '') = name"
    and "query_of (dir @ ''/'' @ name @ ''?'' @ q @ '' '') = Some q"
proof -
  let ?t = "dir @ ''/'' @ name @ ''?'' @ q @ '' ''"
  have "CHR ''?'' \<notin> set (dir @ ''/'' @ name)"
    using plain_textD [OF assms(1)] plain_textD [OF assms(2)] by auto
  from find_sub_char [OF this, of "q @ '' ''"] have f: "str_find ?t ''?'' 0 = Some (length (dir @ ''/'' @ name))" by simp
  have r: "str_rfind ?t BLANK = Some (length (dir @ ''/'' @ name @ ''?'' @ q))"
    using str_rfind_at [of BLANK "[]" "dir @ ''/'' @ name @ ''?'' @ q"] by simp
  have s: "str_rfind (dir @ CHR ''/'' # name) (CHR ''/'') = Some (length dir)"
    using assms(3) by (rule str_rfind_at)
  show "action_of ?t = name"
    unfolding action_of_def Let_def f option.case using s by simp
  show "query_of ?t = Some q"
    unfolding query_of_def f r by (simp add: substr_int_def str_substr_def nat_add_distrib)
qed

lemma plain_text_separators:
  assumes "plain_text s"
  shows "CHR ''='' \<notin> set s" "CHR ''&'' \<notin> set s" "NUL \<notin> set s"
  using plain_textD [OF assms reserved_chars(5)] plain_textD [OF assms reserved_chars(4)]
    plain_textD [OF assms reserved_chars(9)] by simp_all

lemma tokens_print_param:
  assumes "param_ok (k, v)"
  shows "tokens (CHR ''='') (k @ ''='' @ v) = [k, v]"
proof -
  from assms have k: "plain_text k" "k \<noteq> []" and v: "plain_text v" "v \<noteq> []" by (simp_all add: param_ok_def)
  have "tokens (CHR ''='') (k @ CHR ''='' # v) = k # tokens (CHR ''='') v"
    using k plain_text_separators [OF k(1)] by (intro tokens_cons) (simp_all add: NUL_def)
  also have "tokens (CHR ''='') v = [v]"
    using v plain_text_separators [OF v(1)] by (intro tokens_single)
  finally show ?thesis by simp
qed

lemma print_param_separators:
  assumes "param_ok kv"
  shows "CHR ''&'' \<notin> set (print_param kv)" "NUL \<notin> set (print_param kv)" "print_param kv \<noteq> []"
proof -
  obtain k v where kv: "kv = (k, v)" by (cases kv)
  with assms have "plain_text k" "plain_text v" by (simp_all add: param_ok_def)
  then show "CHR ''&'' \<notin> set (print_param kv)" "NUL \<notin> set (print_param kv)" "print_param kv \<noteq> []"
    using plain_text_separators [of k] plain_text_separators [of v] kv by (simp_all add: print_param_def NUL_def)
qed

lemma tokens_print_query:
  "list_all param_ok kvs \<Longrightarrow> tokens (CHR ''&'') (print_query kvs) = map print_param kvs"
proof (induction kvs rule: print_query.induct)
  case (2 kv)
  then show ?case using print_param_separators [of kv] by (simp add: tokens_single)
next
  case (3 kv kv' kvs)
  then have "param_ok kv" by simp
  from tokens_cons [OF print_param_separators [OF this], of "print_query (kv' # kvs)"] 3 show ?case by (simp add: NUL_def)
qed simp

lemma pair_tokens_print:
  "list_all param_ok kvs \<Longrightarrow>
   pair_tokens (concat (map (tokens (CHR ''='')) (map print_param kvs))) = map (\<lambda>(k, v). (k, url_encode v)) kvs"
  by (induction kvs) (auto simp: print_param_def tokens_print_param [simplified])

lemma foldl_smap_put:
  "smap_ok m \<Longrightarrow> distinct (map fst kvs) \<Longrightarrow>
   smap_ok (foldl (\<lambda>m (k, v). smap_put k v m) m kvs) \<and>
   map_of (foldl (\<lambda>m (k, v). smap_put k v m) m kvs) = map_of m ++ map_of kvs"
proof (induction kvs arbitrary: m)
  case (Cons kv kvs)
  obtain k v where kv: "kv = (k, v)" by (cases kv)
  have "map_of kvs k = None" using Cons.prems kv by (simp add: map_of_eq_None_iff)
  with Cons.IH [of "smap_put k v m"] Cons.prems kv show ?case
    by (auto simp: map_add_def fun_eq_iff split: option.split)
qed simp

lemma replace_all_absent: "find_sub old s = None \<Longrightarrow> replace_all s old new = Some s"
  by (subst replace_all.simps) (simp add: str_find_0)

lemma find_sub_absent: "c \<notin> set s \<Longrightarrow> find_sub [c] s = None"
  by (induction s) (auto simp: starts_with_def)

lemma parse_query_printed:
  assumes "list_all param_ok kvs" "distinct (map fst kvs)" "length (print_query kvs) < 1024"
  shows "\<exists>m. parse_query (print_query kvs) = Some m \<and> smap_ok m \<and>
    map_of m = map_of (map (\<lambda>(k, v). (k, url_encode v)) kvs)"
proof -
  have "BLANK \<notin> set (print_query kvs)" by (rule print_query_free [OF assms(1)]) simp_all
  then have "BdxTaskMainReplace_All (print_query kvs) '' '' ''%20'' = Some (print_query kvs)"
    by (simp add: BdxTaskMainReplace_All_def replace_all_absent find_sub_absent)
  moreover have "distinct (map fst (map (\<lambda>(k, v). (k, url_encode v)) kvs))"
    using assms(2) by (simp add: comp_def case_prod_beta)
  ultimately show ?thesis
    using assms(1,3) foldl_smap_put [of "[]" "map (\<lambda>(k, v). (k, url_encode v)) kvs"]
    by (simp add: parse_query_def query_map_def tokens_print_query pair_tokens_print del: map_map)
qed

section \<open>Lemmas on the phases\<close>

lemma authorise_accepts:
  assumes "authorise E user sig g = Some (None, g')"
  shows "\<exists>b stored h. on_redis (UserGet (e_redis E) (user @ KEY_DELIMITER @ KEY_startToken) []) g = Some ((b, stored), h) \<and>
    (cstr stored = sig \<or> (\<exists>h'. BdxVerifyDataHubToken E user sig h = Some (1, h')))"
  using assms
  by (auto simp: authorise_def Let_def Option.bind_eq_Some_conv split: if_splits)

lemma check_quota_accepts:
  assumes "check_quota E user repo item subid token g = Some (None, g')"
  shows "\<exists>count limit x h h'.
    on_redis (UserGet (e_redis E) (order_key KEY_startOrderCount user repo item subid) []) g = Some ((True, count), h) \<and>
    on_redis (UserGet (e_redis E) (order_key KEY_startOrderLimit user repo item subid) []) h = Some ((True, limit), h') \<and>
    on_redis (UserGet (e_redis E) (order_key KEY_startOrderExpire user repo item subid) count) h' = Some ((True, x), g') \<and>
    atoi count < atoi limit"
  using assms
  by (auto simp: check_quota_def Let_def Option.bind_eq_Some_conv not_le split: if_splits)

lemma call_api_success:
  assumes "call_api E conf target user cid req res err g = Some ((0, req', res', err'), g')"
  shows "\<exists>req1 res1 err1 g1 h. BdxGetRemoteGateWayData E conf req res err g1 = Some ((0, req1, res1, err1), h) \<and>
    mResValue res' = mResValue res1"
  using assms
  by (auto simp: call_api_def count_failure_def count_success_def Let_def Option.bind_eq_Some_conv split: if_splits) blast

lemma parse_body_printed:
  assumes "plain_text dir" "plain_text name" "CHR ''/'' \<notin> set name" "list_all param_ok kvs" "distinct (map fst kvs)"
    "length (print_query kvs) < 1024" "length dir + length name < 3000000000"
    "map_of kvs KEY_ACCESS_KEY_ID = Some user" "map_of kvs KEY_REPOSITIRY = Some repo"
    "map_of kvs KEY_ITEM = Some item" "map_of kvs KEY_SIGNATURE = Some sig"
  shows "\<exists>m. smap_ok m \<and> map_of m = map_option url_encode \<circ> map_of kvs \<and>
    BdxParseBody E apis (print_request dir name kvs rest) req res errorMsg g =
      serve E apis (dir @ ''/'' @ name @ ''?'' @ print_query kvs @ '' '') name m (url_encode user) (url_encode repo)
        (url_encode item) (url_encode sig) req res errorMsg (g\<lparr>m_httpType := 1\<rparr>)"
proof -
  obtain m where m: "parse_query (print_query kvs) = Some m" "smap_ok m"
    "map_of m = map_of (map (\<lambda>(k, v). (k, url_encode v)) kvs)"
    using parse_query_printed [OF assms(4,5,6)] by blast
  have look: "map_of m = map_option url_encode \<circ> map_of kvs" unfolding m(3) by (rule map_of_map)
  have "BLANK \<notin> set (print_query kvs)" by (rule print_query_free [OF assms(4)]) simp_all
  from target_parts [OF assms(1,2,3) this]
    request_target_printed [OF assms(1,2,4), of rest] assms(6,7) look assms(8-11) m
  have "BdxParseBody E apis (print_request dir name kvs rest) req res errorMsg g =
      serve E apis (dir @ ''/'' @ name @ ''?'' @ print_query kvs @ '' '') name m (url_encode user) (url_encode repo)
        (url_encode item) (url_encode sig) req res errorMsg (g\<lparr>m_httpType := 1\<rparr>)"
    by (simp add: BdxParseBody_def)
  with look m(2) show ?thesis by blast
qed

lemma replace_marker:
  assumes "CHR ''='' \<notin> set n" "mk \<noteq> []" "hd mk \<notin> set (n @ ''='')"
  shows "BdxTaskMainReplace_FirstOnece (n @ ''='' @ mk) mk v = n @ ''='' @ v"
  using replace_first_at [OF assms(2,3), of "[]" v] by simp

section \<open>Lemmas on the answer\<close>

lemma isdigit_NUL: "\<not> isdigit NUL"
  by (simp add: isdigit_def NUL_def)

lemma NUL_show_nat: "NUL \<notin> set (show_nat n)"
proof (induction n rule: show_nat.induct)
  case (1 n)
  have "NUL \<noteq> digit_char k" if "k < 10" for k
    using isdigit_digit_char [OF that] isdigit_NUL by metis
  with 1 show ?case by (subst show_nat.simps) auto
qed

lemma NUL_padded: "NUL \<notin> set (show_02d n)" "NUL \<notin> set (show_04d n)"
  using NUL_show_nat by (simp_all add: show_02d_def show_04d_def pad_left_def NUL_def)

lemma week_text: "i < 7 \<Longrightarrow> length (g_week ! i) = 3 \<and> NUL \<notin> set (g_week ! i)"
  by (auto simp: g_week_def NUL_def less_Suc_eq numeral_eq_Suc)

lemma month_text: "i < 12 \<Longrightarrow> length (g_month ! i) = 3 \<and> NUL \<notin> set (g_month ! i)"
  by (auto simp: g_month_def NUL_def less_Suc_eq numeral_eq_Suc)

lemma http_date_text:
  assumes "tm_ok t"
  shows "length (BdxGetHttpDate t) = 31" "NUL \<notin> set (BdxGetHttpDate t)"
  using assms week_text [of "tm_wday t"] month_text [of "tm_mon t"] tm_lengths [OF assms] NUL_padded
    length_show_4d(2) [of "tm_year t + 1900"]
  by (simp_all add: BdxGetHttpDate_def tm_ok_def NUL_def)

section \<open>Theorems\<close>


definition sample_params :: "(string \<times> string) list" where
  "sample_params = [(''authuser'', ''al''), (''repo'', ''r''), (''item'', ''i''), (''apitoken'', ''5''), (''tel'', ''139'')]"

lemma plain_text_eval:
  "plain_text [] \<longleftrightarrow> True" "plain_text (c # s) \<longleftrightarrow> c \<notin> reserved \<and> plain_text s"
  by (auto simp: plain_text_def)

lemma sample_params_ok:
  "list_all param_ok sample_params" "distinct (map fst sample_params)" "length (print_query sample_params) < 1024"
  "map_of sample_params KEY_ACCESS_KEY_ID = Some ''al''" "map_of sample_params KEY_REPOSITIRY = Some ''r''"
  "map_of sample_params KEY_ITEM = Some ''i''" "map_of sample_params KEY_SIGNATURE = Some ''5''"
  by (simp_all add: sample_params_def param_ok_def plain_text_eval reserved_def NUL_def print_param_def)

lemma sample_path_ok: "plain_text ''/v1''" "plain_text ''api''" "CHR ''/'' \<notin> set ''api''"
  by (simp_all add: plain_text_eval reserved_def NUL_def)

lemma sample_encoded: "url_encode ''al'' = ''al''" "url_encode ''r'' = ''r''" "url_encode ''i'' = ''i''" "url_encode ''5'' = ''5''"
  by code_simp+



text \<open>A redis that knows one user, with five of nine calls of the order used up.\<close>

definition paid_answers :: "string \<Rightarrow> rarg list \<Rightarrow> redisReply" where
  "paid_answers fmt args =
     (if fmt = ''ZRANGE %s 0 0'' then Reply REDIS_REPLY_ARRAY 0 None [Reply REDIS_REPLY_STRING 0 (Some ''7'') []]
      else if args = [AStr ''order_limit#al#r#i#7''] then Reply REDIS_REPLY_STRING 0 (Some ''9'') []
      else Reply REDIS_REPLY_STRING 0 (Some ''5'') [])"

definition on_toy_redis :: "toy gateway \<Rightarrow> bool" where
  "on_toy_redis g \<longleftrightarrow> m_pDataRedis g = m_pDataRedis (toy_gateway [])"

lemma on_toy_redis_simps [simp]:
  "on_toy_redis (toy_gateway xs)" "on_toy_redis (g\<lparr>m_httpType := t\<rparr>) = on_toy_redis g"
  "on_toy_redis (g\<lparr>m_sRegion := s\<rparr>) = on_toy_redis g" "on_toy_redis (g\<lparr>g_strDataHubToken := s\<rparr>) = on_toy_redis g"
  "on_toy_redis (g\<lparr>m_vecReport := r\<rparr>) = on_toy_redis g" "on_toy_redis (g\<lparr>m_vecHiveLog := l\<rparr>) = on_toy_redis g"
  "on_toy_redis (g\<lparr>g_world := w, InitSSLFlag := i\<rparr>) = on_toy_redis g" "on_toy_redis (bump f n g) = on_toy_redis g"
  by (simp_all add: on_toy_redis_def toy_gateway_def bump_def)

lemma on_toy_shard:
  assumes "on_toy_redis g" "operation (g_world g, new_CDataRedis\<lparr>r_context := Some 0\<rparr>) = Some (r, g_world g, new_CDataRedis\<lparr>r_context := Some 0\<rparr>)"
  shows "on_redis (on_shard operation uid) g = Some (r, g)"
  using assms by (simp add: on_redis_def on_shard_def shard_def on_toy_redis_def toy_gateway_def Let_def)

lemma toy_get:
  "on_toy_redis g \<Longrightarrow> uid \<noteq> ''order_limit#al#r#i#7'' \<Longrightarrow> NUL \<notin> set uid \<Longrightarrow>
   on_redis (UserGet (toy_redis paid_answers) uid v) g = Some ((True, ''5''), g)"
  unfolding UserGet_def
  by (erule on_toy_shard)
     (simp add: GetValue_def command_def send_command_def KeepConnect_def toy_redis_def paid_answers_def reply_failed_def
        reply_len_def reply_text_def new_CDataRedis_def)

lemma toy_get_limit:
  "on_toy_redis g \<Longrightarrow>
   on_redis (UserGet (toy_redis paid_answers) ''order_limit#al#r#i#7'' v) g = Some ((True, ''9''), g)"
  unfolding UserGet_def
  by (erule on_toy_shard)
     (simp add: GetValue_def command_def send_command_def KeepConnect_def toy_redis_def paid_answers_def reply_failed_def
        reply_len_def reply_text_def new_CDataRedis_def cstr_def NUL_def)

lemma toy_incr:
  "on_toy_redis g \<Longrightarrow> on_redis (UserIncr (toy_redis paid_answers) uid 0) g = Some (True, g)"
  unfolding UserIncr_def
  by (erule on_toy_shard)
     (simp add: IncrValue_def simple_command_def command_def send_command_def KeepConnect_def toy_redis_def paid_answers_def
        reply_failed_def new_CDataRedis_def)

lemma toy_order:
  "on_toy_redis g \<Longrightarrow> on_redis (UserGetSortedSet (toy_redis paid_answers) uid []) g = Some ((True, ''7''), g)"
  unfolding UserGetSortedSet_def
  by (erule on_toy_shard)
     (simp add: GetValueSortedSet_def KeepConnect_def toy_redis_def paid_answers_def new_CDataRedis_def Let_def reply_text_def)

abbreviation paid_env :: "(toy, string) env" where
  "paid_env \<equiv> toy_env refusing_sys paid_answers"

abbreviation paid_api :: BDXAPIGATEWAYCONFIF_S where
  "paid_api \<equiv> sample_api\<lparr>mIntIsHttps := 1\<rparr>"

lemma toy_env_simps [simp]:
  "e_redis (toy_env S answers) = toy_redis answers" "e_sys (toy_env S answers) = S" "e_now (toy_env S answers) w = sample_tm"
  by (simp_all add: toy_env_def)

lemma sample_times:
  "BdxTaskMainGetTime sample_tm = Some ''2016070509''" "BdxTaskMainGetFullTime sample_tm = Some ''20160705093000''"
  "BdxTaskMainGetDate sample_tm = Some ''20160705''"
  by code_simp+

lemma paid_phases:
  assumes "on_toy_redis g"
  shows "count_request paid_env ''al'' res g = Some (user_keys ''2016070509'' ''al'' res, bump one_more_req ''al'' g)"
    and "authorise paid_env ''al'' ''5'' g = Some (None, g\<lparr>m_sRegion := ''5''\<rparr>)"
    and "gateway_token paid_env g = Some (Some ''5'', g\<lparr>g_strDataHubToken := ''5''\<rparr>)"
    and "find_order paid_env ''al'' ''r'' ''i'' ''5'' g = Some (''7'', g)"
    and "check_quota paid_env ''al'' ''r'' ''i'' ''7'' ''5'' g = Some (None, g)"
proof -
  note toy = toy_get [OF assms] toy_get_limit [OF assms] toy_incr [OF assms] toy_order [OF assms]
  show "count_request paid_env ''al'' res g = Some (user_keys ''2016070509'' ''al'' res, bump one_more_req ''al'' g)"
    by (simp add: count_request_def sample_times toy)
  show "authorise paid_env ''al'' ''5'' g = Some (None, g\<lparr>m_sRegion := ''5''\<rparr>)"
    by (simp add: authorise_def toy NUL_def cstr_def)
  show "gateway_token paid_env g = Some (Some ''5'', g\<lparr>g_strDataHubToken := ''5''\<rparr>)"
    by (simp add: gateway_token_def toy NUL_def)
  show "find_order paid_env ''al'' ''r'' ''i'' ''5'' g = Some (''7'', g)"
    by (simp add: find_order_def toy)
  show "check_quota paid_env ''al'' ''r'' ''i'' ''7'' ''5'' g = Some (None, g)"
    by (simp add: check_quota_def order_key_def order_prefix_def toy NUL_def atoi_eval)
qed

lemma paid_call:
  assumes "g_world g = toy_world []" "InitSSLFlag g = 0"
  shows "\<exists>req' h. BdxGetRemoteGateWayData paid_env (paid_api\<lparr>mStrReqParams := [''tel=139'']\<rparr>) req res err g =
    Some ((SUCCESS, req', res\<lparr>mResValue := []\<rparr>, err), h) \<and> (\<exists>w. h = g\<lparr>g_world := w, InitSSLFlag := 1\<rparr>)"
proof -
  let ?conf = "paid_api\<lparr>mStrReqParams := [''tel=139'']\<rparr>"
  have "BdxGenerateReqUrl ?conf = Some (httpReq (get_url ?conf) ''api'')"
    by (simp add: BdxGenerateReqUrl_def sample_api_def sprintf_into_def httpReq_def get_url_def literal_text)
  moreover have "remote_address (mStrHostInfo ?conf) = (''10.0.0.1'', 443)"
    by (simp add: remote_address_def sample_api_def str_find_def literal_text atoi_eval)
  ultimately show ?thesis
    using assms
    by (simp add: BdxGetRemoteGateWayData_def remote_ssl_def refusing_sys_def toy_sys_def toy_world_def new_CTcpSocket_def
         TcpConnect_def ssl_init_once_def TcpSslInitParams_def TcpSslInitEnv_def TcpSslConnect_def Let_def split_def sample_api_def)
      blast
qed

lemma paid_dispatch:
  assumes "on_toy_redis g" "g_world g = toy_world []" "InitSSLFlag g = 0"
    and m: "map_of m ''tel'' = Some ''139''" "map_of m ''city'' = None"
  shows "\<exists>req' res' err' g'. dispatch paid_env [(''api'', paid_api)] target ''api'' m ''al'' ''r'' ''i'' ''7'' req res err g =
    Some ((SUCCESS, req', res', err'), g')"
proof -
  have "fill_params m [''tel=1'', ''city=0''] = Inr [''tel=139'']"
    using m by (simp add: str_find_def starts_with_def atoi_eval BdxTaskMainReplace_FirstOnece_def str_replace_def)
  moreover have "mStrReqParams paid_api = [''tel=1'', ''city=0'']" by (simp add: sample_api_def)
  moreover have "g_world (bump one_more_req ''al_r_i_api_7'' g) = toy_world []" "InitSSLFlag (bump one_more_req ''al_r_i_api_7'' g) = 0"
    using assms(2,3) by (simp_all add: bump_def)
  from paid_call [OF this, of req "operator_keys ''2016070509'' ''al_r_i_api_7'' res" err] obtain req' w where
    "BdxGetRemoteGateWayData paid_env (paid_api\<lparr>mStrReqParams := [''tel=139'']\<rparr>) req
       (operator_keys ''2016070509'' ''al_r_i_api_7'' res) err
       (bump one_more_req ''al_r_i_api_7'' g) =
     Some ((SUCCESS, req', operator_keys ''2016070509'' ''al_r_i_api_7'' res\<lparr>mResValue := []\<rparr>, err),
       bump one_more_req ''al_r_i_api_7'' g\<lparr>g_world := w, InitSSLFlag := 1\<rparr>)"
    by blast
  ultimately show ?thesis
    using assms(1)
    by (simp add: dispatch_def call_api_def sample_times toy_incr log_call_def count_success_def operator_keys_def str_substr_def)
qed

lemma paid_request_served:
  "\<exists>req' res' err' g'. BdxParseBody paid_env [(''api'', paid_api)] (print_request ''/v1'' ''api'' sample_params CRLF)
     \<lparr>m_strRequestParam = []\<rparr> zero_response [] (toy_gateway []) = Some ((SUCCESS, req', res', err'), g')"
proof -
  obtain m where m: "map_of m = map_option url_encode \<circ> map_of sample_params" and
    "BdxParseBody paid_env [(''api'', paid_api)] (print_request ''/v1'' ''api'' sample_params CRLF) \<lparr>m_strRequestParam = []\<rparr>
       zero_response [] (toy_gateway []) =
     serve paid_env [(''api'', paid_api)] (''/v1'' @ ''/'' @ ''api'' @ ''?'' @ print_query sample_params @ '' '') ''api'' m
       ''al'' ''r'' ''i'' ''5'' \<lparr>m_strRequestParam = []\<rparr> zero_response [] ((toy_gateway [])\<lparr>m_httpType := 1\<rparr>)"
    using parse_body_printed [OF sample_path_ok sample_params_ok(1-3) _ sample_params_ok(4-7), of paid_env "[(''api'', paid_api)]" CRLF
        "\<lparr>m_strRequestParam = []\<rparr>" zero_response "[]" "toy_gateway []"]
    unfolding sample_encoded by auto
  moreover have "url_encode ''139'' = ''139''" by code_simp
  then have "map_of m ''tel'' = Some ''139''" "map_of m ''city'' = None" by (simp_all add: m sample_params_def)
  moreover let ?g = "bump one_more_req ''al'' ((toy_gateway [])\<lparr>m_httpType := 1\<rparr>)\<lparr>m_sRegion := ''5'', g_strDataHubToken := ''5''\<rparr>"
  have "on_toy_redis ?g" by simp
  moreover have "g_world ?g = toy_world []" "InitSSLFlag ?g = 0" by (simp_all add: bump_def toy_gateway_def)
  moreover note paid_dispatch [OF calculation(5-7) calculation(3,4)]
  ultimately show ?thesis by (simp add: serve_def paid_phases)
qed




text \<open>
  A marker that also occurs in the name is replaced there: the configured \<open>id1=1\<close> with the value
  \<open>x\<close> is sent to the API as \<open>idx=1\<close>.
\<close>

theorem fill_params_marker_in_name:
  "fill_params [(''id1'', ''x'')] [''id1=1''] = Inr [''idx=1'']"
  by (simp add: str_find_def starts_with_def BdxTaskMainReplace_FirstOnece_def str_replace_def)

text \<open>
  C10. The answer on the wire. When the connection takes what it is given, a served request is answered
  by the status line and headers, a \<open>Content-Length\<close> that is the length of the body, and the whole
  body; the answer is counted and the result is success.
\<close>

theorem send_response_delivers:
  assumes "takes_lines (e_sys E) out" "m_httpType g \<noteq> 0" "NUL \<notin> set (mResValue res)"
    "tm_ok (e_now E (g_world g))" "length (mResValue res) < 1000000" "queryType res \<noteq> 1"
  shows "\<exists>w'. BdxSendRespones E res sock g = Some (SUCCESS, g\<lparr>g_world := w', m_pclSock := Some sock\<rparr>) \<and>
    out (m_iSockfd sock) w' = out (m_iSockfd sock) (g_world g) @ http200ok @ BdxGetHttpDate (e_now E (g_world g)) @
      ''Content-Length: '' @ show_nat (length (mResValue res)) @ CRLF @ CRLF @ mResValue res"
proof -
  let ?p = "response_head (e_now E (g_world g)) (mResValue res) @ mResValue res"
  have len: "to_int32 (int (length (mResValue res))) = int (length (mResValue res))"
    using assms(5) by (intro to_int32_id) auto
  have nul: "NUL \<notin> set ?p"
    using assms(3) http_date_text [OF assms(4)] NUL_show_nat by (simp add: response_head_def http200ok_def len show_int_def NUL_def)
  have short: "length ?p < CAP"
    using assms(5) http_date_text [OF assms(4)] length_show_nat [of "length (mResValue res)" 6]
    by (simp add: response_head_def http200ok_def len show_int_def)
  have "?p \<noteq> []" by (simp add: response_head_def http200ok_def)
  from TcpWrite_line [OF assms(1) this, of "g_world g" sock] obtain w' where
    wr: "TcpWrite (e_sys E) ?p (g_world g, sock) = (True, w', sock)" "out (m_iSockfd sock) w' = out (m_iSockfd sock) (g_world g) @ ?p" .
  have "BdxSendRespones E res sock g = Some (SUCCESS, g\<lparr>g_world := w', m_pclSock := Some sock\<rparr>)"
    using assms(2,6) short cstr_id [OF nul] wr(1)
    by (simp add: BdxSendRespones_def on_socket_def count_answer_def)
  moreover from wr(2) have "out (m_iSockfd sock) w' = out (m_iSockfd sock) (g_world g) @ http200ok @
      BdxGetHttpDate (e_now E (g_world g)) @ ''Content-Length: '' @ show_nat (length (mResValue res)) @ CRLF @ CRLF @ mResValue res"
    by (simp add: response_head_def len show_int_def)
  ultimately show ?thesis by blast
qed

theorem send_response_delivers_witness:
  "\<exists>w'. BdxSendRespones (toy_env toy_sys (\<lambda>_ _. ok_reply)) (zero_response\<lparr>mResValue := ''hello''\<rparr>) toy_socket
      ((toy_gateway [])\<lparr>m_httpType := 1\<rparr>) =
    Some (SUCCESS, (toy_gateway [])\<lparr>m_httpType := 1, g_world := w', m_pclSock := Some toy_socket\<rparr>) \<and>
    toy_out w' = http200ok @ BdxGetHttpDate sample_tm @ ''Content-Length: 5'' @ CRLF @ CRLF @ ''hello''"
proof -
  have "tm_ok sample_tm" by (simp add: tm_ok_def sample_tm_def)
  moreover have "show_nat (length ''hello'') = ''5''" by code_simp
  then have "show_nat (Suc (Suc (Suc (Suc (Suc 0))))) = ''5''" by simp
  ultimately show ?thesis
    using send_response_delivers [of "toy_env toy_sys (\<lambda>_ _. ok_reply)" "\<lambda>_. toy_out" "(toy_gateway [])\<lparr>m_httpType := 1\<rparr>"
        "zero_response\<lparr>mResValue := ''hello''\<rparr>" toy_socket] toy_takes_lines
    by (simp add: zero_response_def NUL_def toy_gateway_def toy_world_def)
qed

end
