(* ===== verification/Lock.thy ===== *)
theory Lock
  imports Prelude
begin

text \<open>
  \<open>src/CommonTools/Lock\<close>: a mutex with one condition variable, and the class that holds a mutex for the
  time of a block. A POSIX mutex is whether it is held, a condition variable is the number of threads that
  wait for a signal. An operation that would block is not enabled: it has the value \<open>None\<close>.
\<close>

section \<open>POSIX mutexes\<close>

text \<open>
  An object that is not or no longer initialised is invalid; its use is reported with \<open>EINVAL\<close> and changes
  nothing. A call that may fail for want of resources takes its result as an argument.
\<close>

datatype pthread_mutex_t = Mutex_invalid | Mutex (mutex_held: bool)

datatype pthread_mutexattr_t = Attr_invalid | Attr (attr_shared: bool)

abbreviation EBUSY :: int where "EBUSY \<equiv> 16"

abbreviation EINVAL :: int where "EINVAL \<equiv> 22"

fun pthread_mutex_init :: "int \<Rightarrow> pthread_mutex_t \<Rightarrow> pthread_mutex_t" where
  "pthread_mutex_init rc m = (if rc = 0 then Mutex False else m)"

fun pthread_mutex_lock :: "pthread_mutex_t \<Rightarrow> pthread_mutex_t option" where
  "pthread_mutex_lock Mutex_invalid = Some Mutex_invalid"
| "pthread_mutex_lock (Mutex held) = (if held then None else Some (Mutex True))"

fun pthread_mutex_trylock :: "pthread_mutex_t \<Rightarrow> int \<times> pthread_mutex_t" where
  "pthread_mutex_trylock Mutex_invalid = (EINVAL, Mutex_invalid)"
| "pthread_mutex_trylock (Mutex held) = (if held then (EBUSY, Mutex held) else (0, Mutex True))"

fun pthread_mutex_unlock :: "pthread_mutex_t \<Rightarrow> pthread_mutex_t" where
  "pthread_mutex_unlock Mutex_invalid = Mutex_invalid"
| "pthread_mutex_unlock (Mutex _) = Mutex False"

fun pthread_mutex_destroy :: "pthread_mutex_t \<Rightarrow> int \<times> pthread_mutex_t" where
  "pthread_mutex_destroy Mutex_invalid = (EINVAL, Mutex_invalid)"
| "pthread_mutex_destroy (Mutex held) = (if held then (EBUSY, Mutex held) else (0, Mutex_invalid))"

fun pthread_mutexattr_init :: "int \<Rightarrow> pthread_mutexattr_t \<Rightarrow> pthread_mutexattr_t" where
  "pthread_mutexattr_init rc a = (if rc = 0 then Attr False else a)"

fun pthread_mutexattr_setpshared :: "pthread_mutexattr_t \<Rightarrow> int \<times> pthread_mutexattr_t" where
  "pthread_mutexattr_setpshared Attr_invalid = (EINVAL, Attr_invalid)"
| "pthread_mutexattr_setpshared (Attr _) = (0, Attr True)"

fun pthread_mutexattr_destroy :: "pthread_mutexattr_t \<Rightarrow> int \<times> pthread_mutexattr_t" where
  "pthread_mutexattr_destroy Attr_invalid = (EINVAL, Attr_invalid)"
| "pthread_mutexattr_destroy (Attr _) = (0, Attr_invalid)"

section \<open>CMutexLock\<close>

text \<open>\<open>m_pLock\<close> and \<open>m_pstAttr\<close> are \<open>None\<close> for a null pointer.\<close>

record CMutexLock =
  m_pLock :: "pthread_mutex_t option"
  m_pstAttr :: "pthread_mutexattr_t option"
  m_stCond :: nat

text \<open>A lock as the constructor leaves it when all calls succeed.\<close>

definition new_CMutexLock :: CMutexLock where
  "new_CMutexLock = \<lparr>m_pLock = Some (Mutex False), m_pstAttr = Some (Attr False), m_stCond = 0\<rparr>"

definition MutexInitAttr :: "int \<Rightarrow> CMutexLock \<Rightarrow> bool \<times> CMutexLock" where
  "MutexInitAttr rc l =
     (case m_pstAttr l of
        None \<Rightarrow> (False, l)
      | Some a \<Rightarrow> (rc = 0, l\<lparr>m_pstAttr := Some (pthread_mutexattr_init rc a)\<rparr>))"

text \<open>
  The results of \<open>pthread_cond_init\<close>, of \<open>pthread_mutexattr_init\<close> and of \<open>pthread_mutex_init\<close>, of which the last is
  not looked at; \<open>Inl\<close> is the text of the exception.
\<close>

definition make_CMutexLock :: "int \<Rightarrow> int \<Rightarrow> int \<Rightarrow> string + CMutexLock" where
  "make_CMutexLock rc_cond rc_attr rc_mutex =
     (if rc_cond \<noteq> 0 then Inl ''pthread_cond_init error.''
      else
        (case MutexInitAttr rc_attr \<lparr>m_pLock = None, m_pstAttr = Some Attr_invalid, m_stCond = 0\<rparr> of
           (False, _) \<Rightarrow> Inl ''MutexInitAttr error.''
         | (True, l) \<Rightarrow> Inr (l\<lparr>m_pLock := Some (pthread_mutex_init rc_mutex Mutex_invalid)\<rparr>)))"

text \<open>\<open>None\<close>: a null pointer is passed on.\<close>

definition MutexInitLock :: "int \<Rightarrow> CMutexLock \<Rightarrow> (bool \<times> CMutexLock) option" where
  "MutexInitLock rc l =
     (case m_pLock l of None \<Rightarrow> None | Some m \<Rightarrow> Some (rc = 0, l\<lparr>m_pLock := Some (pthread_mutex_init rc m)\<rparr>))"

definition LockGetLock :: "CMutexLock \<Rightarrow> pthread_mutex_t option" where
  "LockGetLock l = m_pLock l"

definition MutexLock :: "CMutexLock \<Rightarrow> CMutexLock option" where
  "MutexLock l =
     (case m_pLock l of
        None \<Rightarrow> Some l
      | Some m \<Rightarrow> (case pthread_mutex_lock m of None \<Rightarrow> None | Some m \<Rightarrow> Some (l\<lparr>m_pLock := Some m\<rparr>)))"

definition MutexUnlock :: "CMutexLock \<Rightarrow> CMutexLock" where
  "MutexUnlock l = (case m_pLock l of None \<Rightarrow> l | Some m \<Rightarrow> l\<lparr>m_pLock := Some (pthread_mutex_unlock m)\<rparr>)"

text \<open>
  The first half of \<open>pthread_cond_wait\<close>: give up the mutex and wait. The second half is \<open>MutexLock\<close>. With an invalid
  mutex the call returns at once.
\<close>

definition MutexWait :: "CMutexLock \<Rightarrow> CMutexLock" where
  "MutexWait l =
     (case m_pLock l of
        None \<Rightarrow> l
      | Some Mutex_invalid \<Rightarrow> l
      | Some m \<Rightarrow> l\<lparr>m_pLock := Some (pthread_mutex_unlock m), m_stCond := m_stCond l + 1\<rparr>)"

text \<open>A signal wakes one thread, if one waits.\<close>

definition MutexNotify :: "CMutexLock \<Rightarrow> CMutexLock" where
  "MutexNotify l = l\<lparr>m_stCond := m_stCond l - 1\<rparr>"

definition MutexDestroyAttr :: "CMutexLock \<Rightarrow> bool \<times> CMutexLock" where
  "MutexDestroyAttr l =
     (case m_pstAttr l of
        None \<Rightarrow> (False, l)
      | Some a \<Rightarrow> (let (rc, a) = pthread_mutexattr_destroy a in (rc = 0, l\<lparr>m_pstAttr := Some a\<rparr>)))"

definition MutexSetProcessShare :: "CMutexLock \<Rightarrow> bool \<times> CMutexLock" where
  "MutexSetProcessShare l =
     (case m_pstAttr l of
        None \<Rightarrow> (False, l)
      | Some a \<Rightarrow> (let (rc, a) = pthread_mutexattr_setpshared a in (rc = 0, l\<lparr>m_pstAttr := Some a\<rparr>)))"

definition MUtexDestroyLock :: "CMutexLock \<Rightarrow> bool \<times> CMutexLock" where
  "MUtexDestroyLock l =
     (case m_pLock l of
        None \<Rightarrow> (False, l)
      | Some m \<Rightarrow> (let (rc, m) = pthread_mutex_destroy m in (rc = 0, l\<lparr>m_pLock := Some m\<rparr>)))"

text \<open>1 busy, 0 success, other values error.\<close>

definition MutexTryLock :: "CMutexLock \<Rightarrow> int \<times> CMutexLock" where
  "MutexTryLock l =
     (case m_pLock l of
        None \<Rightarrow> (-1, l)
      | Some m \<Rightarrow>
          (let (iRes, m) = pthread_mutex_trylock m; l = l\<lparr>m_pLock := Some m\<rparr>
           in if iRes = EBUSY then (1, l) else (iRes, l)))"

text \<open>The destruction of a condition variable that threads wait for does not return.\<close>

definition LockDestroyCond :: "CMutexLock \<Rightarrow> bool option" where
  "LockDestroyCond l = (if m_stCond l = 0 then Some True else None)"

text \<open>
  The destructor: the memory of the mutex is freed whether or not the mutex could be destroyed. The value tells
  whether it could, and what is left of the object.
\<close>

definition delete_CMutexLock :: "CMutexLock \<Rightarrow> (bool \<times> CMutexLock) option" where
  "delete_CMutexLock l =
     (let (_, l) = MutexDestroyAttr l; (destroyed, l) = MUtexDestroyLock l; l = l\<lparr>m_pLock := None, m_pstAttr := None\<rparr>
      in case LockDestroyCond l of None \<Rightarrow> None | Some _ \<Rightarrow> Some (destroyed, l))"

section \<open>The class MutexLock\<close>

text \<open>
  An object of this class locks the mutex when it is made and unlocks it when its block is left, by whatever
  return. \<open>body\<close> is what the block does after the object is made.
\<close>

definition scoped_MutexLock :: "('s \<Rightarrow> ('r \<times> 's) option) \<Rightarrow> pthread_mutex_t \<times> 's \<Rightarrow> ('r \<times> pthread_mutex_t \<times> 's) option" where
  "scoped_MutexLock body = (\<lambda>(lk, s).
     (case pthread_mutex_lock lk of
        None \<Rightarrow> None
      | Some lk \<Rightarrow>
          (case body s of None \<Rightarrow> None | Some (r, s) \<Rightarrow> Some (r, pthread_mutex_unlock lk, s))))"

section \<open>The contract of a lock\<close>

locale exclusive_lock =
  fixes ok :: "'l \<Rightarrow> bool" and held :: "'l \<Rightarrow> bool"
    and acquire :: "'l \<Rightarrow> 'l option" and attempt :: "'l \<Rightarrow> int \<times> 'l" and release :: "'l \<Rightarrow> 'l"
  assumes acquire_free: "ok l \<Longrightarrow> \<not> held l \<Longrightarrow> \<exists>l'. acquire l = Some l' \<and> ok l' \<and> held l'"
    and acquire_held: "ok l \<Longrightarrow> held l \<Longrightarrow> acquire l = None"
    and try_free: "ok l \<Longrightarrow> \<not> held l \<Longrightarrow> \<exists>l'. attempt l = (0, l') \<and> ok l' \<and> held l'"
    and try_held: "ok l \<Longrightarrow> held l \<Longrightarrow> attempt l = (1, l)"
    and release_frees: "ok l \<Longrightarrow> ok (release l) \<and> \<not> held (release l)"
begin

lemma acquire_excludes: "ok l \<Longrightarrow> acquire l = Some l' \<Longrightarrow> \<not> held l \<and> ok l' \<and> held l' \<and> acquire l' = None"
  using acquire_free acquire_held by (metis option.distinct(1) option.inject)

lemma try_excludes: "ok l \<Longrightarrow> attempt l = (0, l') \<Longrightarrow> \<not> held l \<and> ok l' \<and> held l' \<and> fst (attempt l') = 1"
  using try_free try_held by (metis Pair_inject fst_conv zero_neq_one)

lemma try_total: "ok l \<Longrightarrow> attempt l = (r, l') \<Longrightarrow> r = 0 \<or> r = 1 \<and> l' = l"
  using try_free try_held by (metis Pair_inject)

end

definition lock_ok :: "CMutexLock \<Rightarrow> bool" where
  "lock_ok l \<longleftrightarrow> m_pLock l = Some (Mutex False) \<or> m_pLock l = Some (Mutex True)"

definition lock_held :: "CMutexLock \<Rightarrow> bool" where
  "lock_held l \<longleftrightarrow> m_pLock l = Some (Mutex True)"

interpretation mutex: exclusive_lock lock_ok lock_held MutexLock MutexTryLock MutexUnlock
  by unfold_locales
    (auto simp: lock_ok_def lock_held_def MutexLock_def MutexTryLock_def MutexUnlock_def)

text \<open>The same contract holds of a plain mutex that was initialised.\<close>

interpretation posix: exclusive_lock "\<lambda>m. m \<noteq> Mutex_invalid" mutex_held pthread_mutex_lock
  "\<lambda>m. (let (rc, m) = pthread_mutex_trylock m in (if rc = EBUSY then 1 else rc, m))" pthread_mutex_unlock
proof (unfold_locales, goal_cases)
  case (1 l) then show ?case by (cases l) auto
next
  case (2 l) then show ?case by (cases l) auto
next
  case (3 l) then show ?case by (cases l) auto
next
  case (4 l) then show ?case by (cases l) auto
next
  case (5 l) then show ?case by (cases l) auto
qed

lemma make_lock [simp]: "make_CMutexLock 0 0 0 = Inr new_CMutexLock"
  by (simp add: make_CMutexLock_def MutexInitAttr_def new_CMutexLock_def)

lemma make_lock_fails: "make_CMutexLock rc_cond rc_attr rc_mutex = Inr l \<longleftrightarrow>
    rc_cond = 0 \<and> rc_attr = 0 \<and> l = (if rc_mutex = 0 then new_CMutexLock else new_CMutexLock\<lparr>m_pLock := Some Mutex_invalid\<rparr>)"
  by (auto simp: make_CMutexLock_def MutexInitAttr_def new_CMutexLock_def)

text \<open>
  A lock whose mutex could not be made takes every \<open>MutexLock\<close> at once: it excludes nobody, and nothing tells the
  caller.
\<close>

lemma failed_lock_excludes_nobody:
  "make_CMutexLock 0 0 rc = Inr l \<Longrightarrow> rc \<noteq> 0 \<Longrightarrow> MutexLock l = Some l \<and> fst (MutexTryLock l) = EINVAL"
  by (auto simp: make_lock_fails MutexLock_def MutexTryLock_def new_CMutexLock_def)

lemma lock_new [simp]: "lock_ok new_CMutexLock" "\<not> lock_held new_CMutexLock" "m_stCond new_CMutexLock = 0"
  by (simp_all add: new_CMutexLock_def lock_ok_def lock_held_def)

lemma lock_notify [simp]:
  "lock_ok (MutexNotify l) = lock_ok l" "lock_held (MutexNotify l) = lock_held l" "m_stCond (MutexNotify l) = m_stCond l - 1"
  by (simp_all add: MutexNotify_def lock_ok_def lock_held_def)

lemma lock_unlock [simp]: "lock_ok l \<Longrightarrow> lock_ok (MutexUnlock l)" "lock_ok l \<Longrightarrow> \<not> lock_held (MutexUnlock l)"
  "m_stCond (MutexUnlock l) = m_stCond l"
  by (auto simp: mutex.release_frees) (auto simp: MutexUnlock_def split: option.split)

lemma lock_wait [simp]: "lock_ok l \<Longrightarrow> lock_ok (MutexWait l)" "lock_ok l \<Longrightarrow> \<not> lock_held (MutexWait l)"
  "lock_ok l \<Longrightarrow> m_stCond (MutexWait l) = Suc (m_stCond l)"
  by (auto simp: MutexWait_def lock_ok_def lock_held_def)

lemma lock_try_cond: "MutexTryLock l = (r, l') \<Longrightarrow> m_stCond l' = m_stCond l"
  by (auto simp: MutexTryLock_def Let_def split: option.splits if_splits prod.splits)

lemma lock_acquire_cond: "MutexLock l = Some l' \<Longrightarrow> m_stCond l' = m_stCond l"
  by (auto simp: MutexLock_def split: option.splits)

text \<open>
  A lock can be deleted when nobody waits; its mutex is destroyed exactly when nobody holds it, and the deletion of
  a held lock frees the memory under the thread that holds it.
\<close>

lemma lock_delete:
  assumes "lock_ok l"
  shows "delete_CMutexLock l =
    (if m_stCond l = 0 then Some (\<not> lock_held l, \<lparr>m_pLock = None, m_pstAttr = None, m_stCond = 0, \<dots> = CMutexLock.more l\<rparr>) else None)"
  using assms
  by (auto simp: lock_ok_def delete_CMutexLock_def MutexDestroyAttr_def MUtexDestroyLock_def LockDestroyCond_def
      lock_held_def split: option.splits prod.splits)

text \<open>A block under a scoped lock leaves the mutex as it was, whatever it returns.\<close>

lemma scoped_lock_free [simp]:
  "scoped_MutexLock body (Mutex False, s) = (case body s of None \<Rightarrow> None | Some (r, s') \<Rightarrow> Some (r, Mutex False, s'))"
  by (simp add: scoped_MutexLock_def split: option.split)

lemma scoped_lock_held [simp]: "scoped_MutexLock body (Mutex True, s) = None"
  by (simp add: scoped_MutexLock_def)

end
