(* ===== verification/Server.thy ===== *)
theory Server
  imports TaskMain Lock
begin

text \<open>
  The server thread and what it shares with the working threads: \<open>src/UserQueryServer\<close>
  (\<open>UserQueryServerEpoll.cpp\<close>, \<open>UserQueryServer.cpp\<close>) and \<open>src/UserQueryWorkThreads\<close>.

  Tasks are objects on a heap: a task is named by a number, and the heap gives its socket; a deleted
  task is \<open>None\<close> there, and an access to it is undefined, so an operation that makes one has the value
  \<open>None\<close>. The kernel's epoll is a parameter, a record of its calls over the world.
\<close>

section \<open>Epoll\<close>

datatype epoll_op = EPOLL_CTL_ADD | EPOLL_CTL_DEL

text \<open>
  An event is a descriptor and whether \<open>EPOLLIN\<close> is set in it; the list that \<open>epoll_wait\<close> returns is the
  filled part of the array, empty after a timeout or an error.
\<close>

record 'w epoll =
  epoll_create :: "'w \<Rightarrow> int \<times> 'w"
  epoll_ctl :: "int \<Rightarrow> epoll_op \<Rightarrow> int \<Rightarrow> 'w \<Rightarrow> int \<times> 'w"
  epoll_wait :: "int \<Rightarrow> nat \<Rightarrow> int \<Rightarrow> 'w \<Rightarrow> (int \<times> bool) list \<times> 'w"

text \<open>An object is its descriptor \<open>m_iEpoll\<close>. The constructor throws when it cannot be made.\<close>

definition BdxEpollInit :: "'w epoll \<Rightarrow> 'w \<Rightarrow> (int \<times> 'w) option" where
  "BdxEpollInit K w = (case epoll_create K w of (m_iEpoll, w) \<Rightarrow> if m_iEpoll < 0 then None else Some (m_iEpoll, w))"

definition BdxEpollCtr :: "'w epoll \<Rightarrow> int \<Rightarrow> epoll_op \<Rightarrow> int \<Rightarrow> 'w \<Rightarrow> bool \<times> 'w" where
  "BdxEpollCtr K m_iEpoll iVerb iSockfd w =
     (let (r, w) = epoll_ctl K m_iEpoll iVerb iSockfd w in (r \<noteq> -1, w))"

definition BdxEpollWait :: "'w epoll \<Rightarrow> int \<Rightarrow> int \<Rightarrow> 'w \<Rightarrow> (int \<times> bool) list \<times> 'w" where
  "BdxEpollWait K m_iEpoll iTimeOut w = epoll_wait K m_iEpoll 256 iTimeOut w"

definition BdxEpollClose :: "'w sys \<Rightarrow> int \<Rightarrow> 'w \<Rightarrow> int \<times> 'w" where
  "BdxEpollClose S m_iEpoll w = (if m_iEpoll \<noteq> -1 then (-1, sys_close S m_iEpoll w) else (m_iEpoll, w))"

section \<open>The state shared by the threads\<close>

record TASKSTATUS_S =
  m_iSockFd :: int
  m_bStatus :: bool

record TASKQUE_S =
  m_queUserQueryTask :: "nat list"
  m_clLock :: CMutexLock

record 'w server =
  s_world :: 'w
  s_heap :: "nat \<rightharpoonup> CTcpSocket"
  s_next :: nat
  m_vecTaskBuf :: "TASKQUE_S list"
  m_vecTaskStauts :: "TASKSTATUS_S list list"
  m_mpSocketTask :: "int \<rightharpoonup> nat"
  s_pclSock :: CTcpSocket
  m_clEpoll :: int

abbreviation NOFREE_THREAD :: int where "NOFREE_THREAD \<equiv> -5"

text \<open>\<open>new CTaskMain\<close> and \<open>delete\<close> of a task; the latter closes the connection.\<close>

definition new_task :: "CTcpSocket \<Rightarrow> 'w server \<Rightarrow> nat \<times> 'w server" where
  "new_task sock s = (s_next s, s\<lparr>s_heap := (s_heap s)(s_next s \<mapsto> sock), s_next := s_next s + 1\<rparr>)"

definition delete_task :: "'w sys \<Rightarrow> nat \<Rightarrow> 'w server \<Rightarrow> 'w server option" where
  "delete_task S t s =
     (case s_heap s t of
        None \<Rightarrow> None
      | Some sock \<Rightarrow> Some (s\<lparr>s_world := fst (TcpClose S (s_world s, sock)), s_heap := (s_heap s)(t := None)\<rparr>))"

definition drop_task :: "'w sys \<Rightarrow> int \<Rightarrow> nat \<Rightarrow> 'w server \<Rightarrow> 'w server option" where
  "drop_task S fd t s =
     map_option (\<lambda>s. s\<lparr>m_mpSocketTask := (m_mpSocketTask s)(fd := None)\<rparr>) (delete_task S t s)"

definition epoll_ctr :: "'w epoll \<Rightarrow> epoll_op \<Rightarrow> int \<Rightarrow> 'w server \<Rightarrow> bool \<times> 'w server" where
  "epoll_ctr K iVerb fd s =
     (let (ok, w) = BdxEpollCtr K (m_clEpoll s) iVerb fd (s_world s) in (ok, s\<lparr>s_world := w\<rparr>))"

section \<open>The server\<close>

definition BdxInitServer :: "'w sys \<Rightarrow> 'w epoll \<Rightarrow> 'w server \<Rightarrow> bool \<times> 'w server" where
  "BdxInitServer S K s =
     (let (ok, w, sock) = TcpBind S 0 [] (s_world s, s_pclSock s)
      in if \<not> ok then (False, s\<lparr>s_world := w, s_pclSock := sock\<rparr>)
         else let (ok, w, sock) = TcpListen S 1 (w, sock)
              in if \<not> ok then (False, s\<lparr>s_world := w, s_pclSock := sock\<rparr>)
                 else let (ok, w, sock) = TcpSetNoblock S (w, sock)
                      in if \<not> ok then (False, s\<lparr>s_world := w, s_pclSock := sock\<rparr>)
                         else epoll_ctr K EPOLL_CTL_ADD (TcpGetSockfd sock) (s\<lparr>s_world := w, s_pclSock := sock\<rparr>))"

text \<open>
  The constructor; \<open>None\<close> is an exception. The epoll object, a member, is made first; \<open>m_mpSocketTask\<close>
  is empty. The vectors of the working threads are filled by \<open>AdWorkInit\<close>, before or after.
\<close>

definition new_CUserQueryServer :: "'w sys \<Rightarrow> 'w epoll \<Rightarrow> IPPORT_S \<Rightarrow> TASKQUE_S list \<Rightarrow> TASKSTATUS_S list list \<Rightarrow> 'w \<Rightarrow>
    'w server option" where
  "new_CUserQueryServer S K stServer bufs stauts w =
     do { (m_iEpoll, w) \<leftarrow> BdxEpollInit K w;
          (w, sock) \<leftarrow> new_CTcpSocket S (m_uiPort stServer) (m_pchIp stServer) 300000 w;
          let (ok, s) = BdxInitServer S K
                \<lparr>s_world = w, s_heap = Map.empty, s_next = 0, m_vecTaskBuf = bufs, m_vecTaskStauts = stauts,
                 m_mpSocketTask = Map.empty, s_pclSock = sock, m_clEpoll = m_iEpoll\<rparr>;
          if ok then Some s else None }"

text \<open>One round of the loop of \<open>BdxServerPutTask\<close>: the result, or \<open>None\<close> when thread \<open>i\<close> is busy.\<close>

definition put_try :: "nat \<Rightarrow> nat \<Rightarrow> 'w server \<Rightarrow> int option \<times> 'w server" where
  "put_try i t s =
     (let buf = m_vecTaskBuf s ! i; (iRes, lock) = MutexTryLock (m_clLock buf)
      in if iRes = 1 then (None, s)
         else if iRes = 0 then
           (Some SUCCESS,
            s\<lparr>m_vecTaskBuf := (m_vecTaskBuf s)[i :=
                buf\<lparr>m_queUserQueryTask := m_queUserQueryTask buf @ [t], m_clLock := MutexUnlock (MutexNotify lock)\<rparr>]\<rparr>)
         else (Some OTHERERROR, s))"

fun put_from :: "nat \<Rightarrow> nat \<Rightarrow> nat \<Rightarrow> 'w server \<Rightarrow> int \<times> 'w server" where
  "put_from 0 i t s = (NOFREE_THREAD, s)"
| "put_from (Suc n) i t s =
     (case put_try i t s of (Some r, s) \<Rightarrow> (r, s) | (None, s) \<Rightarrow> put_from n (Suc i) t s)"

definition BdxServerPutTask :: "nat \<Rightarrow> 'w server \<Rightarrow> int \<times> 'w server" where
  "BdxServerPutTask t s = put_from (length (m_vecTaskBuf s)) 0 t s"

text \<open>The end of \<open>BdxServerReadEvent\<close>, with the result of putting the task.\<close>

definition read_end :: "'w sys \<Rightarrow> int \<Rightarrow> nat \<Rightarrow> int \<Rightarrow> 'w server \<Rightarrow> (bool \<times> 'w server) option" where
  "read_end S fd t iRes s = (if iRes \<noteq> SUCCESS then map_option (\<lambda>s. (False, s)) (drop_task S fd t s) else Some (True, s))"

definition BdxServerReadEvent :: "'w sys \<Rightarrow> 'w epoll \<Rightarrow> int \<Rightarrow> 'w server \<Rightarrow> (bool \<times> 'w server) option" where
  "BdxServerReadEvent S K iSockfd s =
     (case m_mpSocketTask s iSockfd of
        None \<Rightarrow> Some (False, s\<lparr>s_world := sys_close S iSockfd (s_world s)\<rparr>)
      | Some t \<Rightarrow>
          (let (_, s) = epoll_ctr K EPOLL_CTL_DEL iSockfd s; (iRes, s) = BdxServerPutTask t s
           in read_end S iSockfd t iRes s))"

definition BdxServerGetTask :: "'w sys \<Rightarrow> 'w epoll \<Rightarrow> string \<Rightarrow> CTcpSocket \<Rightarrow> 'w server \<Rightarrow> bool \<times> 'w server" where
  "BdxServerGetTask S K strServerName pclSock s =
     (let (_, w, pclSock) = TcpSetNoblock S (s_world s, pclSock);
          (ok, s) = epoll_ctr K EPOLL_CTL_ADD (TcpGetSockfd pclSock) (s\<lparr>s_world := w\<rparr>)
      in if \<not> ok then (False, s)
         else if strServerName = ''query'' then
           (let (t, s) = new_task pclSock s
            in (True, s\<lparr>m_mpSocketTask := (m_mpSocketTask s)(TcpGetSockfd pclSock \<mapsto> t)\<rparr>))
         else (False, s))"

text \<open>One finished task: put back under epoll, or deleted.\<close>

definition free_task :: "'w sys \<Rightarrow> 'w epoll \<Rightarrow> TASKSTATUS_S \<Rightarrow> 'w server \<Rightarrow> 'w server option" where
  "free_task S K stTaskStatus s =
     (case m_mpSocketTask s (m_iSockFd stTaskStatus) of
        None \<Rightarrow> Some s
      | Some t \<Rightarrow>
          if m_bStatus stTaskStatus then
            (let (ok, s) = epoll_ctr K EPOLL_CTL_ADD (m_iSockFd stTaskStatus) s
             in if ok then Some s else drop_task S (m_iSockFd stTaskStatus) t s)
          else drop_task S (m_iSockFd stTaskStatus) t s)"

text \<open>The status queue of thread \<open>i\<close>: its first element, removed.\<close>

definition pop_status :: "nat \<Rightarrow> 'w server \<Rightarrow> (TASKSTATUS_S \<times> 'w server) option" where
  "pop_status i s =
     (case m_vecTaskStauts s ! i of
        [] \<Rightarrow> None
      | st # sts \<Rightarrow> Some (st, s\<lparr>m_vecTaskStauts := (m_vecTaskStauts s)[i := sts]\<rparr>))"

fun free_statuses :: "'w sys \<Rightarrow> 'w epoll \<Rightarrow> TASKSTATUS_S list \<Rightarrow> 'w server \<Rightarrow> 'w server option" where
  "free_statuses S K [] s = Some s"
| "free_statuses S K (st # sts) s = do { s \<leftarrow> free_task S K st s; free_statuses S K sts s }"

fun free_threads :: "'w sys \<Rightarrow> 'w epoll \<Rightarrow> nat \<Rightarrow> nat \<Rightarrow> 'w server \<Rightarrow> 'w server option" where
  "free_threads S K 0 i s = Some s"
| "free_threads S K (Suc n) i s =
     do { s \<leftarrow> free_statuses S K (m_vecTaskStauts s ! i) (s\<lparr>m_vecTaskStauts := (m_vecTaskStauts s)[i := []]\<rparr>);
          free_threads S K n (Suc i) s }"

definition BdxServerGetFreeTask :: "'w sys \<Rightarrow> 'w epoll \<Rightarrow> 'w server \<Rightarrow> 'w server option" where
  "BdxServerGetFreeTask S K s = free_threads S K (length (m_vecTaskBuf s)) 0 s"

definition accept_event :: "'w sys \<Rightarrow> 'w epoll \<Rightarrow> string \<Rightarrow> 'w server \<Rightarrow> 'w server" where
  "accept_event S K strServerName s =
     (let (pclClient, w, sock) = TcpAccept S (s_world s, s_pclSock s); s = s\<lparr>s_world := w, s_pclSock := sock\<rparr>
      in case pclClient of
           None \<Rightarrow> s
         | Some client \<Rightarrow>
             (let (ok, s) = BdxServerGetTask S K strServerName client s
              in if ok then s else s\<lparr>s_world := delete_CTcpSocket S (s_world s, client)\<rparr>))"

fun handle_event :: "'w sys \<Rightarrow> 'w epoll \<Rightarrow> string \<Rightarrow> int \<times> bool \<Rightarrow> 'w server \<Rightarrow> 'w server option" where
  "handle_event S K strServerName (fd, epollin) s =
     (if fd = TcpGetSockfd (s_pclSock s) then Some (accept_event S K strServerName s)
      else if epollin then map_option snd (BdxServerReadEvent S K fd s)
      else Some s)"

fun handle_events :: "'w sys \<Rightarrow> 'w epoll \<Rightarrow> string \<Rightarrow> (int \<times> bool) list \<Rightarrow> 'w server \<Rightarrow> 'w server option" where
  "handle_events S K strServerName [] s = Some s"
| "handle_events S K strServerName (e # es) s =
     do { s \<leftarrow> handle_event S K strServerName e s; handle_events S K strServerName es s }"

text \<open>One round of the endless loop of \<open>CUserQueryServer::Core\<close>, with no working thread in between.\<close>

definition server_round :: "'w sys \<Rightarrow> 'w epoll \<Rightarrow> string \<Rightarrow> 'w server \<Rightarrow> 'w server option" where
  "server_round S K strServerName s =
     do { s \<leftarrow> BdxServerGetFreeTask S K s;
          let (stEvent, w) = BdxEpollWait K (m_clEpoll s) 5 (s_world s);
          handle_events S K strServerName stEvent (s\<lparr>s_world := w\<rparr>) }"

section \<open>The working threads\<close>

record CUserQueryWorkThreads =
  m_uiThreadId :: nat
  w_pDataRedis :: CDataAdapter

text \<open>The vectors that all working threads share, with the counter of threads.\<close>

record pool =
  m_uiCount :: nat
  p_vecTaskBuf :: "TASKQUE_S list"
  p_vecTaskStauts :: "TASKSTATUS_S list list"
  p_vecReport :: "report list"
  p_vecHiveLog :: "HIVELOCALLOG_S list list"

definition serv_list_text :: "IPPORT_S \<Rightarrow> string option" where
  "serv_list_text srv =
     do { chCount \<leftarrow> sprintf_into 10 (show_int (m_count srv));
          chPort \<leftarrow> sprintf_into 10 (show_nat (unat (m_uiPort srv)));
          chIdx \<leftarrow> sprintf_into 10 (show_int (m_idx srv));
          Some (chCount @ '';'' @ cstr (m_pchIp srv) @ '':'' @ chPort @ '','' @ chIdx @ '';'') }"

text \<open>The result of \<open>CDataAdapter::Init\<close> is not looked at.\<close>

definition AdWorkInit :: "'w hiredis \<Rightarrow> CMd5 \<Rightarrow> IPPORT_S \<Rightarrow> 'w \<Rightarrow> pool \<Rightarrow> (CUserQueryWorkThreads \<times> 'w \<times> pool) option" where
  "AdWorkInit h md5 stRedisServer w p =
     do { strServerList \<leftarrow> serv_list_text stRedisServer;
          (_, w, a) \<leftarrow> Adapter_Init h strServerList (w, new_CDataAdapter md5);
          Some (\<lparr>m_uiThreadId = m_uiCount p, w_pDataRedis = a\<rparr>, w,
                \<lparr>m_uiCount = m_uiCount p + 1,
                 p_vecTaskBuf = p_vecTaskBuf p @ [\<lparr>m_queUserQueryTask = [], m_clLock = new_CMutexLock\<rparr>],
                 p_vecTaskStauts = p_vecTaskStauts p @ [[]], p_vecReport = p_vecReport p @ [[]],
                 p_vecHiveLog = p_vecHiveLog p @ [[]]\<rparr>) }"

text \<open>
  The steps of the endless loop of \<open>CUserQueryWorkThreads::Core\<close> on the buffer of the thread: taking the
  lock, waiting on an empty queue, taking the first task, and reporting a finished one.
\<close>

definition set_lock :: "CMutexLock \<Rightarrow> nat \<Rightarrow> 'w server \<Rightarrow> 'w server" where
  "set_lock l i s = s\<lparr>m_vecTaskBuf := (m_vecTaskBuf s)[i := (m_vecTaskBuf s ! i)\<lparr>m_clLock := l\<rparr>]\<rparr>"

definition worker_lock :: "nat \<Rightarrow> 'w server \<Rightarrow> 'w server option" where
  "worker_lock i s = map_option (\<lambda>l. set_lock l i s) (MutexLock (m_clLock (m_vecTaskBuf s ! i)))"

definition worker_wait :: "nat \<Rightarrow> 'w server \<Rightarrow> 'w server option" where
  "worker_wait i s =
     (if m_queUserQueryTask (m_vecTaskBuf s ! i) = []
      then Some (set_lock (MutexWait (m_clLock (m_vecTaskBuf s ! i))) i s) else None)"

definition worker_take :: "nat \<Rightarrow> 'w server \<Rightarrow> (nat \<times> 'w server) option" where
  "worker_take i s =
     (case m_queUserQueryTask (m_vecTaskBuf s ! i) of
        [] \<Rightarrow> None
      | t # ts \<Rightarrow>
          Some (t, s\<lparr>m_vecTaskBuf := (m_vecTaskBuf s)[i := (m_vecTaskBuf s ! i)\<lparr>m_queUserQueryTask := ts\<rparr>]\<rparr>))"

text \<open>The socket as \<open>BdxRunTask\<close> left it gives the descriptor that is reported.\<close>

definition worker_report :: "nat \<Rightarrow> nat \<Rightarrow> int \<Rightarrow> CTcpSocket \<Rightarrow> 'w \<Rightarrow> 'w server \<Rightarrow> 'w server option" where
  "worker_report i t iRes sock w s =
     (case s_heap s t of
        None \<Rightarrow> None
      | Some _ \<Rightarrow>
          Some (set_lock (MutexNotify (MutexUnlock (m_clLock (m_vecTaskBuf s ! i)))) i
            (s\<lparr>s_world := w, s_heap := (s_heap s)(t \<mapsto> sock),
               m_vecTaskStauts := (m_vecTaskStauts s)[i := m_vecTaskStauts s ! i @
                 [\<lparr>m_iSockFd = TcpGetSockfd sock, m_bStatus = (iRes = SUCCESS)\<rparr>]]\<rparr>)))"

end
