(* ===== verification/Scheduler.thy ===== *)
theory Scheduler
  imports Server "HOL-Library.Multiset"
begin

text \<open>
  The server thread and the working threads together, as interleaved steps on the state they share
  (\<open>CUserQueryServer::Core\<close> and \<open>CUserQueryWorkThreads::Core\<close>). A step is an operation of \<open>Server\<close>: one
  entry of a status queue, one event, one attempt to lock a thread's queue, or one action of a working
  thread between two synchronisation points. \<open>runs\<close> stands for \<open>BdxRunTask\<close>: it relates the task's
  socket and the world to the result and what they are afterwards.

  The status queues are shared without a lock; a step takes each access to them to be atomic.
\<close>

section \<open>The steps\<close>

datatype server_pc = FREEING nat | WAITING | EVENTS "(int \<times> bool) list" | PUTTING int nat nat "(int \<times> bool) list"

datatype worker_pc = AT_LOCK | IN_LOCK | IN_WAIT | RUNNING nat

type_synonym 'w runs = "CTcpSocket \<Rightarrow> 'w \<Rightarrow> int \<Rightarrow> CTcpSocket \<Rightarrow> 'w \<Rightarrow> bool"

abbreviation threads :: "'w server \<Rightarrow> nat" where
  "threads s \<equiv> length (m_vecTaskBuf s)"

abbreviation buf_lock :: "'w server \<Rightarrow> nat \<Rightarrow> CMutexLock" where
  "buf_lock s i \<equiv> m_clLock (m_vecTaskBuf s ! i)"

abbreviation buf_queue :: "'w server \<Rightarrow> nat \<Rightarrow> nat list" where
  "buf_queue s i \<equiv> m_queUserQueryTask (m_vecTaskBuf s ! i)"

inductive server_step :: "'w sys \<Rightarrow> 'w epoll \<Rightarrow> string \<Rightarrow> 'w server \<times> server_pc \<Rightarrow> 'w server \<times> server_pc \<Rightarrow> bool"
  for S K name where
  free_one: "i < threads s \<Longrightarrow> pop_status i s = Some (st, s1) \<Longrightarrow> free_task S K st s1 = Some s2 \<Longrightarrow>
    server_step S K name (s, FREEING i) (s2, FREEING i)"
| free_next: "i < threads s \<Longrightarrow> pop_status i s = None \<Longrightarrow> server_step S K name (s, FREEING i) (s, FREEING (Suc i))"
| free_end: "\<not> i < threads s \<Longrightarrow> server_step S K name (s, FREEING i) (s, WAITING)"
| poll: "BdxEpollWait K (m_clEpoll s) 5 (s_world s) = (es, w) \<Longrightarrow>
    server_step S K name (s, WAITING) (s\<lparr>s_world := w\<rparr>, EVENTS es)"
| accepting: "fd = TcpGetSockfd (s_pclSock s) \<Longrightarrow>
    server_step S K name (s, EVENTS ((fd, b) # es)) (accept_event S K name s, EVENTS es)"
| other_event: "fd \<noteq> TcpGetSockfd (s_pclSock s) \<Longrightarrow> server_step S K name (s, EVENTS ((fd, False) # es)) (s, EVENTS es)"
| unknown: "fd \<noteq> TcpGetSockfd (s_pclSock s) \<Longrightarrow> m_mpSocketTask s fd = None \<Longrightarrow>
    server_step S K name (s, EVENTS ((fd, True) # es)) (s\<lparr>s_world := sys_close S fd (s_world s)\<rparr>, EVENTS es)"
| readable: "fd \<noteq> TcpGetSockfd (s_pclSock s) \<Longrightarrow> m_mpSocketTask s fd = Some t \<Longrightarrow>
    epoll_ctr K EPOLL_CTL_DEL fd s = (ok, s1) \<Longrightarrow> server_step S K name (s, EVENTS ((fd, True) # es)) (s1, PUTTING fd t 0 es)"
| put_busy: "i < threads s \<Longrightarrow> put_try i t s = (None, s1) \<Longrightarrow>
    server_step S K name (s, PUTTING fd t i es) (s1, PUTTING fd t (Suc i) es)"
| put_done: "i < threads s \<Longrightarrow> put_try i t s = (Some r, s1) \<Longrightarrow> read_end S fd t r s1 = Some (b, s2) \<Longrightarrow>
    server_step S K name (s, PUTTING fd t i es) (s2, EVENTS es)"
| put_none: "\<not> i < threads s \<Longrightarrow> read_end S fd t NOFREE_THREAD s = Some (b, s1) \<Longrightarrow>
    server_step S K name (s, PUTTING fd t i es) (s1, EVENTS es)"
| next_round: "server_step S K name (s, EVENTS []) (s, FREEING 0)"

text \<open>A waiting thread goes on when it has been signalled, or without a signal.\<close>

inductive worker_step :: "'w runs \<Rightarrow> nat \<Rightarrow> 'w server \<times> worker_pc \<Rightarrow> 'w server \<times> worker_pc \<Rightarrow> bool" for runs i where
  locking: "worker_lock i s = Some s1 \<Longrightarrow> worker_step runs i (s, AT_LOCK) (s1, IN_LOCK)"
| waiting: "worker_wait i s = Some s1 \<Longrightarrow> worker_step runs i (s, IN_LOCK) (s1, IN_WAIT)"
| spurious: "worker_step runs i (s, IN_WAIT) (set_lock (MutexNotify (buf_lock s i)) i s, AT_LOCK)"
| signalled: "m_stCond (buf_lock s i) = 0 \<Longrightarrow> worker_step runs i (s, IN_WAIT) (s, AT_LOCK)"
| taking: "worker_take i s = Some (t, s1) \<Longrightarrow> worker_step runs i (s, IN_LOCK) (s1, RUNNING t)"
| reporting: "s_heap s t = Some sock \<Longrightarrow> runs sock (s_world s) iRes sock' w \<Longrightarrow> worker_report i t iRes sock' w s = Some s1 \<Longrightarrow>
    worker_step runs i (s, RUNNING t) (s1, AT_LOCK)"

type_synonym 'w sched_state = "'w server \<times> server_pc \<times> worker_pc list"

inductive sched_step :: "'w sys \<Rightarrow> 'w epoll \<Rightarrow> string \<Rightarrow> 'w runs \<Rightarrow> 'w sched_state \<Rightarrow> 'w sched_state \<Rightarrow> bool"
  for S K name runs where
  by_server: "server_step S K name (s, pc) (s', pc') \<Longrightarrow> sched_step S K name runs (s, pc, ws) (s', pc', ws)"
| by_worker: "i < length ws \<Longrightarrow> worker_step runs i (s, ws ! i) (s', p) \<Longrightarrow>
    sched_step S K name runs (s, pc, ws) (s', pc, ws[i := p])"

text \<open>The threads start with empty queues, the server at the head of its loop.\<close>

definition sched_init :: "'w sys \<Rightarrow> 'w epoll \<Rightarrow> IPPORT_S \<Rightarrow> nat \<Rightarrow> 'w \<Rightarrow> 'w sched_state option" where
  "sched_init S K srv n w =
     map_option (\<lambda>s. (s, FREEING 0, replicate n AT_LOCK))
       (new_CUserQueryServer S K srv (replicate n \<lparr>m_queUserQueryTask = [], m_clLock = new_CMutexLock\<rparr>) (replicate n []) w)"

inductive reachable :: "'w sys \<Rightarrow> 'w epoll \<Rightarrow> string \<Rightarrow> 'w runs \<Rightarrow> 'w sched_state \<Rightarrow> 'w sched_state \<Rightarrow> bool"
  for S K name runs a where
  start: "reachable S K name runs a a"
| later: "reachable S K name runs a b \<Longrightarrow> sched_step S K name runs b c \<Longrightarrow> reachable S K name runs a c"

section \<open>What is assumed of the kernel and of a run\<close>

text \<open>
  \<open>tab\<close> is the descriptor table of \<open>TcpSocket\<close>: the open descriptors, and those of them that epoll watches.
  Connections that libraries open and close for themselves (hiredis, MySQL) are not entered into it.
\<close>

definition opened :: "('w \<Rightarrow> int \<rightharpoonup> bool) \<Rightarrow> 'w \<Rightarrow> int set" where
  "opened tab w = dom (tab w)"

definition polled :: "('w \<Rightarrow> int \<rightharpoonup> bool) \<Rightarrow> 'w \<Rightarrow> int set" where
  "polled tab w = {fd. tab w fd = Some True}"

text \<open>
  \<open>accept\<close> returns a descriptor that was not open; \<open>epoll_ctl\<close> adds an open descriptor, or not, and removes;
  \<open>epoll_wait\<close> returns events of registered descriptors, one each.
\<close>

definition kernel_ok :: "'w sys \<Rightarrow> 'w epoll \<Rightarrow> ('w \<Rightarrow> int \<rightharpoonup> bool) \<Rightarrow> bool" where
  "kernel_ok S K tab \<longleftrightarrow>
     tracks_fds S tab \<and> (\<forall>fd w. tab (sys_close S fd w) = (tab w)(fd := None)) \<and>
     (\<forall>l w c w'. sys_accept S l w = (c, w') \<longrightarrow>
        (if c < 0 then tab w' = tab w else tab w c = None \<and> tab w' = (tab w)(c \<mapsto> False))) \<and>
     (\<forall>fd w r w'. sys_setfl_nonblock S fd w = (r, w') \<longrightarrow> tab w' = tab w) \<and>
     (\<forall>e fd w r w'. epoll_ctl K e EPOLL_CTL_ADD fd w = (r, w') \<longrightarrow>
        (if r = -1 then tab w' = tab w else tab w fd \<noteq> None \<and> tab w' = (tab w)(fd \<mapsto> True))) \<and>
     (\<forall>e fd w r w'. epoll_ctl K e EPOLL_CTL_DEL fd w = (r, w') \<longrightarrow>
        tab w' = (tab w)(fd := map_option (\<lambda>_. False) (tab w fd))) \<and>
     (\<forall>e n t w es w'. epoll_wait K e n t w = (es, w') \<longrightarrow>
        tab w' = tab w \<and> distinct (map fst es) \<and> fst ` set es \<subseteq> polled tab w)"

text \<open>The calls made at the start: a new epoll object has no descriptors in it.\<close>

definition startup_ok :: "'w sys \<Rightarrow> 'w epoll \<Rightarrow> ('w \<Rightarrow> int \<rightharpoonup> bool) \<Rightarrow> bool" where
  "startup_ok S K tab \<longleftrightarrow>
     (\<forall>w e w'. epoll_create K w = (e, w') \<longrightarrow> polled tab w' = {}) \<and>
     (\<forall>fd a p w r w'. sys_bind S fd a p w = (r, w') \<longrightarrow> tab w' = tab w) \<and>
     (\<forall>fd n w r w'. sys_listen S fd n w = (r, w') \<longrightarrow> tab w' = tab w)"

text \<open>
  A run keeps the socket of its task, and of the table it changes no entry but those it adds; \<open>TaskRun\<close>
  shows this of \<open>BdxRunTask\<close>.
\<close>

definition runs_ok :: "'w runs \<Rightarrow> ('w \<Rightarrow> int \<rightharpoonup> bool) \<Rightarrow> bool" where
  "runs_ok runs tab \<longleftrightarrow>
     (\<forall>sock w r sock' w'. runs sock w r sock' w' \<longrightarrow>
        m_iSockfd sock' = m_iSockfd sock \<and> m_bConnect sock' = m_bConnect sock \<and> grows (tab w) (tab w'))"

section \<open>The ownership invariant\<close>

text \<open>Where tasks are: in a queue, with a thread, in the hands of the server, or reported.\<close>

definition running :: "worker_pc list \<Rightarrow> nat list" where
  "running ws = concat (map (\<lambda>p. case p of RUNNING t \<Rightarrow> [t] | _ \<Rightarrow> []) ws)"

fun putting :: "server_pc \<Rightarrow> nat list" where
  "putting (PUTTING fd t i es) = [t]"
| "putting _ = []"

fun pending :: "server_pc \<Rightarrow> (int \<times> bool) list" where
  "pending (EVENTS es) = es"
| "pending (PUTTING fd t i es) = es"
| "pending _ = []"

definition queued :: "'w server \<Rightarrow> nat list" where
  "queued s = concat (map m_queUserQueryTask (m_vecTaskBuf s))"

definition held :: "'w sched_state \<Rightarrow> nat list" where
  "held = (\<lambda>(s, pc, ws). putting pc @ queued s @ running ws)"

definition reported :: "'w server \<Rightarrow> int list" where
  "reported s = map m_iSockFd (concat (m_vecTaskStauts s))"

definition fd_of :: "'w server \<Rightarrow> nat \<Rightarrow> int" where
  "fd_of s t = (case s_heap s t of Some sock \<Rightarrow> m_iSockfd sock | None \<Rightarrow> -1)"

text \<open>
  The core: \<open>hs\<close> are the tasks held, \<open>rs\<close> the descriptors reported, \<open>es\<close> the events still to be handled.
  Tasks and map entries correspond one to one; a connection of the map is either under epoll or at
  exactly one of the other places; epoll knows nothing but these connections and the listening socket.
\<close>

definition core :: "('w \<Rightarrow> int set) \<Rightarrow> ('w \<Rightarrow> int set) \<Rightarrow> 'w server \<Rightarrow> nat list \<Rightarrow> int list \<Rightarrow> (int \<times> bool) list \<Rightarrow> bool" where
  "core fds reg s hs rs es \<longleftrightarrow>
     (\<forall>fd t. m_mpSocketTask s fd = Some t \<longleftrightarrow> (\<exists>sock. s_heap s t = Some sock \<and> m_iSockfd sock = fd)) \<and>
     (\<forall>t sock. s_heap s t = Some sock \<longrightarrow> m_bConnect sock \<and> 0 \<le> m_iSockfd sock \<and> t < s_next s) \<and>
     set hs \<subseteq> dom (s_heap s) \<and>
     distinct (map (fd_of s) hs @ rs) \<and>
     fd_of s ` set hs \<union> set rs = dom (m_mpSocketTask s) - reg (s_world s) \<and>
     m_iSockfd (s_pclSock s) \<in> reg (s_world s) \<and>
     m_iSockfd (s_pclSock s) \<notin> dom (m_mpSocketTask s) \<and>
     reg (s_world s) \<subseteq> insert (m_iSockfd (s_pclSock s)) (dom (m_mpSocketTask s)) \<and>
     insert (m_iSockfd (s_pclSock s)) (dom (m_mpSocketTask s)) \<subseteq> fds (s_world s) \<and>
     distinct (map fst es) \<and> fst ` set es \<subseteq> reg (s_world s)"

definition owned :: "('w \<Rightarrow> int set) \<Rightarrow> ('w \<Rightarrow> int set) \<Rightarrow> 'w sched_state \<Rightarrow> bool" where
  "owned fds reg st \<longleftrightarrow>
     (case st of (s, pc, ws) \<Rightarrow>
        core fds reg s (held st) (reported s) (pending pc) \<and>
        length (m_vecTaskStauts s) = threads s \<and> length ws = threads s \<and>
        (case pc of PUTTING fd t i es \<Rightarrow> m_mpSocketTask s fd = Some t | _ \<Rightarrow> True))"

section \<open>The core is kept\<close>

lemma core_perm:
  assumes "core fds reg s hs rs es" "mset hs' = mset hs" "mset rs' = mset rs"
  shows "core fds reg s hs' rs' es"
proof -
  have "mset (map (fd_of s) hs' @ rs') = mset (map (fd_of s) hs @ rs)" using assms(2,3) by simp
  then have "distinct (map (fd_of s) hs' @ rs') = distinct (map (fd_of s) hs @ rs)" by (rule mset_eq_imp_distinct_iff)
  with assms(1) mset_eq_setD [OF assms(2)] mset_eq_setD [OF assms(3)] show ?thesis unfolding core_def by simp
qed

text \<open>Only the map, the heap, the listening socket and the world matter.\<close>

lemma fd_of_fields [simp]:
  "fd_of (s\<lparr>m_vecTaskBuf := b\<rparr>) = fd_of s" "fd_of (s\<lparr>m_vecTaskStauts := q\<rparr>) = fd_of s" "fd_of (s\<lparr>s_world := w\<rparr>) = fd_of s"
  "fd_of (s\<lparr>m_mpSocketTask := m\<rparr>) = fd_of s"
  by (simp_all add: fd_of_def fun_eq_iff)

lemma core_fields:
  "core fds reg (s\<lparr>m_vecTaskBuf := b\<rparr>) hs rs es = core fds reg s hs rs es"
  "core fds reg (s\<lparr>m_vecTaskStauts := q\<rparr>) hs rs es = core fds reg s hs rs es"
  by (simp_all add: core_def)

lemma core_set_lock [simp]: "core fds reg (set_lock l i s) hs rs es = core fds reg s hs rs es"
  by (simp add: set_lock_def core_fields)

lemma core_map:
  assumes "core fds reg s hs rs es"
  shows "m_mpSocketTask s fd = Some t \<longleftrightarrow> (\<exists>sock. s_heap s t = Some sock \<and> m_iSockfd sock = fd)"
  by (rule assms [unfolded core_def, THEN conjunct1, rule_format])

lemma core_facts:
  assumes "core fds reg s hs rs es"
  shows "\<And>t sock. s_heap s t = Some sock \<Longrightarrow> m_bConnect sock \<and> 0 \<le> m_iSockfd sock \<and> t < s_next s"
    and "set hs \<subseteq> dom (s_heap s)" and "distinct (map (fd_of s) hs @ rs)"
    and "fd_of s ` set hs \<union> set rs = dom (m_mpSocketTask s) - reg (s_world s)"
    and "m_iSockfd (s_pclSock s) \<in> reg (s_world s)" and "m_iSockfd (s_pclSock s) \<notin> dom (m_mpSocketTask s)"
    and "reg (s_world s) \<subseteq> insert (m_iSockfd (s_pclSock s)) (dom (m_mpSocketTask s))"
    and "insert (m_iSockfd (s_pclSock s)) (dom (m_mpSocketTask s)) \<subseteq> fds (s_world s)"
    and "distinct (map fst es)" and "fst ` set es \<subseteq> reg (s_world s)"
  using assms unfolding core_def by simp_all

lemma core_event: "core fds reg s hs rs (e # es) \<Longrightarrow> core fds reg s hs rs es"
  by (simp add: core_def)

lemma core_world:
  assumes "core fds reg s hs rs es" "fds (s_world s) \<subseteq> fds w" "reg w = reg (s_world s)"
    "distinct (map fst es')" "fst ` set es' \<subseteq> reg w"
  shows "core fds reg (s\<lparr>s_world := w\<rparr>) hs rs es'"
  using assms unfolding core_def by auto

lemma core_report:
  assumes "core fds reg s (t # hs) rs es" "s_heap s t = Some sock" "m_iSockfd sock' = m_iSockfd sock"
    "m_bConnect sock' = m_bConnect sock" "fds (s_world s) \<subseteq> fds w" "reg w = reg (s_world s)"
  shows "core fds reg (s\<lparr>s_world := w, s_heap := (s_heap s)(t \<mapsto> sock')\<rparr>) hs (m_iSockfd sock' # rs) es"
proof -
  let ?s = "s\<lparr>s_world := w, s_heap := (s_heap s)(t \<mapsto> sock')\<rparr>"
  have fd: "fd_of ?s = fd_of s" using assms(2,3) by (auto simp: fd_of_def fun_eq_iff)
  have t: "fd_of s t = m_iSockfd sock'" using assms(2,3) by (simp add: fd_of_def)
  show ?thesis
    using assms(1-6) unfolding core_def fd by (auto simp: t)
qed

lemma core_readable:
  assumes "core fds reg s hs rs ((fd, b) # es)" "m_mpSocketTask s fd = Some t" "fd \<noteq> m_iSockfd (s_pclSock s)"
    "fds w = fds (s_world s)" "reg w = reg (s_world s) - {fd}"
  shows "core fds reg (s\<lparr>s_world := w\<rparr>) (t # hs) rs es"
proof -
  obtain sock where t: "s_heap s t = Some sock" "fd_of s t = fd"
    using assms(1,2) by (auto simp: core_def fd_of_def)
  show ?thesis
    using assms t unfolding core_def by (auto simp: image_iff)
qed

lemma core_rearm:
  assumes "core fds reg s hs (fd # rs) es" "fds w = fds (s_world s)" "reg w = insert fd (reg (s_world s))"
  shows "core fds reg (s\<lparr>s_world := w\<rparr>) hs rs es"
proof -
  have "fd \<in> dom (m_mpSocketTask s)" using assms(1) by (auto simp: core_def)
  then show ?thesis using assms unfolding core_def by auto
qed

text \<open>A task is deleted once nothing else holds it.\<close>

definition without :: "int \<Rightarrow> nat \<Rightarrow> 'w \<Rightarrow> 'w server \<Rightarrow> 'w server" where
  "without fd t w s = s\<lparr>s_world := w, s_heap := (s_heap s)(t := None), m_mpSocketTask := (m_mpSocketTask s)(fd := None)\<rparr>"

lemma core_drop:
  assumes "core fds reg s hs' rs' es" "m_mpSocketTask s fd = Some t" "fd \<notin> reg (s_world s)"
    "mset (map (fd_of s) hs' @ rs') = add_mset fd (mset (map (fd_of s) hs @ rs))" "set hs \<subseteq> set hs'"
    "fds w = fds (s_world s) - {fd}" "reg w = reg (s_world s) - {fd}"
  shows "core fds reg (without fd t w s) hs rs es"
proof -
  let ?s = "without fd t w s"
  note bij = core_map [OF assms(1)] and old = core_facts [OF assms(1)]
  obtain sock where sock: "s_heap s t = Some sock" "m_iSockfd sock = fd" using bij assms(2) by blast
  then have fd_t: "fd_of s t = fd" by (simp add: fd_of_def)
  have d: "distinct (fd # map (fd_of s) hs @ rs)"
    using old(3) mset_eq_imp_distinct_iff [of "fd # map (fd_of s) hs @ rs" "map (fd_of s) hs' @ rs'"] assms(4) by simp
  have st: "insert fd (fd_of s ` set hs \<union> set rs) = fd_of s ` set hs' \<union> set rs'"
    using mset_eq_setD [of "fd # map (fd_of s) hs @ rs" "map (fd_of s) hs' @ rs'"] assms(4) by simp
  have t: "t \<notin> set hs" using d fd_t by auto
  then have maps: "map (fd_of ?s) hs = map (fd_of s) hs" "fd_of ?s ` set hs = fd_of s ` set hs"
    by (auto simp: fd_of_def without_def)
  have reg: "reg w = reg (s_world s)" using assms(3,7) by auto
  have 1: "m_mpSocketTask ?s fd' = Some t' \<longleftrightarrow> (\<exists>sock. s_heap ?s t' = Some sock \<and> m_iSockfd sock = fd')" for fd' t'
    using bij [of fd' t'] bij [of fd t'] bij [of fd' t] assms(2) sock by (cases "t' = t"; cases "fd' = fd") (auto simp: without_def)
  have 2: "m_bConnect sock \<and> 0 \<le> m_iSockfd sock \<and> t' < s_next ?s" if "s_heap ?s t' = Some sock" for t' sock
    using that old(1) [of t' sock] by (simp add: without_def split: if_splits)
  have 3: "set hs \<subseteq> dom (s_heap ?s)" using old(2) assms(5) t by (auto simp: without_def)
  have 4: "fd_of s ` set hs \<union> set rs = dom (m_mpSocketTask ?s) - reg (s_world ?s)"
    using old(4) st d by (auto simp: without_def reg)
  have l: "m_iSockfd (s_pclSock s) \<noteq> fd" using old(6) assms(2) by auto
  have 5: "m_iSockfd (s_pclSock ?s) \<in> reg (s_world ?s)" "m_iSockfd (s_pclSock ?s) \<notin> dom (m_mpSocketTask ?s)"
    using old(5,6) by (auto simp: without_def reg)
  have 6: "reg (s_world ?s) \<subseteq> insert (m_iSockfd (s_pclSock ?s)) (dom (m_mpSocketTask ?s))"
    using old(7) assms(3) by (auto simp: without_def reg)
  have 7: "insert (m_iSockfd (s_pclSock ?s)) (dom (m_mpSocketTask ?s)) \<subseteq> fds (s_world ?s)"
    using old(8) l by (auto simp: without_def assms(6))
  have 8: "fst ` set es \<subseteq> reg (s_world ?s)" using old(10) by (simp add: without_def reg)
  from 1 2 3 4 5 6 7 8 d old(9) show ?thesis unfolding core_def maps by simp
qed

section \<open>The operations keep the core\<close>

abbreviation core_at :: "('w \<Rightarrow> int \<rightharpoonup> bool) \<Rightarrow> 'w server \<Rightarrow> nat list \<Rightarrow> int list \<Rightarrow> (int \<times> bool) list \<Rightarrow> bool" where
  "core_at tab \<equiv> core (opened tab) (polled tab)"

abbreviation owned_at :: "('w \<Rightarrow> int \<rightharpoonup> bool) \<Rightarrow> 'w sched_state \<Rightarrow> bool" where
  "owned_at tab \<equiv> owned (opened tab) (polled tab)"

lemma table_changes:
  "tab w' = tab w \<Longrightarrow> opened tab w' = opened tab w \<and> polled tab w' = polled tab w"
  "tab w fd = None \<Longrightarrow> tab w' = (tab w)(fd \<mapsto> False) \<Longrightarrow>
    fd \<notin> opened tab w \<and> opened tab w' = insert fd (opened tab w) \<and> polled tab w' = polled tab w"
  "tab w' = (tab w)(fd := None) \<Longrightarrow> opened tab w' = opened tab w - {fd} \<and> polled tab w' = polled tab w - {fd}"
  "tab w fd \<noteq> None \<Longrightarrow> tab w' = (tab w)(fd \<mapsto> True) \<Longrightarrow>
    opened tab w' = opened tab w \<and> polled tab w' = insert fd (polled tab w)"
  "tab w' = (tab w)(fd := map_option (\<lambda>_. False) (tab w fd)) \<Longrightarrow>
    opened tab w' = opened tab w \<and> polled tab w' = polled tab w - {fd}"
  by (auto simp: opened_def polled_def split: if_splits)

lemma grows_table:
  assumes "grows (tab w) (tab w')"
  shows "opened tab w \<subseteq> opened tab w'" "polled tab w' = polled tab w"
proof -
  have e: "tab w' fd = tab w fd \<or> tab w fd = None \<and> tab w' fd = Some False" for fd
    using assms by (simp add: grows_def)
  show "opened tab w \<subseteq> opened tab w'" using e by (force simp: opened_def)
  have "tab w' fd = Some True \<longleftrightarrow> tab w fd = Some True" for fd using e [of fd] by auto
  then show "polled tab w' = polled tab w" by (simp add: polled_def)
qed

lemma runs_calls:
  assumes "runs_ok runs tab" "runs sock w r sock' w'"
  shows "m_iSockfd sock' = m_iSockfd sock" "m_bConnect sock' = m_bConnect sock"
    "opened tab w \<subseteq> opened tab w'" "polled tab w' = polled tab w"
proof -
  note r = assms(1) [unfolded runs_ok_def, rule_format, OF assms(2)]
  show "m_iSockfd sock' = m_iSockfd sock" "m_bConnect sock' = m_bConnect sock" using r by simp_all
  show "opened tab w \<subseteq> opened tab w'" "polled tab w' = polled tab w" using r grows_table [of tab w w'] by simp_all
qed

lemma kernel_calls:
  assumes "kernel_ok S K tab"
  shows "tracks_fds S tab"
    and "\<And>l w c w'. sys_accept S l w = (c, w') \<Longrightarrow> polled tab w' = polled tab w \<and>
      (c < 0 \<and> opened tab w' = opened tab w \<or> 0 \<le> c \<and> c \<notin> opened tab w \<and> opened tab w' = insert c (opened tab w))"
    and "\<And>fd w r w'. sys_setfl_nonblock S fd w = (r, w') \<Longrightarrow> opened tab w' = opened tab w \<and> polled tab w' = polled tab w"
    and "\<And>fd opt w r w'. sys_setsockopt S fd opt w = (r, w') \<Longrightarrow> opened tab w' = opened tab w \<and> polled tab w' = polled tab w"
    and "\<And>fd w. opened tab (sys_close S fd w) = opened tab w - {fd} \<and> polled tab (sys_close S fd w) = polled tab w - {fd}"
proof -
  note k = assms [unfolded kernel_ok_def, THEN conjunct2, THEN conjunct2]
  show t: "tracks_fds S tab" by (rule assms [unfolded kernel_ok_def, THEN conjunct1])
  show "polled tab w' = polled tab w \<and>
      (c < 0 \<and> opened tab w' = opened tab w \<or> 0 \<le> c \<and> c \<notin> opened tab w \<and> opened tab w' = insert c (opened tab w))"
    if "sys_accept S l w = (c, w')" for l w c w'
    using k [THEN conjunct1, rule_format, OF that] table_changes(1) [of tab w' w] table_changes(2) [of tab w c w']
    by (auto simp: not_less split: if_splits)
  show "opened tab w' = opened tab w \<and> polled tab w' = polled tab w" if "sys_setfl_nonblock S fd w = (r, w')" for fd w r w'
    using k [THEN conjunct2, THEN conjunct1, rule_format, OF that] by (rule table_changes)
  show "opened tab w' = opened tab w \<and> polled tab w' = polled tab w" if "sys_setsockopt S fd opt w = (r, w')" for fd opt w r w'
    using tracks_fds_calls(2) [OF t that] by (rule table_changes)
  show "opened tab (sys_close S fd w) = opened tab w - {fd} \<and> polled tab (sys_close S fd w) = polled tab w - {fd}" for fd w
    using assms [unfolded kernel_ok_def, THEN conjunct2, THEN conjunct1, rule_format] by (rule table_changes)
qed

lemma kernel_epoll:
  assumes "kernel_ok S K tab"
  shows "\<And>e fd w r w'. epoll_ctl K e EPOLL_CTL_ADD fd w = (r, w') \<Longrightarrow>
      opened tab w' = opened tab w \<and> polled tab w' = (if r = -1 then polled tab w else insert fd (polled tab w))"
    and "\<And>e fd w r w'. epoll_ctl K e EPOLL_CTL_DEL fd w = (r, w') \<Longrightarrow>
      opened tab w' = opened tab w \<and> polled tab w' = polled tab w - {fd}"
    and "\<And>e n t w es w'. epoll_wait K e n t w = (es, w') \<Longrightarrow>
      opened tab w' = opened tab w \<and> polled tab w' = polled tab w \<and> distinct (map fst es) \<and> fst ` set es \<subseteq> polled tab w"
proof -
  note k = assms [unfolded kernel_ok_def, THEN conjunct2, THEN conjunct2, THEN conjunct2, THEN conjunct2]
  show "opened tab w' = opened tab w \<and> polled tab w' = (if r = -1 then polled tab w else insert fd (polled tab w))"
    if "epoll_ctl K e EPOLL_CTL_ADD fd w = (r, w')" for e fd w r w'
    using k [THEN conjunct1, rule_format, OF that] table_changes(1) [of tab w' w] table_changes(4) [of tab w fd w']
    by (simp split: if_splits)
  show "opened tab w' = opened tab w \<and> polled tab w' = polled tab w - {fd}"
    if "epoll_ctl K e EPOLL_CTL_DEL fd w = (r, w')" for e fd w r w'
    using k [THEN conjunct2, THEN conjunct1, rule_format, OF that] by (rule table_changes)
  show "opened tab w' = opened tab w \<and> polled tab w' = polled tab w \<and> distinct (map fst es) \<and> fst ` set es \<subseteq> polled tab w"
    if "epoll_wait K e n t w = (es, w')" for e n t w es w'
    using k [THEN conjunct2, THEN conjunct2, rule_format, OF that] table_changes(1) [of tab w' w] by blast
qed

lemma epoll_ctr_cases:
  assumes "kernel_ok S K tab" "epoll_ctr K verb fd s = (ok, s')"
  obtains w where "s' = s\<lparr>s_world := w\<rparr>" "opened tab w = opened tab (s_world s)"
    "polled tab w = (case verb of EPOLL_CTL_ADD \<Rightarrow> if ok then insert fd (polled tab (s_world s)) else polled tab (s_world s) | EPOLL_CTL_DEL \<Rightarrow> polled tab (s_world s) - {fd})"
proof -
  obtain r w where e: "epoll_ctl K (m_clEpoll s) verb fd (s_world s) = (r, w)" by (metis surj_pair)
  then have "s' = s\<lparr>s_world := w\<rparr>" "ok = (r \<noteq> -1)"
    using assms(2) by (simp_all add: epoll_ctr_def BdxEpollCtr_def)
  moreover have "opened tab w = opened tab (s_world s)" "polled tab w = (case verb of
      EPOLL_CTL_ADD \<Rightarrow> if r \<noteq> -1 then insert fd (polled tab (s_world s)) else polled tab (s_world s) | EPOLL_CTL_DEL \<Rightarrow> polled tab (s_world s) - {fd})"
    using kernel_epoll [OF assms(1)] e by (cases verb; fastforce)+
  ultimately show thesis using that by simp
qed

text \<open>The connections known, and the descriptors under epoll.\<close>

definition view :: "('w \<Rightarrow> int set) \<Rightarrow> 'w server \<Rightarrow> int set \<times> int set" where
  "view reg s = (dom (m_mpSocketTask s), reg (s_world s))"

abbreviation view_at :: "('w \<Rightarrow> int \<rightharpoonup> bool) \<Rightarrow> 'w server \<Rightarrow> int set \<times> int set" where
  "view_at tab \<equiv> view (polled tab)"

lemma drop_task_core:
  assumes "kernel_ok S K tab" "core_at tab s hs' rs' es" "m_mpSocketTask s fd = Some t" "fd \<notin> polled tab (s_world s)"
    "mset (map (fd_of s) hs' @ rs') = add_mset fd (mset (map (fd_of s) hs @ rs))" "set hs \<subseteq> set hs'"
  shows "\<exists>w. drop_task S fd t s = Some (without fd t w s) \<and> core_at tab (without fd t w s) hs rs es \<and>
    view_at tab (without fd t w s) = (dom (m_mpSocketTask s) - {fd}, polled tab (s_world s))"
proof -
  obtain sock where sock: "s_heap s t = Some sock" "m_iSockfd sock = fd" "m_bConnect sock" "0 \<le> fd"
    using assms(2,3) by (auto simp: core_def)
  obtain r w1 where o: "sys_setsockopt S fd SO_LINGER (s_world s) = (r, w1)" by (metis surj_pair)
  let ?w = "sys_close S fd w1"
  have w: "opened tab ?w = opened tab (s_world s) - {fd}" "polled tab ?w = polled tab (s_world s) - {fd}"
    using kernel_calls(4) [OF assms(1) o] kernel_calls(5) [OF assms(1)] by auto
  then have "core_at tab (without fd t ?w s) hs rs es" by (rule core_drop [OF assms(2-6)])
  moreover have "view_at tab (without fd t ?w s) = (dom (m_mpSocketTask s) - {fd}, polled tab (s_world s))"
    using w(2) assms(4) by (simp add: view_def without_def)
  moreover have "drop_task S fd t s = Some (without fd t ?w s)"
    using sock o by (simp add: drop_task_def delete_task_def TcpClose_def without_def)
  ultimately show ?thesis by blast
qed

lemma core_member:
  assumes "core_at tab s hs rs es"
  shows "t \<in> set hs \<Longrightarrow> m_mpSocketTask s (fd_of s t) = Some t \<and> fd_of s t \<notin> polled tab (s_world s)"
    and "fd \<in> set rs \<Longrightarrow> fd \<in> dom (m_mpSocketTask s) \<and> fd \<notin> polled tab (s_world s)"
    and "(fd, b) \<in> set es \<Longrightarrow> fd \<noteq> m_iSockfd (s_pclSock s) \<Longrightarrow> fd \<in> dom (m_mpSocketTask s)"
proof -
  note places = core_facts(2,4,7,10) [OF assms]
  show "m_mpSocketTask s (fd_of s t) = Some t \<and> fd_of s t \<notin> polled tab (s_world s)" if "t \<in> set hs"
  proof -
    from that places(1) obtain sock where "s_heap s t = Some sock" by auto
    then have "m_mpSocketTask s (fd_of s t) = Some t" using core_map [OF assms] by (simp add: fd_of_def)
    with that places(2) show ?thesis by auto
  qed
  show "fd \<in> dom (m_mpSocketTask s) \<and> fd \<notin> polled tab (s_world s)" if "fd \<in> set rs" using that places(2) by auto
  show "fd \<in> dom (m_mpSocketTask s)" if "(fd, b) \<in> set es" "fd \<noteq> m_iSockfd (s_pclSock s)"
    using that places(3,4) by force
qed

lemma free_task_core:
  assumes "kernel_ok S K tab" "core_at tab s hs (m_iSockFd st # rs) es"
  shows "\<exists>s'. free_task S K st s = Some s' \<and> core_at tab s' hs rs es \<and> m_vecTaskBuf s' = m_vecTaskBuf s \<and>
    m_vecTaskStauts s' = m_vecTaskStauts s \<and>
    view_at tab s' \<in> {(dom (m_mpSocketTask s), insert (m_iSockFd st) (polled tab (s_world s))),
                  (dom (m_mpSocketTask s) - {m_iSockFd st}, polled tab (s_world s))}"
proof -
  let ?fd = "m_iSockFd st"
  from core_member(2) [OF assms(2), of ?fd] obtain t where t: "m_mpSocketTask s ?fd = Some t" "?fd \<notin> polled tab (s_world s)" by auto
  have drop: "\<exists>s'. drop_task S ?fd t u = Some s' \<and> core_at tab s' hs rs es \<and> m_vecTaskBuf s' = m_vecTaskBuf u \<and>
      m_vecTaskStauts s' = m_vecTaskStauts u \<and> view_at tab s' = (dom (m_mpSocketTask u) - {?fd}, polled tab (s_world u))"
    if "core_at tab u hs (?fd # rs) es" "m_mpSocketTask u ?fd = Some t" "?fd \<notin> polled tab (s_world u)" for u
    using drop_task_core [OF assms(1) that, of hs rs] by (auto simp: without_def)
  show ?thesis
  proof (cases "m_bStatus st")
    case True
    obtain ok s1 where e: "epoll_ctr K EPOLL_CTL_ADD ?fd s = (ok, s1)" by (metis surj_pair)
    from epoll_ctr_cases [OF assms(1) this] obtain w where w: "s1 = s\<lparr>s_world := w\<rparr>" "opened tab w = opened tab (s_world s)"
      "polled tab w = (if ok then insert ?fd (polled tab (s_world s)) else polled tab (s_world s))" by auto
    show ?thesis
    proof (cases ok)
      case ok: True
      then have "core_at tab s1 hs rs es" unfolding w(1) using w(2,3) by (intro core_rearm [OF assms(2)]) auto
      then show ?thesis using True ok e t w by (simp add: free_task_def view_def)
    next
      case False
      have "distinct (map fst es)" "fst ` set es \<subseteq> polled tab (s_world s)" using assms(2) by (simp_all add: core_def)
      with False w have "core_at tab s1 hs (?fd # rs) es" unfolding w(1) by (intro core_world [OF assms(2)]) auto
      from drop [OF this] show ?thesis using True False e t w by (auto simp: free_task_def)
    qed
  next
    case False
    then show ?thesis using drop [OF assms(2) t] t by (auto simp: free_task_def)
  qed
qed

lemma core_accept:
  assumes "core_at tab s hs rs es" "m_iSockfd sock = c" "m_bConnect sock" "0 \<le> c" "c \<notin> opened tab (s_world s)"
    "opened tab w = insert c (opened tab (s_world s))" "polled tab w = insert c (polled tab (s_world s))"
  shows "core_at tab (s\<lparr>s_world := w, s_heap := (s_heap s)(s_next s \<mapsto> sock), s_next := s_next s + 1,
    m_mpSocketTask := (m_mpSocketTask s)(c \<mapsto> s_next s)\<rparr>) hs rs es" (is "core_at tab ?s hs rs es")
proof -
  note bij = core_map [OF assms(1)] and old = core_facts [OF assms(1)]
  have new: "s_heap s (s_next s) = None"
  proof (cases "s_heap s (s_next s)")
    case (Some x)
    then show ?thesis using old(1) by blast
  qed
  have c: "c \<notin> dom (m_mpSocketTask s)" "c \<noteq> m_iSockfd (s_pclSock s)" "c \<notin> polled tab (s_world s)"
    using assms(5) old(7,8) by auto
  have t: "s_next s \<notin> set hs" using old(2) new by auto
  then have "\<forall>x \<in> set hs. fd_of ?s x = fd_of s x" by (auto simp: fd_of_def)
  then have maps: "map (fd_of ?s) hs = map (fd_of s) hs" "fd_of ?s ` set hs = fd_of s ` set hs" by auto
  have 1: "m_mpSocketTask ?s fd' = Some t' \<longleftrightarrow> (\<exists>sock. s_heap ?s t' = Some sock \<and> m_iSockfd sock = fd')" for fd' t'
    using bij [of fd' t'] bij [of c t'] c(1) new assms(2) by (cases "t' = s_next s"; cases "fd' = c") auto
  have 2: "m_bConnect x \<and> 0 \<le> m_iSockfd x \<and> t' < s_next ?s" if "s_heap ?s t' = Some x" for t' x
    using that old(1) [of t' x] assms(2-4) by (auto split: if_splits)
  have 3: "set hs \<subseteq> dom (s_heap ?s)" using old(2) by auto
  have 4: "fd_of s ` set hs \<union> set rs = dom (m_mpSocketTask ?s) - polled tab (s_world ?s)"
    using old(4) c by (auto simp: assms(7))
  have 5: "m_iSockfd (s_pclSock ?s) \<in> polled tab (s_world ?s)" "m_iSockfd (s_pclSock ?s) \<notin> dom (m_mpSocketTask ?s)"
    using old(5,6) c by (auto simp: assms(7))
  have 6: "polled tab (s_world ?s) \<subseteq> insert (m_iSockfd (s_pclSock ?s)) (dom (m_mpSocketTask ?s))"
    using old(7) by (auto simp: assms(7))
  have 7: "insert (m_iSockfd (s_pclSock ?s)) (dom (m_mpSocketTask ?s)) \<subseteq> opened tab (s_world ?s)"
    using old(8) by (auto simp: assms(6))
  have 8: "fst ` set es \<subseteq> polled tab (s_world ?s)" using old(10) by (auto simp: assms(7))
  from 1 2 3 4 5 6 7 8 old(3,9) show ?thesis unfolding core_def maps by simp
qed

text \<open>What the server's operations leave alone.\<close>

definition same_queues :: "'w server \<Rightarrow> 'w server \<Rightarrow> bool" where
  "same_queues s s' \<longleftrightarrow> m_vecTaskBuf s' = m_vecTaskBuf s \<and> m_vecTaskStauts s' = m_vecTaskStauts s"

lemma accept_event_core:
  assumes "kernel_ok S K tab" "core_at tab s hs rs es"
  shows "core_at tab (accept_event S K name s) hs rs es \<and> same_queues s (accept_event S K name s) \<and>
    (view_at tab (accept_event S K name s) = view_at tab s \<or>
     (\<exists>c. c \<notin> dom (m_mpSocketTask s) \<and> c \<notin> polled tab (s_world s) \<and>
        view_at tab (accept_event S K name s) = (insert c (dom (m_mpSocketTask s)), insert c (polled tab (s_world s)))))"
proof -
  note old = core_facts [OF assms(2)]
  obtain client w1 l where acc: "TcpAccept S (s_world s, s_pclSock s) = (client, w1, l)" by (metis surj_pair)
  have l: "l = s_pclSock s" using acc by (auto simp: TcpAccept_def Let_def split: if_splits prod.splits)
  show ?thesis
  proof (cases client)
    case None
    have w: "opened tab w1 = opened tab (s_world s) \<and> polled tab w1 = polled tab (s_world s)"
      using acc None kernel_calls(2) [OF assms(1), of "m_iSockfd (s_pclSock s)" "s_world s"]
      by (auto simp: TcpAccept_def Let_def split: if_splits prod.splits)
    then have "core_at tab (s\<lparr>s_world := w1\<rparr>) hs rs es" using old(9,10) by (intro core_world [OF assms(2)]) auto
    then show ?thesis using acc None l w by (simp add: accept_event_def same_queues_def view_def)
  next
    case (Some sock)
    define c where "c = m_iSockfd sock"
    have acc': "sys_accept S (m_iSockfd (s_pclSock s)) (s_world s) = (c, w1)" "0 \<le> c" "m_bConnect sock"
      using acc Some by (auto simp: TcpAccept_def Let_def c_def new_accepted_def split: if_splits prod.splits)
    from kernel_calls(2) [OF assms(1) acc'(1)] acc'(2) have w1: "polled tab w1 = polled tab (s_world s)" "c \<notin> opened tab (s_world s)"
      "opened tab w1 = insert c (opened tab (s_world s))" by auto
    obtain r w2 where nb: "sys_setfl_nonblock S c w1 = (r, w2)" by (metis surj_pair)
    have w2: "polled tab w2 = polled tab (s_world s)" "opened tab w2 = insert c (opened tab (s_world s))"
      using kernel_calls(3) [OF assms(1) nb] w1 by auto
    obtain ok s3 where ctr: "epoll_ctr K EPOLL_CTL_ADD c (s\<lparr>s_world := w2\<rparr>) = (ok, s3)" by (metis surj_pair)
    obtain w3 where w3: "s3 = s\<lparr>s_world := w3\<rparr>"
      "opened tab w3 = insert c (opened tab (s_world s))" "polled tab w3 = (if ok then insert c (polled tab (s_world s)) else polled tab (s_world s))"
      by (rule epoll_ctr_cases [OF assms(1) ctr]) (simp add: w2)
    obtain r' w4 where so: "sys_setsockopt S c SO_LINGER w3 = (r', w4)" by (metis surj_pair)
    have c: "c \<notin> polled tab (s_world s)" using old(7,8) w1(2) by auto
    have gone: "(polled tab) (sys_close S c w4) = polled tab (s_world s)"
      using kernel_calls(4) [OF assms(1) so] kernel_calls(5) [OF assms(1)] w3(3) c by auto
    have fresh: "c \<notin> dom (m_mpSocketTask s)" using w1(2) old(8) by auto
    have closed: "core_at tab (s\<lparr>s_world := sys_close S c w4\<rparr>) hs rs es"
      using kernel_calls(4) [OF assms(1) so] kernel_calls(5) [OF assms(1)] w3 c w1(2) old(9,10)
      by (intro core_world [OF assms(2)]) auto
    have "delete_CTcpSocket S (w3, sock) = sys_close S c w4"
      using so acc'(2) by (simp add: delete_CTcpSocket_def c_def)
    moreover have "core_at tab (s\<lparr>s_world := w3, s_heap := (s_heap s)(s_next s \<mapsto> sock), s_next := s_next s + 1,
        m_mpSocketTask := (m_mpSocketTask s)(c \<mapsto> s_next s)\<rparr>) hs rs es" if ok
      using core_accept [OF assms(2) c_def [symmetric] acc'(3,2) w1(2) w3(2)] w3(3) that by simp
    ultimately show ?thesis
      using acc Some l nb ctr w3(1,3) closed gone fresh c
      by (auto simp: accept_event_def BdxServerGetTask_def TcpSetNoblock_def TcpGetSockfd_def c_def new_task_def same_queues_def view_def)
  qed
qed

section \<open>Every step keeps the invariant\<close>

lemma mset_concat_update:
  "i < length xss \<Longrightarrow> mset (concat (xss[i := ys])) + mset (xss ! i) = mset (concat xss) + mset ys"
proof (induction xss arbitrary: i)
  case (Cons xs xss)
  then show ?case by (cases i) (auto simp: ac_simps)
qed simp

lemma queued_update:
  "i < threads s \<Longrightarrow>
   mset (queued (s\<lparr>m_vecTaskBuf := (m_vecTaskBuf s)[i := b]\<rparr>)) + mset (buf_queue s i) =
   mset (queued s) + mset (m_queUserQueryTask b)"
  using mset_concat_update [of i "map m_queUserQueryTask (m_vecTaskBuf s)" "m_queUserQueryTask b"]
  by (simp add: queued_def map_update)

lemma queued_set_lock [simp]: "queued (set_lock l i s) = queued s"
proof (cases "i < threads s")
  case True
  then have "(map m_queUserQueryTask (m_vecTaskBuf s))[i := buf_queue s i] = map m_queUserQueryTask (m_vecTaskBuf s)"
    by (metis list_update_id nth_map)
  then show ?thesis by (simp add: queued_def set_lock_def map_update)
qed (simp add: queued_def set_lock_def list_update_beyond)

lemma queued_fields [simp]:
  "queued (s\<lparr>s_world := w\<rparr>) = queued s" "queued (s\<lparr>m_vecTaskStauts := q\<rparr>) = queued s" "queued (s\<lparr>s_heap := h\<rparr>) = queued s"
  by (simp_all add: queued_def)

lemma reported_fields [simp]:
  "reported (s\<lparr>s_world := w\<rparr>) = reported s" "reported (s\<lparr>m_vecTaskBuf := b\<rparr>) = reported s" "reported (set_lock l i s) = reported s"
  by (simp_all add: reported_def set_lock_def)

lemma same_queues_places:
  "same_queues s s' \<Longrightarrow> queued s' = queued s \<and> reported s' = reported s \<and> threads s' = threads s \<and>
     length (m_vecTaskStauts s') = length (m_vecTaskStauts s)"
  by (simp add: same_queues_def queued_def reported_def)

lemma pop_status_places:
  assumes "pop_status i s = Some (st, s1)" "i < length (m_vecTaskStauts s)"
  shows "mset (reported s) = add_mset (m_iSockFd st) (mset (reported s1))" "queued s1 = queued s" "threads s1 = threads s"
    "length (m_vecTaskStauts s1) = length (m_vecTaskStauts s)" "core_at tab s1 = core_at tab s"
proof -
  obtain sts where q: "m_vecTaskStauts s ! i = st # sts" "s1 = s\<lparr>m_vecTaskStauts := (m_vecTaskStauts s)[i := sts]\<rparr>"
    using assms(1) by (auto simp: pop_status_def split: list.splits)
  have "mset (concat ((m_vecTaskStauts s)[i := sts])) + mset (st # sts) = mset (concat (m_vecTaskStauts s)) + mset sts"
    using mset_concat_update [OF assms(2), of sts] q(1) by simp
  then have "add_mset st (mset (concat ((m_vecTaskStauts s)[i := sts]))) = mset (concat (m_vecTaskStauts s))"
    by (simp add: union_mset_add_mset_right)
  then have "mset (concat (m_vecTaskStauts s)) = add_mset st (mset (concat ((m_vecTaskStauts s)[i := sts])))" by simp
  then show "mset (reported s) = add_mset (m_iSockFd st) (mset (reported s1))"
    by (simp add: reported_def q(2))
  show "queued s1 = queued s" "threads s1 = threads s" "length (m_vecTaskStauts s1) = length (m_vecTaskStauts s)"
    "core_at tab s1 = core_at tab s"
    by (simp_all add: q(2) fun_eq_iff core_fields)
qed

lemma put_try_cases:
  assumes "put_try i t s = (r, s1)" "i < threads s"
  shows "r = Some SUCCESS \<and> mset (queued s1) = add_mset t (mset (queued s)) \<and> threads s1 = threads s \<and>
      m_vecTaskStauts s1 = m_vecTaskStauts s \<and> m_mpSocketTask s1 = m_mpSocketTask s \<and> core_at tab s1 = core_at tab s \<or>
    r \<noteq> Some SUCCESS \<and> s1 = s"
proof -
  obtain iRes l where l: "MutexTryLock (buf_lock s i) = (iRes, l)" by (metis surj_pair)
  let ?b = "(m_vecTaskBuf s ! i)\<lparr>m_queUserQueryTask := buf_queue s i @ [t], m_clLock := MutexUnlock (MutexNotify l)\<rparr>"
  have "mset (queued (s\<lparr>m_vecTaskBuf := (m_vecTaskBuf s)[i := ?b]\<rparr>)) = add_mset t (mset (queued s))"
    using queued_update [OF assms(2), of ?b] by simp
  then show ?thesis
    using assms(1) l by (simp add: put_try_def Let_def split: if_splits) (auto simp: core_fields fun_eq_iff)
qed

lemma read_end_core:
  assumes "kernel_ok S K tab" "core_at tab s (t # hs) rs es" "m_mpSocketTask s fd = Some t" "r \<noteq> SUCCESS"
  shows "\<exists>s'. read_end S fd t r s = Some (False, s') \<and> core_at tab s' hs rs es \<and> same_queues s s' \<and>
    view_at tab s' = (dom (m_mpSocketTask s) - {fd}, polled tab (s_world s))"
proof -
  have "fd_of s t = fd" using assms(2,3) core_map [OF assms(2), of fd t] by (auto simp: fd_of_def)
  moreover have "fd \<notin> polled tab (s_world s)" using core_member(1) [OF assms(2), of t] calculation by simp
  ultimately obtain w where "drop_task S fd t s = Some (without fd t w s)" "core_at tab (without fd t w s) hs rs es"
    "view_at tab (without fd t w s) = (dom (m_mpSocketTask s) - {fd}, polled tab (s_world s))"
    using drop_task_core [OF assms(1-3), of hs rs] by auto
  then show ?thesis using assms(4) by (auto simp: read_end_def same_queues_def without_def)
qed

lemma owned_core: "owned_at tab (s, pc, ws) \<Longrightarrow> core_at tab s (putting pc @ queued s @ running ws) (reported s) (pending pc)"
  by (simp add: owned_def held_def)

text \<open>What is known at the two places where the server holds something: a report, or a task to hand over.\<close>

lemma popped_core:
  assumes "pop_status i s = Some (st, s1)" "i < threads s" "owned_at tab (s, FREEING j, ws)"
  shows "core_at tab s1 (queued s @ running ws) (m_iSockFd st # reported s1) []"
proof -
  have "i < length (m_vecTaskStauts s)" using assms(2,3) by (simp add: owned_def)
  note pop = pop_status_places [OF assms(1) this]
  show ?thesis unfolding pop(5) using owned_core [OF assms(3)] pop(1) by (auto intro: core_perm)
qed

lemma putting_core:
  assumes "owned_at tab (s, PUTTING fd t i es, ws)"
  shows "core_at tab s (t # queued s @ running ws) (reported s) es" "m_mpSocketTask s fd = Some t"
  using assms by (simp_all add: owned_def held_def)

lemma free_owned:
  assumes "kernel_ok S K tab" "i < threads s" "pop_status i s = Some (st, s1)" "free_task S K st s1 = Some s2"
    "owned_at tab (s, FREEING i, ws)"
  shows "owned_at tab (s2, FREEING i, ws)"
proof -
  have "i < length (m_vecTaskStauts s)" using assms(2,5) by (simp add: owned_def)
  note pop = pop_status_places [OF assms(3) this]
  from free_task_core [OF assms(1) popped_core [OF assms(3,2,5)]] assms(4) have
    "core_at tab s2 (queued s @ running ws) (reported s1) []" "m_vecTaskBuf s2 = m_vecTaskBuf s1" "m_vecTaskStauts s2 = m_vecTaskStauts s1"
    by auto
  with assms(5) pop show ?thesis by (simp add: owned_def held_def queued_def reported_def)
qed

lemma refused_owned:
  assumes "kernel_ok S K tab" "owned_at tab (s, PUTTING fd t i es, ws)" "read_end S fd t r s = Some (b, s1)" "r \<noteq> SUCCESS"
  shows "owned_at tab (s1, EVENTS es, ws)"
proof -
  from read_end_core [OF assms(1) putting_core [OF assms(2)] assms(4)] assms(3)
  have "core_at tab s1 (queued s @ running ws) (reported s) es" "same_queues s s1" by auto
  with assms(2) same_queues_places [of s s1] show ?thesis by (simp add: owned_def held_def)
qed

lemma put_owned:
  assumes "kernel_ok S K tab" "i < threads s" "put_try i t s = (Some r, s1)" "read_end S fd t r s1 = Some (b, s2)"
    "owned_at tab (s, PUTTING fd t i es, ws)"
  shows "owned_at tab (s2, EVENTS es, ws)"
proof (cases "r = SUCCESS")
  case True
  then have p: "mset (queued s1) = add_mset t (mset (queued s))" "threads s1 = threads s" "m_vecTaskStauts s1 = m_vecTaskStauts s"
    "core_at tab s1 = core_at tab s" "s2 = s1"
    using put_try_cases [OF assms(3,2), of tab] assms(4) by (auto simp: read_end_def)
  have "core_at tab s1 (queued s1 @ running ws) (reported s) es"
    unfolding p(4) using p(1) by (intro core_perm [OF putting_core(1) [OF assms(5)]]) auto
  with assms(5) p show ?thesis by (simp add: owned_def held_def reported_def)
next
  case False
  then have "s1 = s" using put_try_cases [OF assms(3,2), of tab] by auto
  with refused_owned [OF assms(1,5) _ False] assms(4) show ?thesis by simp
qed

lemma server_step_owned:
  assumes "kernel_ok S K tab"
  shows "server_step S K name (s, pc) (s', pc') \<Longrightarrow> owned_at tab (s, pc, ws) \<Longrightarrow> owned_at tab (s', pc', ws)"
proof (induction "(s, pc)" "(s', pc')" arbitrary: s pc s' pc' rule: server_step.induct)
  case (free_one i s st s1 s2)
  then show ?case by (blast intro: free_owned [OF assms])
next
  case (free_next i s)
  then show ?case by (simp add: owned_def held_def)
next
  case (free_end i s)
  then show ?case by (simp add: owned_def held_def)
next
  case (poll s es w)
  then have "opened tab w = opened tab (s_world s) \<and> polled tab w = polled tab (s_world s) \<and> distinct (map fst es) \<and> fst ` set es \<subseteq> polled tab (s_world s)"
    using kernel_epoll(3) [OF assms] by (simp add: BdxEpollWait_def)
  then have "core_at tab (s\<lparr>s_world := w\<rparr>) (queued s @ running ws) (reported s) es"
    using owned_core [OF poll(2)] by (intro core_world) auto
  with poll(2) show ?case by (simp add: owned_def held_def)
next
  case (accepting fd s b es)
  from core_event [OF owned_core [OF accepting(2), simplified]]
  have "core_at tab s (queued s @ running ws) (reported s) es" by simp
  from accept_event_core [OF assms this, of name] accepting(2) same_queues_places [of s "accept_event S K name s"]
  show ?case by (simp add: owned_def held_def)
next
  case (other_event fd s es)
  then show ?case using core_event by (fastforce simp: owned_def held_def)
next
  case (unknown fd s es)
  then show ?case using core_member(3) [OF owned_core [OF unknown(3)], of fd True] by (auto simp: TcpGetSockfd_def)
next
  case (readable fd s t ok s1 es)
  obtain w where w: "s1 = s\<lparr>s_world := w\<rparr>" "opened tab w = opened tab (s_world s)" "polled tab w = polled tab (s_world s) - {fd}"
    by (rule epoll_ctr_cases [OF assms readable(3)]) auto
  have "core_at tab s (queued s @ running ws) (reported s) ((fd, True) # es)" using owned_core [OF readable(4)] by simp
  then have "core_at tab s1 (t # queued s @ running ws) (reported s) es"
    unfolding w(1) using readable(1,2) w(2,3) by (intro core_readable) (auto simp: TcpGetSockfd_def)
  with readable(2,4) show ?case by (simp add: owned_def held_def w(1))
next
  case (put_busy i s t s1 fd es)
  then show ?case using put_try_cases [OF put_busy(2,1)] by (auto simp: owned_def held_def)
next
  case (put_done i s t r s1 fd b s2 es)
  then show ?case by (blast intro: put_owned [OF assms])
next
  case (put_none i s fd t b s1 es)
  then show ?case using refused_owned [OF assms put_none(3,2)] by simp
next
  case (next_round s)
  then show ?case by (simp add: owned_def held_def)
qed

lemma running_update:
  "i < length ws \<Longrightarrow> mset (running (ws[i := p])) + mset (running [ws ! i]) = mset (running ws) + mset (running [p])"
  using mset_concat_update [of i "map (\<lambda>p. case p of RUNNING t \<Rightarrow> [t] | _ \<Rightarrow> []) ws"]
  by (simp add: running_def map_update)

lemma running_idle:
  assumes "i < length ws" "running [ws ! i] = []" "running [p] = []"
  shows "mset (running (ws[i := p])) = mset (running ws)"
  using running_update [OF assms(1), of p] assms(2,3) by simp

lemma owned_idle:
  assumes "owned_at tab (s, pc, ws)" "i < length ws" "running [ws ! i] = []" "running [p] = []"
  shows "owned_at tab (set_lock l i s, pc, ws[i := p])" "owned_at tab (s, pc, ws[i := p])"
proof -
  have "core_at tab s (putting pc @ queued s @ running (ws[i := p])) (reported s) (pending pc)"
    using running_idle [OF assms(2-4)] by (intro core_perm [OF owned_core [OF assms(1)]]) auto
  with assms(1) show "owned_at tab (set_lock l i s, pc, ws[i := p])" "owned_at tab (s, pc, ws[i := p])"
    unfolding owned_def held_def by (simp_all add: set_lock_def [of l i s] core_fields queued_set_lock [unfolded set_lock_def] split: server_pc.splits)
qed

lemma worker_report_places:
  assumes "worker_report i t iRes sock' w s = Some s'" "i < length (m_vecTaskStauts s)"
  shows "mset (reported s') = add_mset (m_iSockfd sock') (mset (reported s))" "queued s' = queued s" "threads s' = threads s"
    "length (m_vecTaskStauts s') = length (m_vecTaskStauts s)" "m_mpSocketTask s' = m_mpSocketTask s"
    "core_at tab s' = core_at tab (s\<lparr>s_world := w, s_heap := (s_heap s)(t \<mapsto> sock')\<rparr>)"
    "view_at tab s' = (dom (m_mpSocketTask s), polled tab w)"
proof -
  let ?st = "\<lparr>m_iSockFd = m_iSockfd sock', m_bStatus = (iRes = SUCCESS)\<rparr>"
  let ?s = "s\<lparr>s_world := w, s_heap := (s_heap s)(t \<mapsto> sock')\<rparr>"
  let ?q = "(m_vecTaskStauts s)[i := m_vecTaskStauts s ! i @ [?st]]"
  have s': "s' = set_lock (MutexNotify (MutexUnlock (buf_lock s i))) i (?s\<lparr>m_vecTaskStauts := ?q\<rparr>)"
    using assms(1) by (simp add: worker_report_def TcpGetSockfd_def split: option.splits)
  have "mset (concat ?q) = add_mset ?st (mset (concat (m_vecTaskStauts s)))"
    using mset_concat_update [OF assms(2), of "m_vecTaskStauts s ! i @ [?st]"] by simp
  then show "mset (reported s') = add_mset (m_iSockfd sock') (mset (reported s))"
    unfolding s' reported_def set_lock_def by simp
  show "queued s' = queued s" unfolding s' by simp
  show "threads s' = threads s" "length (m_vecTaskStauts s') = length (m_vecTaskStauts s)" "m_mpSocketTask s' = m_mpSocketTask s"
    unfolding s' set_lock_def by simp_all
  show "view_at tab s' = (dom (m_mpSocketTask s), polled tab w)" unfolding s' set_lock_def view_def by simp
  show "core_at tab s' = core_at tab ?s" unfolding s' by (simp add: fun_eq_iff core_fields)
qed

lemma worker_step_owned:
  assumes "runs_ok runs tab" "worker_step runs i (s, ws ! i) (s', p)" "i < length ws" "owned_at tab (s, pc, ws)"
  shows "owned_at tab (s', pc, ws[i := p])"
  using assms(2)
proof cases
  case (locking)
  then show ?thesis using owned_idle(1) [OF assms(4,3)] by (auto simp: worker_lock_def running_def)
next
  case (waiting)
  then show ?thesis using owned_idle(1) [OF assms(4,3)] by (auto simp: worker_wait_def running_def split: if_splits)
next
  case (spurious)
  then show ?thesis using owned_idle(1) [OF assms(4,3)] by (auto simp: running_def)
next
  case (signalled)
  then show ?thesis using owned_idle(2) [OF assms(4,3)] by (auto simp: running_def)
next
  case (taking t)
  have i: "i < threads s" using assms(3,4) by (simp add: owned_def)
  obtain ts where q: "buf_queue s i = t # ts"
    "s' = s\<lparr>m_vecTaskBuf := (m_vecTaskBuf s)[i := (m_vecTaskBuf s ! i)\<lparr>m_queUserQueryTask := ts\<rparr>]\<rparr>"
    using taking(3) by (auto simp: worker_take_def split: list.splits)
  have "add_mset t (mset (queued s')) = mset (queued s)"
    using queued_update [OF i, of "(m_vecTaskBuf s ! i)\<lparr>m_queUserQueryTask := ts\<rparr>"] q by simp
  moreover have "mset (running (ws[i := p])) = add_mset t (mset (running ws))"
    using running_update [OF assms(3), of p] taking(1,2) by (simp add: running_def)
  ultimately have "core_at tab s (putting pc @ queued s' @ running (ws[i := p])) (reported s) (pending pc)"
    by (intro core_perm [OF owned_core [OF assms(4)]]) auto
  with assms(4) show ?thesis by (simp add: owned_def held_def q(2) core_fields split: server_pc.splits)
next
  case (reporting t sock iRes sock' w)
  have i: "i < length (m_vecTaskStauts s)" using assms(3,4) by (simp add: owned_def)
  have run: "m_iSockfd sock' = m_iSockfd sock" "m_bConnect sock' = m_bConnect sock"
      "opened tab (s_world s) \<subseteq> opened tab w" "polled tab w = polled tab (s_world s)"
    using runs_calls [OF assms(1) reporting(4)] by simp_all
  note places = worker_report_places [OF reporting(5) i]
  have "mset (running ws) = add_mset t (mset (running (ws[i := p])))"
    using running_update [OF assms(3), of p] reporting(1,2) by (simp add: running_def)
  then have "core_at tab s (t # putting pc @ queued s @ running (ws[i := p])) (reported s) (pending pc)"
    by (intro core_perm [OF owned_core [OF assms(4)]]) auto
  from core_report [OF this reporting(3) run]
  have "core_at tab s' (putting pc @ queued s @ running (ws[i := p])) (reported s') (pending pc)"
    unfolding places(6) by (rule core_perm) (simp_all add: places(1))
  with assms(4) places(2-5) show ?thesis by (simp add: owned_def held_def split: server_pc.splits)
qed

section \<open>Locks\<close>

text \<open>
  A queue is locked exactly while its thread is between the lock and the unlock; a thread sleeps in
  \<open>MutexWait\<close> only while its queue is empty.
\<close>

definition lock_inv :: "'w server \<Rightarrow> worker_pc list \<Rightarrow> bool" where
  "lock_inv s ws \<longleftrightarrow> length ws = threads s \<and>
     (\<forall>i < threads s. lock_ok (buf_lock s i) \<and> (lock_held (buf_lock s i) \<longleftrightarrow> ws ! i \<notin> {AT_LOCK, IN_WAIT}) \<and>
        (m_stCond (buf_lock s i) \<noteq> 0 \<longrightarrow> m_stCond (buf_lock s i) = 1 \<and> ws ! i = IN_WAIT \<and> buf_queue s i = []))"

lemma lock_inv_same: "m_vecTaskBuf s' = m_vecTaskBuf s \<Longrightarrow> lock_inv s' ws = lock_inv s ws"
  by (simp add: lock_inv_def)

lemma lock_inv_update:
  assumes "lock_inv s ws" "i < threads s" "m_vecTaskBuf s' = (m_vecTaskBuf s)[i := b]"
    "lock_ok (m_clLock b)" "lock_held (m_clLock b) \<longleftrightarrow> p \<notin> {AT_LOCK, IN_WAIT}"
    "m_stCond (m_clLock b) \<noteq> 0 \<Longrightarrow> m_stCond (m_clLock b) = 1 \<and> p = IN_WAIT \<and> m_queUserQueryTask b = []"
  shows "lock_inv s' (ws[i := p])"
  using assms by (auto simp: lock_inv_def nth_list_update)

lemma put_try_lock_inv:
  assumes "put_try i t s = (r, s1)" "i < threads s" "lock_inv s ws"
  shows "lock_inv s1 ws"
proof -
  obtain iRes l where l: "MutexTryLock (buf_lock s i) = (iRes, l)" by (metis surj_pair)
  from assms(2,3) have ok: "lock_ok (buf_lock s i)" "lock_held (buf_lock s i) \<longleftrightarrow> ws ! i \<notin> {AT_LOCK, IN_WAIT}"
    "m_stCond (buf_lock s i) \<le> 1" by (auto simp: lock_inv_def)
  let ?b = "(m_vecTaskBuf s ! i)\<lparr>m_queUserQueryTask := buf_queue s i @ [t], m_clLock := MutexUnlock (MutexNotify l)\<rparr>"
  show ?thesis
  proof (cases "iRes = 0")
    case True
    then have s1: "m_vecTaskBuf s1 = (m_vecTaskBuf s)[i := ?b]" using assms(1) l by (auto simp: put_try_def Let_def)
    have "lock_ok l" "\<not> lock_held (buf_lock s i)" using mutex.try_excludes [OF ok(1)] l True by auto
    moreover have "m_stCond l = m_stCond (buf_lock s i)" by (rule lock_try_cond [OF l])
    ultimately have "lock_inv s1 (ws[i := ws ! i])"
      using ok(2,3) by (intro lock_inv_update [OF assms(3,2) s1]) auto
    then show ?thesis by simp
  next
    case False
    then show ?thesis using assms(1,3) l by (auto simp: put_try_def Let_def split: if_splits)
  qed
qed

lemma server_keeps_bufs:
  "free_task S K st s = Some s' \<Longrightarrow> m_vecTaskBuf s' = m_vecTaskBuf s"
  "read_end S fd t r s = Some (b, s') \<Longrightarrow> m_vecTaskBuf s' = m_vecTaskBuf s"
  "epoll_ctr K v fd s = (ok, s') \<Longrightarrow> m_vecTaskBuf s' = m_vecTaskBuf s"
  "m_vecTaskBuf (accept_event S K name s) = m_vecTaskBuf s"
  by (auto simp: free_task_def read_end_def epoll_ctr_def drop_task_def delete_task_def accept_event_def BdxServerGetTask_def
      new_task_def Let_def split: option.splits if_splits prod.splits)

lemma server_step_lock_inv:
  "server_step S K name (s, pc) (s', pc') \<Longrightarrow> lock_inv s ws \<Longrightarrow> lock_inv s' ws"
proof (induction "(s, pc)" "(s', pc')" rule: server_step.induct)
  case (free_one i st s1)
  then have "m_vecTaskBuf s1 = m_vecTaskBuf s" by (auto simp: pop_status_def split: list.splits)
  with free_one show ?case using server_keeps_bufs(1) [OF free_one(3)] lock_inv_same [of s' s] by simp
next
  case (put_busy i t fd es)
  then show ?case using put_try_lock_inv by blast
next
  case (put_done i t r s1 fd b es)
  then show ?case using put_try_lock_inv [OF put_done(2,1)] server_keeps_bufs(2) [OF put_done(3)] lock_inv_same [of s' s1] by simp
next
  case (put_none i fd t b es)
  then show ?case using server_keeps_bufs(2) [OF put_none(2)] lock_inv_same [of s' s] by simp
next
  case (readable fd t ok es)
  then show ?case using server_keeps_bufs(3) [OF readable(3)] lock_inv_same [of s' s] by simp
next
  case (poll es w)
  then have "m_vecTaskBuf s' = m_vecTaskBuf s" by auto
  with poll lock_inv_same show ?case by blast
next
  case (accepting fd b es)
  then have "m_vecTaskBuf s' = m_vecTaskBuf s" using server_keeps_bufs(4) by auto
  with accepting lock_inv_same show ?case by blast
next
  case (unknown fd es)
  then have "m_vecTaskBuf s' = m_vecTaskBuf s" by auto
  with unknown lock_inv_same show ?case by blast
qed simp_all

lemma worker_step_lock_inv:
  assumes "worker_step runs i (s, ws ! i) (s', p)" "i < length ws" "lock_inv s ws"
  shows "lock_inv s' (ws[i := p])"
proof -
  have i: "i < threads s" using assms(2,3) by (simp add: lock_inv_def)
  have ok: "lock_ok (buf_lock s i)" "lock_held (buf_lock s i) \<longleftrightarrow> ws ! i \<notin> {AT_LOCK, IN_WAIT}"
    "m_stCond (buf_lock s i) \<noteq> 0 \<longrightarrow> m_stCond (buf_lock s i) = 1 \<and> ws ! i = IN_WAIT \<and> buf_queue s i = []"
    using i assms(3) by (auto simp: lock_inv_def)
  note upd = lock_inv_update [OF assms(3) i]
  from assms(1) show ?thesis
  proof cases
    case locking
    then obtain l where l: "MutexLock (buf_lock s i) = Some l" "s' = set_lock l i s" by (auto simp: worker_lock_def)
    then have b: "m_vecTaskBuf s' = (m_vecTaskBuf s)[i := (m_vecTaskBuf s ! i)\<lparr>m_clLock := l\<rparr>]" by (simp add: set_lock_def)
    show ?thesis
      using mutex.acquire_excludes [OF ok(1) l(1)] lock_acquire_cond [OF l(1)] ok(3) locking(1,2) by (intro upd [OF b]) auto
  next
    case waiting
    let ?l = "MutexWait (buf_lock s i)"
    have q: "buf_queue s i = []" "m_vecTaskBuf s' = (m_vecTaskBuf s)[i := (m_vecTaskBuf s ! i)\<lparr>m_clLock := ?l\<rparr>]"
      using waiting(3) by (auto simp: worker_wait_def set_lock_def split: if_splits)
    have "m_stCond (buf_lock s i) = 0" using ok(3) waiting(1) by auto
    then show ?thesis using ok(1) q(1) waiting(2) by (intro upd [OF q(2)]) auto
  next
    case spurious
    have b: "m_vecTaskBuf s' = (m_vecTaskBuf s)[i := (m_vecTaskBuf s ! i)\<lparr>m_clLock := MutexNotify (buf_lock s i)\<rparr>]"
      using spurious by (simp add: set_lock_def)
    show ?thesis using ok spurious by (intro upd [OF b]) auto
  next
    case signalled
    have b: "m_vecTaskBuf s' = (m_vecTaskBuf s)[i := m_vecTaskBuf s ! i]" using signalled by simp
    show ?thesis using ok signalled by (intro upd [OF b]) auto
  next
    case (taking t)
    then obtain ts where b: "m_vecTaskBuf s' = (m_vecTaskBuf s)[i := (m_vecTaskBuf s ! i)\<lparr>m_queUserQueryTask := ts\<rparr>]"
      by (auto simp: worker_take_def split: list.splits)
    show ?thesis using ok taking(1,2) by (intro upd [OF b]) auto
  next
    case (reporting t sock iRes sock' w)
    let ?l = "MutexNotify (MutexUnlock (buf_lock s i))"
    have b: "m_vecTaskBuf s' = (m_vecTaskBuf s)[i := (m_vecTaskBuf s ! i)\<lparr>m_clLock := ?l\<rparr>]"
      using reporting(5) by (auto simp: worker_report_def set_lock_def split: option.splits)
    show ?thesis using ok reporting(1,2) by (intro upd [OF b]) auto
  qed
qed

section \<open>Reachable states\<close>

lemma sched_init_owned:
  assumes "kernel_ok S K tab" "startup_ok S K tab" "sched_init S K srv n w = Some (s, pc, ws)"
  shows "owned_at tab (s, pc, ws)" "lock_inv s ws"
proof -
  let ?bufs = "replicate n \<lparr>m_queUserQueryTask = [], m_clLock = new_CMutexLock\<rparr>"
  from assms(3) have new: "new_CUserQueryServer S K srv ?bufs (replicate n []) w = Some s" and pc: "pc = FREEING 0" "ws = replicate n AT_LOCK"
    by (auto simp: sched_init_def)
  obtain e w1 where e: "epoll_create K w = (e, w1)" by (metis surj_pair)
  obtain l w2 where l: "sys_socket S w1 = (l, w2)" by (metis surj_pair)
  let ?sock = "\<lparr>m_iSockfd = l, m_in_portPort = m_uiPort srv, m_strIp = m_pchIp srv, m_uiTimeout = 300000,
    m_bConnect = False, m_ssl = None, m_ssl_ctx = None\<rparr>"
  let ?s = "\<lambda>w. \<lparr>s_world = w, s_heap = Map.empty, s_next = 0, m_vecTaskBuf = ?bufs, m_vecTaskStauts = replicate n [],
    m_mpSocketTask = Map.empty, s_pclSock = ?sock, m_clEpoll = e\<rparr>"
  from new e l have l1: "l \<noteq> -1" and init: "BdxInitServer S K (?s w2) = (True, s)"
    by (auto simp: new_CUserQueryServer_def BdxEpollInit_def new_CTcpSocket_def Let_def split: if_splits prod.splits)
  from init obtain w5 where ctr: "epoll_ctr K EPOLL_CTL_ADD l (?s w5) = (True, s)" and
    w5: "\<exists>w3 w4 r r' r''. sys_bind S l (if m_pchIp srv = [] then None else Some (m_pchIp srv)) (m_uiPort srv) w2 = (r, w3) \<and>
      sys_listen S l 1 w3 = (r', w4) \<and> sys_setfl_nonblock S l w4 = (r'', w5)"
    by (auto simp: BdxInitServer_def TcpBind_def TcpListen_def TcpSetNoblock_def TcpGetSockfd_def Let_def split: if_splits prod.splits)
  have "polled tab w1 = {}" using assms(2) e unfolding startup_ok_def by blast
  then have w2: "polled tab w2 = {}" "l \<in> opened tab w2"
    using tracks_fds_socket [OF kernel_calls(1) [OF assms(1)] l] l1 table_changes(2) [of tab w1 l w2] by auto
  from w5 have w5: "opened tab w5 = opened tab w2" "polled tab w5 = {}"
    using assms(2) kernel_calls(3) [OF assms(1)] w2 unfolding startup_ok_def by (metis table_changes(1))+
  obtain w6 where w6: "s = ?s w6" "opened tab w6 = opened tab w2" "polled tab w6 = {l}"
    by (rule epoll_ctr_cases [OF assms(1) ctr]) (simp add: w5)
  have "core_at tab s [] [] []" using w2(2) w6 by (simp add: core_def w6(1))
  then show "owned_at tab (s, pc, ws)"
    by (simp add: owned_def held_def w6(1) pc queued_def reported_def running_def)
  show "lock_inv s ws" by (simp add: lock_inv_def w6(1) pc)
qed

lemma sched_step_inv:
  assumes "kernel_ok S K tab" "runs_ok runs tab" "sched_step S K name runs (s, pc, ws) (s', pc', ws')"
    "owned_at tab (s, pc, ws)" "lock_inv s ws"
  shows "owned_at tab (s', pc', ws') \<and> lock_inv s' ws'"
  using assms(3)
proof cases
  case by_server
  then show ?thesis using server_step_owned [OF assms(1)] server_step_lock_inv assms(4,5) by blast
next
  case (by_worker i p)
  then show ?thesis using worker_step_owned [OF assms(2)] worker_step_lock_inv assms(4,5) by blast
qed

lemma reachable_inv:
  assumes "reachable S K name runs a b" "kernel_ok S K tab" "startup_ok S K tab" "runs_ok runs tab"
    "sched_init S K srv n w = Some a"
  shows "owned_at tab b \<and> lock_inv (fst b) (snd (snd b))"
  using assms(1)
proof induction
  case start
  then show ?case using sched_init_owned [OF assms(2,3), of srv n w "fst a" "fst (snd a)" "snd (snd a)"] assms(5) by simp
next
  case (later b c)
  then show ?case
    using sched_step_inv [OF assms(2,4), of name "fst b" "fst (snd b)" "snd (snd b)" "fst c" "fst (snd c)" "snd (snd c)"] by simp
qed

section \<open>Progress\<close>

lemma freeing_enabled:
  assumes "kernel_ok S K tab" "owned_at tab (s, FREEING i, ws)"
  shows "\<exists>s' pc'. server_step S K name (s, FREEING i) (s', pc')"
proof (cases "i < threads s")
  case True
  show ?thesis
  proof (cases "pop_status i s")
    case None
    then show ?thesis using True server_step.free_next by blast
  next
    case (Some x)
    obtain st s1 where x: "pop_status i s = Some (st, s1)" using Some by (cases x) auto
    from free_task_core [OF assms(1) popped_core [OF x True assms(2)]] obtain s2 where "free_task S K st s1 = Some s2" by blast
    then show ?thesis using True x server_step.free_one by blast
  qed
next
  case False
  then show ?thesis using server_step.free_end by blast
qed

lemma event_enabled: "\<exists>s' pc'. server_step S K name (s, EVENTS es) (s', pc')"
proof (cases es)
  case Nil
  then show ?thesis using server_step.next_round by blast
next
  case (Cons e es')
  obtain fd b where e: "e = (fd, b)" by (cases e)
  obtain ok s1 where ctr: "epoll_ctr K EPOLL_CTL_DEL fd s = (ok, s1)" by (metis surj_pair)
  show ?thesis
    using Cons e ctr server_step.accepting [of fd s S K name b es'] server_step.other_event [of fd s S K name es']
      server_step.unknown [of fd s S K name es'] server_step.readable [of fd s _ K ok s1 S name es']
    by (cases "fd = TcpGetSockfd (s_pclSock s)"; cases b; cases "m_mpSocketTask s fd") auto
qed

lemma putting_enabled:
  assumes "kernel_ok S K tab" "owned_at tab (s, PUTTING fd t i es, ws)"
  shows "\<exists>s' pc'. server_step S K name (s, PUTTING fd t i es) (s', pc')"
proof -
  have fails: "\<exists>b s'. read_end S fd t r s = Some (b, s')" if "r \<noteq> SUCCESS" for r
    using read_end_core [OF assms(1) putting_core [OF assms(2)] that] by blast
  obtain r s1 where p: "put_try i t s = (r, s1)" by (metis surj_pair)
  show ?thesis
  proof (cases "i < threads s")
    case True
    show ?thesis
    proof (cases r)
      case None
      then show ?thesis using True p server_step.put_busy by blast
    next
      case (Some r')
      have "\<exists>b s2. read_end S fd t r' s1 = Some (b, s2)"
        using put_try_cases [OF p True, of tab] Some fails [of r'] by (cases "r' = SUCCESS") (auto simp: read_end_def)
      then show ?thesis using True p Some server_step.put_done by blast
    qed
  next
    case False
    obtain b s' where "read_end S fd t NOFREE_THREAD s = Some (b, s')" using fails [of NOFREE_THREAD] by auto
    from server_step.put_none [OF False this] show ?thesis by blast
  qed
qed

lemma server_step_enabled:
  assumes "kernel_ok S K tab" "owned_at tab (s, pc, ws)"
  shows "\<exists>s' pc'. server_step S K name (s, pc) (s', pc')"
proof (cases pc)
  case WAITING
  obtain es w where "BdxEpollWait K (m_clEpoll s) 5 (s_world s) = (es, w)" by (metis surj_pair)
  from server_step.poll [OF this] WAITING show ?thesis by blast
next
  case (FREEING i)
  with freeing_enabled [OF assms(1)] assms(2) show ?thesis by simp
next
  case (EVENTS es)
  with event_enabled show ?thesis by simp
next
  case (PUTTING fd t i es)
  with putting_enabled [OF assms(1)] assms(2) show ?thesis by simp
qed

text \<open>One thread, scheduled alone, from the head of its loop through its whole queue.\<close>

lemma reachable_trans:
  "reachable S K name runs b c \<Longrightarrow> reachable S K name runs a b \<Longrightarrow> reachable S K name runs a c"
  by (induction rule: reachable.induct) (auto intro: reachable.later)

lemma worker_reaches:
  assumes "worker_step runs i (s, ws ! i) (s', p)" "i < length ws"
  shows "reachable S K name runs (s, pc, ws) (s', pc, ws[i := p])"
  using sched_step.by_worker [OF assms(2,1)] by (intro reachable.later [OF reachable.start])

fun worker_rank :: "worker_pc \<Rightarrow> nat" where
  "worker_rank IN_LOCK = 1"
| "worker_rank AT_LOCK = 2"
| "worker_rank p = 3"

lemma running_member: "i < length ws \<Longrightarrow> ws ! i = RUNNING t \<Longrightarrow> t \<in> set (running ws)"
  unfolding running_def by (force simp: in_set_conv_nth)

text \<open>The next step of a thread that has something to do.\<close>

lemma worker_next:
  assumes "\<forall>sock w. \<exists>r sock' w'. runs sock w r sock' w'" "owned_at tab (s, pc, ws)" "lock_inv s ws" "i < threads s"
    "t \<in> set (buf_queue s i) \<or> ws ! i = RUNNING t"
  shows "\<exists>s' p. worker_step runs i (s, ws ! i) (s', p) \<and>
    4 * length (buf_queue s' i) + worker_rank p < 4 * length (buf_queue s i) + worker_rank (ws ! i) \<and>
    (t \<in> set (buf_queue s' i) \<or> p = RUNNING t \<or>
     (\<exists>sock' b. (\<exists>sock w r w'. s_heap s t = Some sock \<and> runs sock w r sock' w') \<and>
        \<lparr>m_iSockFd = m_iSockfd sock', m_bStatus = b\<rparr> \<in> set (m_vecTaskStauts s' ! i)))"
proof (cases "ws ! i")
  case AT_LOCK
  then have "lock_ok (buf_lock s i)" "\<not> lock_held (buf_lock s i)" using assms(3,4) by (auto simp: lock_inv_def)
  then obtain l where l: "MutexLock (buf_lock s i) = Some l" using mutex.acquire_free by blast
  then have "worker_step runs i (s, AT_LOCK) (set_lock l i s, IN_LOCK)" by (intro worker_step.locking) (simp add: worker_lock_def)
  moreover have "buf_queue (set_lock l i s) i = buf_queue s i" using assms(4) by (simp add: set_lock_def)
  ultimately show ?thesis using AT_LOCK assms(5) by fastforce
next
  case IN_LOCK
  then obtain t' ts where q: "buf_queue s i = t' # ts" using assms(5) by (cases "buf_queue s i") auto
  let ?s = "s\<lparr>m_vecTaskBuf := (m_vecTaskBuf s)[i := (m_vecTaskBuf s ! i)\<lparr>m_queUserQueryTask := ts\<rparr>]\<rparr>"
  have "worker_step runs i (s, IN_LOCK) (?s, RUNNING t')" using q by (intro worker_step.taking) (simp add: worker_take_def)
  moreover have "buf_queue ?s i = ts" using assms(4) by simp
  ultimately show ?thesis using IN_LOCK assms(5) q by (intro exI [of _ ?s] exI [of _ "RUNNING t'"]) auto
next
  case IN_WAIT
  then have "m_stCond (buf_lock s i) = 0" using assms(3-5) by (auto simp: lock_inv_def)
  then show ?thesis using worker_step.signalled [of s i runs] IN_WAIT assms(5) by fastforce
next
  case (RUNNING t')
  have "t' \<in> set (held (s, pc, ws))" using RUNNING assms(2,4) running_member [of i ws t'] by (simp add: held_def owned_def)
  moreover have "core_at tab s (held (s, pc, ws)) (reported s) (pending pc)" using assms(2) by (simp add: owned_def)
  ultimately obtain sock where sock: "s_heap s t' = Some sock" using core_facts(2) by blast
  obtain r sock' w' where run: "runs sock (s_world s) r sock' w'" using assms(1) by blast
  obtain s' where rep: "worker_report i t' r sock' w' s = Some s'" using sock by (simp add: worker_report_def)
  have "i < length (m_vecTaskStauts s)" using assms(2,4) by (simp add: owned_def)
  then have st: "\<lparr>m_iSockFd = m_iSockfd sock', m_bStatus = (r = SUCCESS)\<rparr> \<in> set (m_vecTaskStauts s' ! i)"
    "buf_queue s' i = buf_queue s i"
    using rep sock assms(4) by (auto simp: worker_report_def set_lock_def TcpGetSockfd_def)
  show ?thesis
    using worker_step.reporting [of s t' sock runs r sock' w' i s', OF sock run rep] RUNNING assms(5) sock run st
    by (intro exI [of _ s'] exI [of _ AT_LOCK]) fastforce
qed

lemma worker_keeps_fd:
  assumes "runs_ok runs tab" "worker_step runs i (s, p) (s', p')"
  shows "fd_of s' t = fd_of s t"
  using assms(2)
proof cases
  case (reporting t' sock iRes sock' w)
  then show ?thesis
    using runs_calls [OF assms(1) reporting(4)]
    by (auto simp: worker_report_def set_lock_def fd_of_def)
qed (auto simp: worker_lock_def worker_wait_def worker_take_def set_lock_def split: if_splits list.splits)

lemma worker_serves:
  assumes "kernel_ok S K tab" "runs_ok runs tab" "\<forall>sock w. \<exists>r sock' w'. runs sock w r sock' w'"
  shows "owned_at tab (s, pc, ws) \<Longrightarrow> lock_inv s ws \<Longrightarrow> i < threads s \<Longrightarrow>
    t \<in> set (buf_queue s i) \<or> ws ! i = RUNNING t \<Longrightarrow>
    \<exists>s' p b. reachable S K name runs (s, pc, ws) (s', pc, ws[i := p]) \<and>
      \<lparr>m_iSockFd = fd_of s t, m_bStatus = b\<rparr> \<in> set (m_vecTaskStauts s' ! i)"
proof (induction "4 * length (buf_queue s i) + worker_rank (ws ! i)" arbitrary: s ws rule: less_induct)
  case less
  have i: "i < length ws" using less.prems(1,3) by (simp add: owned_def)
  from worker_next [OF assms(3) less.prems] obtain s' p where step: "worker_step runs i (s, ws ! i) (s', p)"
    and rank: "4 * length (buf_queue s' i) + worker_rank p < 4 * length (buf_queue s i) + worker_rank (ws ! i)"
    and out: "(t \<in> set (buf_queue s' i) \<or> p = RUNNING t) \<or> (\<exists>sock' b. (\<exists>sock w r w'. s_heap s t = Some sock \<and> runs sock w r sock' w') \<and>
        \<lparr>m_iSockFd = m_iSockfd sock', m_bStatus = b\<rparr> \<in> set (m_vecTaskStauts s' ! i))"
    by blast
  note path = worker_reaches [OF step i, of S K name pc]
  from out show ?case
  proof
    assume more: "t \<in> set (buf_queue s' i) \<or> p = RUNNING t"
    have inv: "owned_at tab (s', pc, ws[i := p])" "lock_inv s' (ws[i := p])"
      using worker_step_owned [OF assms(2) step i less.prems(1)] worker_step_lock_inv [OF step i less.prems(2)] by simp_all
    have i': "i < threads s'" using inv(2) i by (simp add: lock_inv_def)
    from less.hyps [of s' "ws[i := p]", OF _ inv i'] rank more i obtain s2 p2 b where
      "reachable S K name runs (s', pc, ws[i := p]) (s2, pc, ws[i := p, i := p2])"
      "\<lparr>m_iSockFd = fd_of s' t, m_bStatus = b\<rparr> \<in> set (m_vecTaskStauts s2 ! i)" by auto
    moreover from this(1) have "reachable S K name runs (s, pc, ws) (s2, pc, ws[i := p2])"
      using reachable_trans [OF _ path] by simp
    ultimately show ?thesis using worker_keeps_fd [OF assms(2) step, of t] by auto
  next
    assume "\<exists>sock' b. (\<exists>sock w r w'. s_heap s t = Some sock \<and> runs sock w r sock' w') \<and>
        \<lparr>m_iSockFd = m_iSockfd sock', m_bStatus = b\<rparr> \<in> set (m_vecTaskStauts s' ! i)"
    then obtain sock' b sock w r w' where r: "s_heap s t = Some sock" "runs sock w r sock' w'"
      "\<lparr>m_iSockFd = m_iSockfd sock', m_bStatus = b\<rparr> \<in> set (m_vecTaskStauts s' ! i)" by blast
    have "m_iSockfd sock' = fd_of s t" using runs_calls(1) [OF assms(2) r(2)] r(1) by (simp add: fd_of_def)
    with path r(3) show ?thesis by auto
  qed
qed

section \<open>The life of a connection\<close>

text \<open>
  The specification: what a client sees of the scheduling of its connection. It is open and waiting
  for a request, in service, or answered; it is closed only from service or after an answer, never
  while it waits.
\<close>

datatype phase = CLOSED | IDLE | BUSY | DONE

inductive life_step :: "(int \<Rightarrow> phase) \<Rightarrow> (int \<Rightarrow> phase) \<Rightarrow> bool" where
  opened: "p fd = CLOSED \<Longrightarrow> life_step p (p(fd := IDLE))"
| request: "p fd = IDLE \<Longrightarrow> life_step p (p(fd := BUSY))"
| refused: "p fd = BUSY \<Longrightarrow> life_step p (p(fd := CLOSED))"
| answered: "p fd = BUSY \<Longrightarrow> life_step p (p(fd := DONE))"
| again: "p fd = DONE \<Longrightarrow> life_step p (p(fd := IDLE))"
| ended: "p fd = DONE \<Longrightarrow> life_step p (p(fd := CLOSED))"

definition phase_of :: "int set \<times> int set \<Rightarrow> int set \<Rightarrow> int \<Rightarrow> phase" where
  "phase_of v rep fd =
     (if fd \<notin> fst v then CLOSED else if fd \<in> snd v then IDLE else if fd \<in> rep then DONE else BUSY)"

definition phases :: "('w \<Rightarrow> int set) \<Rightarrow> 'w server \<Rightarrow> int \<Rightarrow> phase" where
  "phases reg s = phase_of (view reg s) (set (reported s))"

abbreviation phases_at :: "('w \<Rightarrow> int \<rightharpoonup> bool) \<Rightarrow> 'w server \<Rightarrow> int \<Rightarrow> phase" where
  "phases_at tab \<equiv> phases (polled tab)"

abbreviation moves :: "(int \<Rightarrow> phase) \<Rightarrow> (int \<Rightarrow> phase) \<Rightarrow> bool" where
  "moves p q \<equiv> p = q \<or> life_step p q"

lemma phase_moves:
  "fd \<notin> d \<Longrightarrow> life_step (phase_of (d, r) rep) (phase_of (insert fd d, insert fd r) rep)"
  "fd \<in> d \<Longrightarrow> fd \<in> r \<Longrightarrow> fd \<notin> rep \<Longrightarrow> life_step (phase_of (d, r) rep) (phase_of (d, r - {fd}) rep)"
  "fd \<in> d \<Longrightarrow> fd \<notin> r \<Longrightarrow> fd \<notin> rep \<Longrightarrow> life_step (phase_of (d, r) rep) (phase_of (d - {fd}, r) rep)"
  "fd \<in> d \<Longrightarrow> fd \<notin> r \<Longrightarrow> fd \<notin> rep \<Longrightarrow> life_step (phase_of (d, r) rep) (phase_of (d, r) (insert fd rep))"
  "fd \<in> d \<Longrightarrow> fd \<notin> r \<Longrightarrow> fd \<notin> rep \<Longrightarrow> life_step (phase_of (d, r) (insert fd rep)) (phase_of (d, insert fd r) rep)"
  "fd \<in> d \<Longrightarrow> fd \<notin> r \<Longrightarrow> fd \<notin> rep \<Longrightarrow> life_step (phase_of (d, r) (insert fd rep)) (phase_of (d - {fd}, r) rep)"
proof -
  let ?p = "phase_of (d, r) rep" and ?q = "phase_of (d, r) (insert fd rep)"
  show "life_step ?p (phase_of (insert fd d, insert fd r) rep)" if "fd \<notin> d"
  proof -
    have "phase_of (insert fd d, insert fd r) rep = ?p(fd := IDLE)" by (auto simp: phase_of_def fun_eq_iff)
    with life_step.opened [of ?p fd] that show ?thesis by (simp add: phase_of_def)
  qed
  show "life_step ?p (phase_of (d, r - {fd}) rep)" if "fd \<in> d" "fd \<in> r" "fd \<notin> rep"
  proof -
    have "phase_of (d, r - {fd}) rep = ?p(fd := BUSY)" using that by (auto simp: phase_of_def fun_eq_iff)
    with life_step.request [of ?p fd] that show ?thesis by (simp add: phase_of_def)
  qed
  assume fd: "fd \<in> d" "fd \<notin> r" "fd \<notin> rep"
  have "phase_of (d - {fd}, r) rep = ?p(fd := CLOSED)" using fd by (auto simp: phase_of_def fun_eq_iff)
  with life_step.refused [of ?p fd] fd show "life_step ?p (phase_of (d - {fd}, r) rep)" by (simp add: phase_of_def)
  have "?q = ?p(fd := DONE)" using fd by (auto simp: phase_of_def fun_eq_iff)
  with life_step.answered [of ?p fd] fd show "life_step ?p ?q" by (simp add: phase_of_def)
  have "phase_of (d, insert fd r) rep = ?q(fd := IDLE)" using fd by (auto simp: phase_of_def fun_eq_iff)
  with life_step.again [of ?q fd] fd show "life_step ?q (phase_of (d, insert fd r) rep)" by (simp add: phase_of_def)
  have "phase_of (d - {fd}, r) rep = ?q(fd := CLOSED)" using fd by (auto simp: phase_of_def fun_eq_iff)
  with life_step.ended [of ?q fd] fd show "life_step ?q (phase_of (d - {fd}, r) rep)" by (simp add: phase_of_def)
qed

lemma phases_fields [simp]:
  "phases_at tab (s\<lparr>m_vecTaskBuf := b\<rparr>) = phases_at tab s" "phases_at tab (set_lock l i s) = phases_at tab s"
  by (simp_all add: phases_def view_def set_lock_def)

lemma held_phase:
  assumes "core_at tab s (t # hs) (reported s) es"
  shows "fd_of s t \<in> dom (m_mpSocketTask s)" "fd_of s t \<notin> polled tab (s_world s)" "fd_of s t \<notin> set (reported s)"
  using core_member(1) [OF assms, of t] core_facts(3) [OF assms] by auto

lemma drop_moves:
  assumes "core_at tab s (t # hs) (reported s) es" "m_mpSocketTask s fd = Some t" "same_queues s s'"
    "view_at tab s' = (dom (m_mpSocketTask s) - {fd}, polled tab (s_world s))"
  shows "life_step (phases_at tab s) (phases_at tab s')"
proof -
  have fd: "fd_of s t = fd" using core_map [OF assms(1), of fd t] assms(2) by (auto simp: fd_of_def)
  have "reported s' = reported s" using same_queues_places [OF assms(3)] by simp
  then show ?thesis
    using phase_moves(3) held_phase [OF assms(1)] assms(4) unfolding fd phases_def by (simp add: view_def)
qed

lemma free_moves:
  assumes "kernel_ok S K tab" "i < threads s" "pop_status i s = Some (st, s1)" "free_task S K st s1 = Some s2"
    "owned_at tab (s, FREEING i, ws)"
  shows "life_step (phases_at tab s) (phases_at tab s2)"
proof -
  note c = popped_core [OF assms(3,2,5)]
  have "i < length (m_vecTaskStauts s)" using assms(2,5) by (simp add: owned_def)
  note pop = pop_status_places [OF assms(3) this]
  have rep: "set (reported s) = insert (m_iSockFd st) (set (reported s1))"
    using mset_eq_setD [of "reported s" "m_iSockFd st # reported s1"] pop(1) by simp
  have fd: "m_iSockFd st \<notin> set (reported s1)" "m_iSockFd st \<in> dom (m_mpSocketTask s1)" "m_iSockFd st \<notin> polled tab (s_world s1)"
    using core_facts(3) [OF c] core_member(2) [OF c, of "m_iSockFd st"] by auto
  have view: "view_at tab s = (dom (m_mpSocketTask s1), polled tab (s_world s1))"
    using assms(3) by (auto simp: pop_status_def view_def split: list.splits)
  from free_task_core [OF assms(1) c] assms(4) have s2: "reported s2 = reported s1"
    "view_at tab s2 \<in> {(dom (m_mpSocketTask s1), insert (m_iSockFd st) (polled tab (s_world s1))),
                  (dom (m_mpSocketTask s1) - {m_iSockFd st}, polled tab (s_world s1))}"
    by (auto simp: reported_def)
  show ?thesis
    using s2(2) phase_moves(5,6) [OF fd(2,3,1)] unfolding phases_def view rep s2(1) by auto
qed

lemma server_step_moves:
  assumes "kernel_ok S K tab"
  shows "server_step S K name (s, pc) (s', pc') \<Longrightarrow> owned_at tab (s, pc, ws) \<Longrightarrow> moves (phases_at tab s) (phases_at tab s')"
proof (induction "(s, pc)" "(s', pc')" arbitrary: s pc s' pc' rule: server_step.induct)
  case (free_one i s st s1 s2)
  then show ?case by (blast intro: free_moves [OF assms])
next
  case (poll s es w)
  then have "polled tab w = polled tab (s_world s)" using kernel_epoll(3) [OF assms] by (simp add: BdxEpollWait_def)
  then show ?case by (simp add: phases_def view_def)
next
  case (accepting fd s b es)
  from core_event [OF owned_core [OF accepting(2), simplified]]
  have "core_at tab s (queued s @ running ws) (reported s) es" by simp
  note acc = accept_event_core [OF assms this, of name]
  then have rep: "reported (accept_event S K name s) = reported s" using same_queues_places by blast
  from acc consider (same) "view_at tab (accept_event S K name s) = view_at tab s" | (new) c where "c \<notin> dom (m_mpSocketTask s)"
      "view_at tab (accept_event S K name s) = (insert c (dom (m_mpSocketTask s)), insert c (polled tab (s_world s)))" by blast
  then show ?case
  proof cases
    case same
    then show ?thesis by (simp add: phases_def rep)
  next
    case new
    from phase_moves(1) [OF new(1)] new(2) show ?thesis unfolding phases_def rep by (simp add: view_def)
  qed
next
  case (unknown fd s es)
  then show ?case using core_member(3) [OF owned_core [OF unknown(3)], of fd True] by (auto simp: TcpGetSockfd_def)
next
  case (readable fd s t ok s1 es)
  obtain w where w: "s1 = s\<lparr>s_world := w\<rparr>" "polled tab w = polled tab (s_world s) - {fd}"
    by (rule epoll_ctr_cases [OF assms readable(3)]) auto
  have c: "core_at tab s (queued s @ running ws) (reported s) ((fd, True) # es)" using owned_core [OF readable(4)] by simp
  have "fd \<in> dom (m_mpSocketTask s)" "fd \<in> polled tab (s_world s)" "fd \<notin> set (reported s)"
    using readable(2) core_facts(10) [OF c] core_member(2) [OF c, of fd] by auto
  from phase_moves(2) [OF this] show ?case by (simp add: phases_def view_def w)
next
  case (put_busy i s t s1 fd es)
  then show ?case using put_try_cases [OF put_busy(2,1)] by auto
next
  case (put_done i s t r s1 fd b s2 es)
  note c = putting_core [OF put_done(4)]
  show ?case
  proof (cases "r = SUCCESS")
    case True
    then have "s2 = s1" using put_done(3) by (simp add: read_end_def)
    moreover have "phases_at tab s1 = phases_at tab s"
      using put_done(2) by (auto simp: put_try_def Let_def phases_def view_def split: prod.splits if_splits)
    ultimately show ?thesis by simp
  next
    case False
    then have "s1 = s" using put_try_cases [OF put_done(2,1), of tab] by auto
    with read_end_core [OF assms c False] put_done(3) drop_moves [OF c] show ?thesis by auto
  qed
next
  case (put_none i s fd t b s1 es)
  note c = putting_core [OF put_none(3)]
  from read_end_core [OF assms c, of NOFREE_THREAD] put_none(2) drop_moves [OF c] show ?case by auto
qed simp_all

lemma worker_step_moves:
  assumes "runs_ok runs tab" "worker_step runs i (s, ws ! i) (s', p)" "i < length ws" "owned_at tab (s, pc, ws)"
  shows "moves (phases_at tab s) (phases_at tab s')"
  using assms(2)
proof cases
  case (reporting t sock iRes sock' w)
  have i: "i < length (m_vecTaskStauts s)" using assms(3,4) by (simp add: owned_def)
  have run: "m_iSockfd sock' = m_iSockfd sock" "polled tab w = polled tab (s_world s)"
    using runs_calls [OF assms(1) reporting(4)] by simp_all
  note places = worker_report_places [OF reporting(5) i]
  have "mset (running ws) = add_mset t (mset (running (ws[i := p])))"
    using running_update [OF assms(3), of p] reporting(1,2) by (simp add: running_def)
  then have "core_at tab s (t # putting pc @ queued s @ running (ws[i := p])) (reported s) (pending pc)"
    by (intro core_perm [OF owned_core [OF assms(4)]]) auto
  note t = held_phase [OF this]
  have "set (reported s') = insert (fd_of s t) (set (reported s))"
    using mset_eq_setD [of "reported s'" "m_iSockfd sock' # reported s"] places(1) run(1) reporting(3) by (simp add: fd_of_def)
  moreover have "view_at tab s' = view_at tab s" unfolding places(7) by (simp add: view_def run(2))
  ultimately show ?thesis using phase_moves(4) [OF t] by (simp add: phases_def view_def)
next
  case locking
  then show ?thesis by (auto simp: worker_lock_def)
next
  case waiting
  then show ?thesis by (auto simp: worker_wait_def split: if_splits)
next
  case (taking t)
  then show ?thesis by (auto simp: worker_take_def split: list.splits)
qed simp_all

lemma owned_places:
  assumes "owned_at tab (s, pc, ws)"
  shows "(\<forall>t \<in> set (held (s, pc, ws)). \<exists>sock. s_heap s t = Some sock \<and> m_mpSocketTask s (m_iSockfd sock) = Some t) \<and>
    (\<forall>fd \<in> dom (m_mpSocketTask s).
       count (mset (map (fd_of s) (held (s, pc, ws)) @ reported s)) fd + (if fd \<in> polled tab (s_world s) then 1 else 0) = 1) \<and>
    set (map (fd_of s) (held (s, pc, ws)) @ reported s) \<subseteq> dom (m_mpSocketTask s) \<and>
    dom (m_mpSocketTask s) \<subseteq> opened tab (s_world s)"
proof -
  have c: "core_at tab s (held (s, pc, ws)) (reported s) (pending pc)"
    using assms by (simp add: owned_def)
  let ?busy = "map (fd_of s) (held (s, pc, ws)) @ reported s"
  have places: "set ?busy = dom (m_mpSocketTask s) - polled tab (s_world s)" using core_facts(4) [OF c] by simp
  have "\<exists>sock. s_heap s t = Some sock \<and> m_mpSocketTask s (m_iSockfd sock) = Some t" if "t \<in> set (held (s, pc, ws))" for t
    using that core_facts(2) [OF c] core_map [OF c] by blast
  moreover have "count (mset ?busy) fd + (if fd \<in> polled tab (s_world s) then 1 else 0) = 1" if "fd \<in> dom (m_mpSocketTask s)" for fd
    using that places distinct_count_atmost_1 [of ?busy] core_facts(3) [OF c] by auto
  ultimately show ?thesis using places core_facts(8) [OF c] by auto
qed

lemma sched_step_moves:
  assumes "kernel_ok S K tab" "runs_ok runs tab" "sched_step S K name runs (s, pc, ws) (s', pc', ws')"
    "owned_at tab (s, pc, ws)"
  shows "moves (phases_at tab s) (phases_at tab s')"
  using assms(3)
proof cases
  case by_server
  then show ?thesis using server_step_moves [OF assms(1) _ assms(4)] by blast
next
  case (by_worker i p)
  then show ?thesis using worker_step_moves [OF assms(2) _ _ assms(4)] by blast
qed

section \<open>Theorems\<close>

text \<open>
  C2. Ownership of connections. In every interleaving of the server thread and any number of working
  threads, every task that is queued, running or being handed over exists and is the one its
  descriptor names in the server's map, and every connection of the map is at exactly one place:
  under epoll, or once among the tasks held and the reported descriptors. So no task is lost, none is
  deleted while a thread uses it, and the descriptor of every known connection is open.
\<close>

theorem task_ownership:
  assumes "kernel_ok S K tab" "startup_ok S K tab" "runs_ok runs tab"
    "sched_init S K srv n w = Some a" "reachable S K name runs a (s, pc, ws)"
  shows "(\<forall>t \<in> set (held (s, pc, ws)). \<exists>sock. s_heap s t = Some sock \<and> m_mpSocketTask s (m_iSockfd sock) = Some t) \<and>
    (\<forall>fd \<in> dom (m_mpSocketTask s).
       count (mset (map (fd_of s) (held (s, pc, ws)) @ reported s)) fd + (if fd \<in> polled tab (s_world s) then 1 else 0) = 1) \<and>
    set (map (fd_of s) (held (s, pc, ws)) @ reported s) \<subseteq> dom (m_mpSocketTask s) \<and>
    dom (m_mpSocketTask s) \<subseteq> opened tab (s_world s)"
  by (rule owned_places [OF reachable_inv [OF assms(5,1-4), THEN conjunct1]])

text \<open>
  C6. The server thread never comes to a halt: in every reachable state it has a next step, so it never
  meets a deleted task, a second deletion, or a report it cannot use.
\<close>

theorem server_never_stuck:
  assumes "kernel_ok S K tab" "startup_ok S K tab" "runs_ok runs tab"
    "sched_init S K srv n w = Some a" "reachable S K name runs a (s, pc, ws)"
  shows "\<exists>s' pc'. server_step S K name (s, pc) (s', pc')"
  using reachable_inv [OF assms(5,1-4)] server_step_enabled [OF assms(1)] by blast

text \<open>
  C4. No task is forgotten in a queue: no thread sleeps without a signal while its queue has a task, and
  when runs end, scheduling the thread of a queued task leads to the report of that task's descriptor.
\<close>

theorem queued_task_served:
  assumes "kernel_ok S K tab" "startup_ok S K tab" "runs_ok runs tab"
    "sched_init S K srv n w = Some a" "reachable S K name runs a (s, pc, ws)"
    "\<forall>sock w. \<exists>r sock' w'. runs sock w r sock' w'" "i < threads s" "t \<in> set (buf_queue s i)"
  shows "(ws ! i = IN_WAIT \<longrightarrow> m_stCond (buf_lock s i) = 0) \<and>
    (\<exists>s' p b. reachable S K name runs (s, pc, ws) (s', pc, ws[i := p]) \<and>
      \<lparr>m_iSockFd = fd_of s t, m_bStatus = b\<rparr> \<in> set (m_vecTaskStauts s' ! i))"
proof -
  have inv: "owned_at tab (s, pc, ws)" "lock_inv s ws" using reachable_inv [OF assms(5,1-4)] by simp_all
  moreover have "m_stCond (buf_lock s i) = 0" using inv(2) assms(7,8) by (auto simp: lock_inv_def)
  ultimately show ?thesis using worker_serves [OF assms(1,3,6) inv assms(7)] assms(8) by blast
qed

text \<open>
  C3. The scheduling refines the life cycle of connections: seen through \<open>phases\<close>, every step of any
  thread leaves all connections as they are or takes one of them one step further in its life.
\<close>

theorem scheduler_refines_life:
  assumes "kernel_ok S K tab" "startup_ok S K tab" "runs_ok runs tab"
    "sched_init S K srv n w = Some a" "reachable S K name runs a (s, pc, ws)"
    "sched_step S K name runs (s, pc, ws) (s', pc', ws')"
  shows "phases_at tab s = phases_at tab s' \<or> life_step (phases_at tab s) (phases_at tab s')"
  using reachable_inv [OF assms(5,1-4)] sched_step_moves [OF assms(1,3,6)] by simp

text \<open>A small kernel with the descriptors 3 and 4, on which everything under epoll is readable.\<close>

record kworld =
  k_fds :: "int set"
  k_reg :: "int set"

definition k_tab :: "kworld \<Rightarrow> int \<rightharpoonup> bool" where
  "k_tab w = (\<lambda>fd. if fd \<in> k_fds w \<and> 0 \<le> fd then Some (fd \<in> k_reg w) else None)"

definition k_open :: "kworld \<Rightarrow> int \<times> kworld" where
  "k_open w = (if 3 \<notin> k_fds w then (3, w\<lparr>k_fds := insert 3 (k_fds w), k_reg := k_reg w - {3}\<rparr>)
    else if 4 \<notin> k_fds w then (4, w\<lparr>k_fds := insert 4 (k_fds w), k_reg := k_reg w - {4}\<rparr>) else (-1, w))"

definition k_sys :: "kworld sys" where
  "k_sys =
     \<lparr>sys_socket = k_open, sys_close = (\<lambda>fd w. w\<lparr>k_fds := k_fds w - {fd}, k_reg := k_reg w - {fd}\<rparr>),
      sys_setsockopt = (\<lambda>_ _ w. (0, w)), sys_bind = (\<lambda>_ _ _ w. (0, w)), sys_listen = (\<lambda>_ _ w. (0, w)),
      sys_accept = (\<lambda>_. k_open), sys_select = (\<lambda>_ _ w. (0, False, w)), sys_connect = (\<lambda>_ _ _ w. (0, w)),
      sys_recv = (\<lambda>_ n w. (Received [], w)), sys_send = (\<lambda>_ b w. (int (length b), w)),
      sys_getpeername = (\<lambda>_ _. None), sys_getsockname = (\<lambda>_ _. None), sys_setfl_nonblock = (\<lambda>_ w. (0, w)),
      SSL_library_init = (\<lambda>w. w), SSL_CTX_new = (\<lambda>w. (None, w)), SSL_new = (\<lambda>_ w. (None, w)),
      SSL_set_fd = (\<lambda>_ _ w. (1, w)), SSL_connect = (\<lambda>_ w. (0, w)), SSL_read = (\<lambda>_ n w. (0, [], w)),
      SSL_write = (\<lambda>_ b w. (0, SSL_ERROR_NONE, w)), SSL_shutdown = (\<lambda>_ w. w), SSL_free = (\<lambda>_ w. w), SSL_CTX_free = (\<lambda>_ w. w)\<rparr>"

definition k_epoll :: "kworld epoll" where
  "k_epoll =
     \<lparr>epoll_create = (\<lambda>w. (5, w\<lparr>k_reg := {}\<rparr>)),
      epoll_ctl = (\<lambda>_ verb fd w.
        if fd \<in> k_fds w \<and> 0 \<le> fd
        then (0, w\<lparr>k_reg := case verb of EPOLL_CTL_ADD \<Rightarrow> insert fd (k_reg w) | EPOLL_CTL_DEL \<Rightarrow> k_reg w - {fd}\<rparr>)
        else (-1, w)),
      epoll_wait = (\<lambda>_ _ _ w. (filter (\<lambda>(fd, _). fd \<in> k_fds w \<inter> k_reg w) [(3, True), (4, True)], w))\<rparr>"

definition k_runs :: "kworld runs" where
  "k_runs sock w r sock' w' \<longleftrightarrow> r = SUCCESS \<and> sock' = sock \<and> w' = w"

lemma k_tracks: "tracks_fds k_sys k_tab"
  by (auto simp: tracks_fds_def k_sys_def k_open_def k_tab_def fun_eq_iff)

lemma k_kernel: "kernel_ok k_sys k_epoll k_tab"
  unfolding kernel_ok_def by (intro conjI k_tracks) (auto simp: k_sys_def k_epoll_def k_open_def k_tab_def polled_def fun_eq_iff split: if_splits)

lemma k_startup: "startup_ok k_sys k_epoll k_tab"
  by (auto simp: startup_ok_def k_sys_def k_epoll_def k_tab_def polled_def split: if_splits)

lemma k_runs_ok: "runs_ok k_runs k_tab"
  by (auto simp: runs_ok_def k_runs_def)

text \<open>A run on it: a client connects, sends a request, and its task comes into the queue of the one thread.\<close>

definition k_server :: "int set \<Rightarrow> int set \<Rightarrow> bool \<Rightarrow> nat list \<Rightarrow> kworld server" where
  "k_server fds reg client queue =
     \<lparr>s_world = \<lparr>k_fds = fds, k_reg = reg\<rparr>, s_heap = (if client then [0 \<mapsto> new_accepted 4 300000] else Map.empty),
      s_next = (if client then 1 else 0), m_vecTaskBuf = [\<lparr>m_queUserQueryTask = queue, m_clLock = new_CMutexLock\<rparr>],
      m_vecTaskStauts = [[]], m_mpSocketTask = (if client then [4 \<mapsto> 0] else Map.empty),
      s_pclSock = \<lparr>m_iSockfd = 3, m_in_portPort = 80, m_strIp = [], m_uiTimeout = 300000, m_bConnect = False, m_ssl = None, m_ssl_ctx = None\<rparr>,
      m_clEpoll = 5\<rparr>"

abbreviation k_port :: IPPORT_S where
  "k_port \<equiv> \<lparr>m_pchIp = [], m_uiPort = 80, m_idx = 0, m_count = 0\<rparr>"

lemma k_init:
  "sched_init k_sys k_epoll k_port 1 \<lparr>k_fds = {}, k_reg = {}\<rparr> = Some (k_server {3} {3} False [], FREEING 0, [AT_LOCK])"
  by (simp add: sched_init_def new_CUserQueryServer_def BdxEpollInit_def k_epoll_def k_sys_def k_open_def new_CTcpSocket_def
      BdxInitServer_def TcpBind_def TcpListen_def TcpSetNoblock_def TcpGetSockfd_def epoll_ctr_def BdxEpollCtr_def k_server_def)

abbreviation k_steps :: "kworld server \<times> server_pc \<Rightarrow> kworld server \<times> server_pc \<Rightarrow> bool" where
  "k_steps \<equiv> server_step k_sys k_epoll ''query''"

lemma k_round:
  assumes "fds = {3} \<or> fds = {3, 4}"
  shows "k_steps (k_server fds reg c [], FREEING 0) (k_server fds reg c [], FREEING 1)"
    and "k_steps (k_server fds reg c [], FREEING 1) (k_server fds reg c [], WAITING)"
    and "reg = {3} \<Longrightarrow> k_steps (k_server fds reg c [], WAITING) (k_server fds reg c [], EVENTS [(3, True)])"
    and "reg = {3, 4} \<Longrightarrow> fds = {3, 4} \<Longrightarrow> k_steps (k_server fds reg c [], WAITING) (k_server fds reg c [], EVENTS [(3, True), (4, True)])"
proof -
  show "k_steps (k_server fds reg c [], FREEING 0) (k_server fds reg c [], FREEING 1)"
    using server_step.free_next [of 0 "k_server fds reg c []"] by (simp add: k_server_def pop_status_def)
  show "k_steps (k_server fds reg c [], FREEING 1) (k_server fds reg c [], WAITING)"
    using server_step.free_end [of 1 "k_server fds reg c []"] by (simp add: k_server_def)
  show "k_steps (k_server fds reg c [], WAITING) (k_server fds reg c [], EVENTS [(3, True)])" if "reg = {3}"
    using server_step.poll [of k_epoll "k_server fds reg c []" "[(3, True)]" "\<lparr>k_fds = fds, k_reg = reg\<rparr>"] that
      assms by (auto simp: k_server_def k_epoll_def BdxEpollWait_def)
  show "k_steps (k_server fds reg c [], WAITING) (k_server fds reg c [], EVENTS [(3, True), (4, True)])" if "reg = {3, 4}" "fds = {3, 4}"
    using server_step.poll [of k_epoll "k_server fds reg c []" "[(3, True), (4, True)]" "\<lparr>k_fds = fds, k_reg = reg\<rparr>"] that
      assms by (auto simp: k_server_def k_epoll_def BdxEpollWait_def)
qed

lemma k_accepts:
  "k_steps (k_server {3} {3} False [], EVENTS [(3, True)]) (k_server {3, 4} {3, 4} True [], EVENTS [])"
  "k_steps (k_server {3, 4} {3, 4} True [], EVENTS [(3, True), (4, True)]) (k_server {3, 4} {3, 4} True [], EVENTS [(4, True)])"
proof -
  have "accept_event k_sys k_epoll ''query'' (k_server {3} {3} False []) = k_server {3, 4} {3, 4} True []"
    "accept_event k_sys k_epoll ''query'' (k_server {3, 4} {3, 4} True []) = k_server {3, 4} {3, 4} True []"
    by (auto simp: accept_event_def TcpAccept_def k_server_def k_sys_def k_epoll_def k_open_def BdxServerGetTask_def TcpSetNoblock_def
        TcpGetSockfd_def epoll_ctr_def BdxEpollCtr_def new_task_def new_accepted_def)
  then show "k_steps (k_server {3} {3} False [], EVENTS [(3, True)]) (k_server {3, 4} {3, 4} True [], EVENTS [])"
    "k_steps (k_server {3, 4} {3, 4} True [], EVENTS [(3, True), (4, True)]) (k_server {3, 4} {3, 4} True [], EVENTS [(4, True)])"
    using server_step.accepting [of 3 "k_server {3} {3} False []" k_sys k_epoll "''query''" True "[]"]
      server_step.accepting [of 3 "k_server {3, 4} {3, 4} True []" k_sys k_epoll "''query''" True "[(4, True)]"]
    by (simp_all add: k_server_def TcpGetSockfd_def)
qed

lemma k_reads:
  "k_steps (k_server {3, 4} {3, 4} True [], EVENTS [(4, True)]) (k_server {3, 4} {3} True [], PUTTING 4 0 0 [])"
  "k_steps (k_server {3, 4} {3} True [], PUTTING 4 0 0 []) (k_server {3, 4} {3} True [0], EVENTS [])"
proof -
  have ctr: "epoll_ctr k_epoll EPOLL_CTL_DEL 4 (k_server {3, 4} {3, 4} True []) = (True, k_server {3, 4} {3} True [])"
    by (auto simp: epoll_ctr_def BdxEpollCtr_def k_epoll_def k_server_def)
  show "k_steps (k_server {3, 4} {3, 4} True [], EVENTS [(4, True)]) (k_server {3, 4} {3} True [], PUTTING 4 0 0 [])"
    by (rule server_step.readable [OF _ _ ctr]) (simp_all add: k_server_def TcpGetSockfd_def)
  have put: "put_try 0 0 (k_server {3, 4} {3} True []) = (Some SUCCESS, k_server {3, 4} {3} True [0])"
    by (simp add: put_try_def k_server_def MutexTryLock_def new_CMutexLock_def MutexUnlock_def MutexNotify_def)
  show "k_steps (k_server {3, 4} {3} True [], PUTTING 4 0 0 []) (k_server {3, 4} {3} True [0], EVENTS [])"
    by (rule server_step.put_done [OF _ put, where b = True]) (simp_all add: read_end_def, simp add: k_server_def)
qed

lemma k_reach:
  "k_steps (s, pc) (s', pc') \<Longrightarrow> reachable k_sys k_epoll ''query'' runs a (s, pc, ws) \<Longrightarrow>
   reachable k_sys k_epoll ''query'' runs a (s', pc', ws)"
  by (rule reachable.later [OF _ sched_step.by_server])

abbreviation k_start :: "kworld sched_state" where
  "k_start \<equiv> (k_server {3} {3} False [], FREEING 0, [AT_LOCK])"

lemma k_idle: "reachable k_sys k_epoll ''query'' runs k_start (k_server {3, 4} {3, 4} True [], EVENTS [(4, True)], [AT_LOCK])"
proof -
  note r1 = k_round [of "{3}" "{3}" False] and r2 = k_round [of "{3, 4}" "{3, 4}" True]
  have "reachable k_sys k_epoll ''query'' runs k_start (k_server {3} {3} False [], WAITING, [AT_LOCK])"
    using k_reach [OF r1(2) k_reach [OF r1(1) reachable.start]] by simp
  from k_reach [OF k_accepts(1) k_reach [OF r1(3) this]]
  have "reachable k_sys k_epoll ''query'' runs k_start (k_server {3, 4} {3, 4} True [], EVENTS [], [AT_LOCK])" by simp
  from k_reach [OF r2(2) k_reach [OF r2(1) k_reach [OF server_step.next_round this]]]
  have "reachable k_sys k_epoll ''query'' runs k_start (k_server {3, 4} {3, 4} True [], WAITING, [AT_LOCK])" by simp
  from k_reach [OF k_accepts(2) k_reach [OF r2(4) this]] show ?thesis by simp
qed

lemma k_queued: "reachable k_sys k_epoll ''query'' runs k_start (k_server {3, 4} {3} True [0], EVENTS [], [AT_LOCK])"
  by (rule k_reach [OF k_reads(2) k_reach [OF k_reads(1) k_idle]])

lemmas k_hyps = k_kernel k_startup k_runs_ok k_init

theorem task_ownership_witness:
  "count (mset (map (fd_of (k_server {3, 4} {3} True [0])) (held (k_server {3, 4} {3} True [0], EVENTS [], [AT_LOCK])) @
     reported (k_server {3, 4} {3} True [0]))) 4 = 1"
proof -
  have "4 \<in> dom (m_mpSocketTask (k_server {3, 4} {3} True [0]))" "4 \<notin> polled k_tab (s_world (k_server {3, 4} {3} True [0]))"
    by (simp_all add: k_server_def polled_def k_tab_def)
  with task_ownership [OF k_hyps k_queued, THEN conjunct2, THEN conjunct1, THEN bspec, of 4] show ?thesis by simp
qed

theorem server_never_stuck_witness:
  "\<exists>s' pc'. server_step k_sys k_epoll ''query'' (k_server {3, 4} {3} True [0], EVENTS []) (s', pc')"
  by (rule server_never_stuck [OF k_hyps k_queued])

theorem queued_task_served_witness:
  "\<exists>s' p b. reachable k_sys k_epoll ''query'' k_runs (k_server {3, 4} {3} True [0], EVENTS [], [AT_LOCK]) (s', EVENTS [], [p]) \<and>
     \<lparr>m_iSockFd = 4, m_bStatus = b\<rparr> \<in> set (m_vecTaskStauts s' ! 0)"
proof -
  have "\<forall>sock w. \<exists>r sock' w'. k_runs sock w r sock' w'" by (auto simp: k_runs_def)
  moreover have "0 < threads (k_server {3, 4} {3} True [0])" "0 \<in> set (buf_queue (k_server {3, 4} {3} True [0]) 0)"
    by (simp_all add: k_server_def)
  moreover have "fd_of (k_server {3, 4} {3} True [0]) 0 = 4" by (simp add: fd_of_def k_server_def new_accepted_def)
  ultimately show ?thesis using queued_task_served [OF k_hyps k_queued, of 0 0] by auto
qed

theorem scheduler_refines_life_witness:
  "phases (polled k_tab) (k_server {3, 4} {3, 4} True []) 4 = IDLE \<and> phases (polled k_tab) (k_server {3, 4} {3} True []) 4 = BUSY \<and>
   life_step (phases (polled k_tab) (k_server {3, 4} {3, 4} True [])) (phases (polled k_tab) (k_server {3, 4} {3} True []))"
proof -
  have "phases (polled k_tab) (k_server {3, 4} {3, 4} True []) 4 = IDLE" "phases (polled k_tab) (k_server {3, 4} {3} True []) 4 = BUSY"
    by (simp_all add: phases_def phase_of_def view_def k_server_def reported_def polled_def k_tab_def)
  moreover from this have "phases (polled k_tab) (k_server {3, 4} {3, 4} True []) \<noteq> phases (polled k_tab) (k_server {3, 4} {3} True [])" by auto
  ultimately show ?thesis
    using scheduler_refines_life [OF k_hyps k_idle sched_step.by_server [OF k_reads(1)]] by blast
qed

end
