(* ===== verification/Files.thy ===== *)
theory Files
  imports DataHub "HOL-Library.Monad_Syntax" "HOL-Library.Sublist"
begin

text \<open>
  Files and the log: \<open>src/CommonTools/File/File.cpp\<close> and \<open>src/CommonTools/Log/Log.cpp\<close>, whose base
  class \<open>CLOGFile\<close> repeats \<open>CFile\<close>.

  The file system and \<open>stdio\<close> are a parameter, a record of their calls over the world. A stream is a
  number; \<open>None\<close> is a use of a closed or null stream. A text counts as written when \<open>fprintf\<close> has
  taken it: \<open>fflush\<close> is not modelled. A path is a C string without its terminator.
\<close>

section \<open>The interface\<close>

datatype d_type = DT_DIR | DT_REG | DT_OTHER

text \<open>
  \<open>f_list\<close> is \<open>opendir\<close> with the entries \<open>readdir\<close> then gives, \<open>f_length\<close> the two \<open>fseek\<close>s with the \<open>ftell\<close>
  between them, \<open>f_size\<close> the size that \<open>stat\<close> reports.
\<close>

record 'w stdio =
  f_access :: "string \<Rightarrow> 'w \<Rightarrow> bool"
  f_mkdir :: "string \<Rightarrow> 'w \<Rightarrow> bool \<times> 'w"
  f_list :: "string \<Rightarrow> 'w \<Rightarrow> (d_type \<times> string) list option"
  f_open :: "string \<Rightarrow> string \<Rightarrow> 'w \<Rightarrow> nat option \<times> 'w"
  f_close :: "nat \<Rightarrow> 'w \<Rightarrow> 'w option"
  f_print :: "nat \<Rightarrow> string \<Rightarrow> 'w \<Rightarrow> (bool \<times> 'w) option"
  f_write :: "nat \<Rightarrow> string \<Rightarrow> 'w \<Rightarrow> (nat \<times> 'w) option"
  f_length :: "nat \<Rightarrow> 'w \<Rightarrow> nat"
  f_read :: "nat \<Rightarrow> nat \<Rightarrow> 'w \<Rightarrow> string \<times> 'w"
  f_remove :: "string \<Rightarrow> 'w \<Rightarrow> bool \<times> 'w"
  f_size :: "string \<Rightarrow> 'w \<Rightarrow> nat option"

section \<open>CFile\<close>

definition FileBeExists :: "'w stdio \<Rightarrow> string \<Rightarrow> 'w \<Rightarrow> bool" where
  "FileBeExists F pchPath w = f_access F pchPath w"

definition make_missing :: "'w stdio \<Rightarrow> string \<Rightarrow> 'w \<Rightarrow> bool \<times> 'w" where
  "make_missing F strDir w = (if FileBeExists F strDir w then (True, w) else f_mkdir F strDir w)"

text \<open>The part of the path that the loop has passed, and the rest.\<close>

fun creat_loop :: "'w stdio \<Rightarrow> string \<Rightarrow> string \<Rightarrow> 'w \<Rightarrow> bool \<times> 'w" where
  "creat_loop F passed [] w = make_missing F passed w"
| "creat_loop F passed (c # rest) w =
     (if c = CHR ''/'' then
        (case make_missing F (passed @ [c]) w of
           (False, w) \<Rightarrow> (False, w)
         | (True, w) \<Rightarrow> creat_loop F (passed @ [c]) rest w)
      else creat_loop F (passed @ [c]) rest w)"

definition FileCreatDir :: "'w stdio \<Rightarrow> string \<Rightarrow> 'w \<Rightarrow> bool \<times> 'w" where
  "FileCreatDir F pchPath w = creat_loop F [] pchPath w"

definition dir_entries :: "'w stdio \<Rightarrow> string \<Rightarrow> 'w \<Rightarrow> (d_type \<times> string) list option" where
  "dir_entries F pchPath w = (if \<not> FileBeExists F pchPath w then None else f_list F pchPath w)"

text \<open>The first comparison is of one character, so every name that starts with a dot is left out.\<close>

definition FileListDirs :: "'w stdio \<Rightarrow> string \<Rightarrow> string list \<Rightarrow> 'w \<Rightarrow> bool \<times> string list" where
  "FileListDirs F pchPath vecDirs w =
     (case dir_entries F pchPath w of
        None \<Rightarrow> (False, vecDirs)
      | Some es \<Rightarrow> (True, vecDirs @ map snd (filter (\<lambda>(t, n). t = DT_DIR \<and> take 1 n \<noteq> ''.'' \<and> take 2 n \<noteq> ''..'') es)))"

definition FileListFiles :: "'w stdio \<Rightarrow> string \<Rightarrow> string list \<Rightarrow> 'w \<Rightarrow> bool \<times> string list" where
  "FileListFiles F pchPath vecFiles w =
     (case dir_entries F pchPath w of
        None \<Rightarrow> (False, vecFiles)
      | Some es \<Rightarrow> (True, vecFiles @ map snd (filter (\<lambda>(t, n). t = DT_REG) es)))"

text \<open>The string is taken from a zero-terminated array. A null name is \<open>None\<close>.\<close>

definition FileReadFile :: "'w stdio \<Rightarrow> string option \<Rightarrow> string \<Rightarrow> 'w \<Rightarrow> (bool \<times> string \<times> 'w) option" where
  "FileReadFile F pchFileName strContent w =
     (case pchFileName of
        None \<Rightarrow> Some (False, strContent, w)
      | Some name \<Rightarrow>
          (case f_open F name ''r'' w of
             (None, w) \<Rightarrow> Some (False, strContent, w)
           | (Some h, w) \<Rightarrow>
               (let (bs, w) = f_read F h (f_length F h w) w
                in do { w \<leftarrow> f_close F h w; Some (True, cstr bs, w) })))"

text \<open>The other overload gives the array, with its zeros, and the length.\<close>

definition FileReadFile_len :: "'w stdio \<Rightarrow> string option \<Rightarrow> 'w \<Rightarrow> ((string \<times> nat) option \<times> 'w) option" where
  "FileReadFile_len F pchFileName w =
     (case pchFileName of
        None \<Rightarrow> Some (None, w)
      | Some name \<Rightarrow>
          (case f_open F name ''r'' w of
             (None, w) \<Rightarrow> Some (None, w)
           | (Some h, w) \<Rightarrow>
               (let n = f_length F h w; (bs, w) = f_read F h n w
                in do { w \<leftarrow> f_close F h w; Some (Some (bs @ replicate (n + 1 - length bs) NUL, n), w) })))"

text \<open>One item of the whole length is written: no item when the length is 0.\<close>

definition FileWriteFile :: "'w stdio \<Rightarrow> string \<Rightarrow> string option \<Rightarrow> string \<Rightarrow> 'w \<Rightarrow> (bool \<times> 'w) option" where
  "FileWriteFile F pchMode pchFileName pchContent w =
     (case pchFileName of
        None \<Rightarrow> Some (False, w)
      | Some name \<Rightarrow>
          (case f_open F name pchMode w of
             (None, w) \<Rightarrow> Some (False, w)
           | (Some h, w) \<Rightarrow>
               do { (items, w) \<leftarrow> f_write F h pchContent w; w \<leftarrow> f_close F h w; Some (0 < items, w) }))"

definition FileGetFileLength :: "'w stdio \<Rightarrow> string option \<Rightarrow> 'w \<Rightarrow> (int \<times> 'w) option" where
  "FileGetFileLength F pchFileName w =
     (case pchFileName of
        None \<Rightarrow> Some (-1, w)
      | Some name \<Rightarrow>
          (case f_open F name ''r'' w of
             (None, w) \<Rightarrow> Some (-1, w)
           | (Some h, w) \<Rightarrow> (let n = f_length F h w in do { w \<leftarrow> f_close F h w; Some (int n, w) })))"

definition FileRemoveFile :: "'w stdio \<Rightarrow> string \<Rightarrow> 'w \<Rightarrow> bool \<times> 'w" where
  "FileRemoveFile F pchFileName w = f_remove F pchFileName w"

section \<open>CLog\<close>

record CLog =
  l_pszFileName :: string
  l_pszPathName :: string
  l_Rank :: LOG_RANK
  l_pFile :: "nat option"
  m_iLogFileId :: int
  m_iLogFileLine :: int
  m_iLimit :: int

type_synonym 'w logstate = "'w \<times> CLog"

primrec rank_num :: "LOG_RANK \<Rightarrow> nat" where
  "rank_num DEBUG = 0"
| "rank_num INFO = 1"
| "rank_num WARNING = 2"
| "rank_num ERROR = 3"
| "rank_num REQUIRED = 100"

primrec rank_text :: "LOG_RANK \<Rightarrow> string" where
  "rank_text DEBUG = ''DEBUG''"
| "rank_text INFO = ''INFO''"
| "rank_text WARNING = ''WARNING''"
| "rank_text ERROR = ''ERROR''"
| "rank_text REQUIRED = ''REQUIRED''"

definition getfulltime :: "tm \<Rightarrow> string" where
  "getfulltime t =
     show_nat (tm_year t + 1900) @ ''-'' @ show_02d (tm_mon t + 1) @ ''-'' @ show_02d (tm_mday t) @ '' '' @
     show_02d (tm_hour t) @ '':'' @ show_02d (tm_min t) @ '':'' @ show_02d (tm_sec t)"

definition LogGetDate :: "tm \<Rightarrow> string option" where
  "LogGetDate t = dt20 (show_4d (tm_year t + 1900) @ show_02d (tm_mon t + 1) @ show_02d (tm_mday t))"

definition LogFileBeExists :: "'w stdio \<Rightarrow> string \<Rightarrow> 'w \<Rightarrow> bool" where
  "LogFileBeExists F pchPath w = f_access F pchPath w"

definition LogFileCreatDir :: "'w stdio \<Rightarrow> string \<Rightarrow> 'w \<Rightarrow> bool \<times> 'w" where
  "LogFileCreatDir F pchPath w = creat_loop F [] pchPath w"

definition LogFileListFiles :: "'w stdio \<Rightarrow> string \<Rightarrow> string list \<Rightarrow> 'w \<Rightarrow> bool \<times> string list" where
  "LogFileListFiles F pchPath vecFiles w =
     (case dir_entries F pchPath w of
        None \<Rightarrow> (False, vecFiles)
      | Some es \<Rightarrow> (True, vecFiles @ map snd (filter (\<lambda>(t, n). t = DT_REG) es)))"

text \<open>The rest of \<open>CLOGFile\<close>, which nobody calls, repeats the bodies of \<open>CFile\<close>.\<close>

definition LogFileListDirs :: "'w stdio \<Rightarrow> string \<Rightarrow> string list \<Rightarrow> 'w \<Rightarrow> bool \<times> string list" where
  "LogFileListDirs F pchPath vecDirs w =
     (case dir_entries F pchPath w of
        None \<Rightarrow> (False, vecDirs)
      | Some es \<Rightarrow> (True, vecDirs @ map snd (filter (\<lambda>(t, n). t = DT_DIR \<and> take 1 n \<noteq> ''.'' \<and> take 2 n \<noteq> ''..'') es)))"

definition LogFileReadFile :: "'w stdio \<Rightarrow> string option \<Rightarrow> string \<Rightarrow> 'w \<Rightarrow> (bool \<times> string \<times> 'w) option" where
  "LogFileReadFile F pchFileName strContent w =
     (case pchFileName of
        None \<Rightarrow> Some (False, strContent, w)
      | Some name \<Rightarrow>
          (case f_open F name ''r'' w of
             (None, w) \<Rightarrow> Some (False, strContent, w)
           | (Some h, w) \<Rightarrow>
               (let (bs, w) = f_read F h (f_length F h w) w
                in do { w \<leftarrow> f_close F h w; Some (True, cstr bs, w) })))"

definition LogFileReadFile_len :: "'w stdio \<Rightarrow> string option \<Rightarrow> 'w \<Rightarrow> ((string \<times> nat) option \<times> 'w) option" where
  "LogFileReadFile_len F pchFileName w =
     (case pchFileName of
        None \<Rightarrow> Some (None, w)
      | Some name \<Rightarrow>
          (case f_open F name ''r'' w of
             (None, w) \<Rightarrow> Some (None, w)
           | (Some h, w) \<Rightarrow>
               (let n = f_length F h w; (bs, w) = f_read F h n w
                in do { w \<leftarrow> f_close F h w; Some (Some (bs @ replicate (n + 1 - length bs) NUL, n), w) })))"

definition LogFileWriteFile :: "'w stdio \<Rightarrow> string \<Rightarrow> string option \<Rightarrow> string \<Rightarrow> 'w \<Rightarrow> (bool \<times> 'w) option" where
  "LogFileWriteFile F pchMode pchFileName pchContent w =
     (case pchFileName of
        None \<Rightarrow> Some (False, w)
      | Some name \<Rightarrow>
          (case f_open F name pchMode w of
             (None, w) \<Rightarrow> Some (False, w)
           | (Some h, w) \<Rightarrow>
               do { (items, w) \<leftarrow> f_write F h pchContent w; w \<leftarrow> f_close F h w; Some (0 < items, w) }))"

definition LogFileGetFileLength :: "'w stdio \<Rightarrow> string option \<Rightarrow> 'w \<Rightarrow> (int \<times> 'w) option" where
  "LogFileGetFileLength F pchFileName w =
     (case pchFileName of
        None \<Rightarrow> Some (-1, w)
      | Some name \<Rightarrow>
          (case f_open F name ''r'' w of
             (None, w) \<Rightarrow> Some (-1, w)
           | (Some h, w) \<Rightarrow> (let n = f_length F h w in do { w \<leftarrow> f_close F h w; Some (int n, w) })))"

definition LogFileRemoveFile :: "'w stdio \<Rightarrow> string \<Rightarrow> 'w \<Rightarrow> bool \<times> 'w" where
  "LogFileRemoveFile F pchFileName w = f_remove F pchFileName w"

definition close_log :: "'w stdio \<Rightarrow> 'w logstate \<Rightarrow> 'w logstate option" where
  "close_log F = (\<lambda>(w, l).
     case l_pFile l of None \<Rightarrow> Some (w, l) | Some h \<Rightarrow> do { w \<leftarrow> f_close F h w; Some (w, l\<lparr>l_pFile := None\<rparr>) })"

text \<open>The directory of the day: made, with the stream of the day before closed, or its files counted.\<close>

definition log_day :: "'w stdio \<Rightarrow> string \<Rightarrow> 'w logstate \<Rightarrow> (bool \<times> 'w logstate) option" where
  "log_day F strLogDir = (\<lambda>(w, l).
     if \<not> LogFileBeExists F strLogDir w then
       (case LogFileCreatDir F strLogDir w of
          (False, w) \<Rightarrow> Some (False, w, l\<lparr>m_iLogFileId := 0\<rparr>)
        | (True, w) \<Rightarrow> do { st \<leftarrow> close_log F (w, l\<lparr>m_iLogFileId := 0, m_iLogFileLine := 0\<rparr>); Some (True, st) })
     else
       (case LogFileListFiles F strLogDir [] w of
          (False, _) \<Rightarrow> Some (False, w, l)
        | (True, vecFiles) \<Rightarrow> Some (True, w, l\<lparr>m_iLogFileId := int (length vecFiles)\<rparr>)))"

definition log_open :: "'w stdio \<Rightarrow> string \<Rightarrow> 'w logstate \<Rightarrow> (bool \<times> 'w logstate) option" where
  "log_open F strLogDir st =
     (if l_pFile (snd st) = None \<or> m_iLogFileId (snd st) = 0 then
        do { (w, l) \<leftarrow> close_log F st;
             (case f_open F (strLogDir @ ''/'' @ l_pszFileName l @ show_int (m_iLogFileId l)) ''a'' w of
                (None, w) \<Rightarrow> Some (False, w, l)
              | (Some h, w) \<Rightarrow>
                  Some (True, w, l\<lparr>l_pFile := Some h, m_iLogFileId := m_iLogFileId l + 1, m_iLogFileLine := m_iLogFileLine l + 1\<rparr>)) }
      else Some (True, st))"

definition LogCreatLogDir :: "'w stdio \<Rightarrow> ('w \<Rightarrow> tm) \<Rightarrow> 'w logstate \<Rightarrow> (bool \<times> 'w logstate) option" where
  "LogCreatLogDir F now st =
     do { date \<leftarrow> LogGetDate (now (fst st));
          let strLogDir = l_pszPathName (snd st) @ ''/'' @ date;
          (ok, st) \<leftarrow> log_day F strLogDir st;
          if ok then log_open F strLogDir st else Some (False, st) }"

text \<open>
  The constructor copies 1024 bytes from either pointer, whatever the length of the string there: \<open>path\<close>
  and \<open>name\<close> are the bytes that may be read. An exception is \<open>Some None\<close>.
\<close>

definition new_CLog :: "'w stdio \<Rightarrow> ('w \<Rightarrow> tm) \<Rightarrow> string \<Rightarrow> string \<Rightarrow> int \<Rightarrow> LOG_RANK \<Rightarrow> 'w \<Rightarrow> ('w logstate option) option" where
  "new_CLog F now path name iLimit rank w =
     (if cstr name = [] \<or> cstr path = [] then Some None
      else if length name < 1024 \<or> length path < 1024 \<or> NUL \<notin> set (take 1024 name) \<or> NUL \<notin> set (take 1024 path) then None
      else
        do { (ok, w, l) \<leftarrow> LogCreatLogDir F now
               (w, \<lparr>l_pszFileName = cstr name, l_pszPathName = cstr path, l_Rank = rank, l_pFile = None,
                    m_iLogFileId = 0, m_iLogFileLine = 0, m_iLimit = iLimit\<rparr>);
             Some (if ok then Some (w, l) else None) })"

definition delete_CLog :: "'w stdio \<Rightarrow> 'w logstate \<Rightarrow> 'w option" where
  "delete_CLog F = (\<lambda>(w, l). case l_pFile l of None \<Rightarrow> Some w | Some h \<Rightarrow> f_close F h w)"

definition LogGetLogRank :: "CLog \<Rightarrow> LOG_RANK" where
  "LogGetLogRank l = l_Rank l"

definition LogSetLogRank :: "LOG_RANK \<Rightarrow> CLog \<Rightarrow> CLog" where
  "LogSetLogRank rank l = l\<lparr>l_Rank := rank\<rparr>"

text \<open>
  The two operations that print on the terminal, whose text is a state of its own here. \<open>msg\<close> is what \<open>vprintf\<close>
  makes of the format and its arguments; its count is the value.
\<close>

definition LogMyprintf :: "('w \<Rightarrow> tm) \<Rightarrow> string \<Rightarrow> int \<Rightarrow> string \<Rightarrow> 'w \<times> string \<Rightarrow> int \<times> 'w \<times> string" where
  "LogMyprintf now file line msg = (\<lambda>(w, out).
     (int (length msg),
      w, out @ getfulltime (now w) @ ''  File:'' @ file @ ''#####Line:'' @ show_int line @ ''  '' @ msg @ [CTRL_N]))"

definition LogPrintfLogRank :: "CLog \<Rightarrow> string \<Rightarrow> string" where
  "LogPrintfLogRank l out = out @ ''m_Rank='' @ show_nat (rank_num (l_Rank l)) @ [CTRL_N]"

text \<open>After a failed write the stream is closed, and the member keeps its value.\<close>

definition log_failed :: "'w stdio \<Rightarrow> nat \<Rightarrow> 'w logstate \<Rightarrow> (bool \<times> 'w logstate) option" where
  "log_failed F h = (\<lambda>(w, l). do { w \<leftarrow> f_close F h w; Some (False, w, l) })"

text \<open>
  The mutex makes a call atomic (see \<open>Sections\<close>). \<open>msg\<close> is the text that \<open>vfprintf\<close> makes of the format and its arguments;
  the result of making the directory is not looked at.
\<close>

definition write_d :: "'w stdio \<Rightarrow> ('w \<Rightarrow> tm) \<Rightarrow> LOG_RANK \<Rightarrow> string \<Rightarrow> int \<Rightarrow> string \<Rightarrow> 'w logstate \<Rightarrow> (bool \<times> 'w logstate) option" where
  "write_d F now rank file line msg st =
     (if rank_num rank < rank_num (l_Rank (snd st)) then Some (False, st)
      else
        do { (_, w, l) \<leftarrow> LogCreatLogDir F now st;
             h \<leftarrow> l_pFile l;
             (ok, w) \<leftarrow> f_print F h (getfulltime (now w) @ '' '' @ rank_text rank @ '' '' @ file @ '':'' @ show_int line @ '' '') w;
             if \<not> ok then log_failed F h (w, l)
             else
               do { (ok, w) \<leftarrow> f_print F h msg w;
                    if \<not> ok then log_failed F h (w, l)
                    else do { (_, w) \<leftarrow> f_print F h [CTRL_N] w; Some (True, w, l) } } })"

section \<open>Making directories\<close>

text \<open>The components of a path; empty ones, as between two slashes, do not count.\<close>

definition parts :: "string \<Rightarrow> string list" where
  "parts p = filter (\<lambda>c. c \<noteq> []) (split_on (CHR ''/'') p)"

text \<open>
  What is documented of \<open>access\<close> and \<open>mkdir\<close>, over the set of existing paths; and that a missing
  directory whose parent exists can be made.
\<close>

definition tree :: "'w stdio \<Rightarrow> ('w \<Rightarrow> string list set) \<Rightarrow> bool" where
  "tree F nodes \<longleftrightarrow>
     (\<forall>p w. f_access F p w \<longleftrightarrow> parts p \<in> nodes w) \<and>
     (\<forall>p w. nodes (snd (f_mkdir F p w)) = (if fst (f_mkdir F p w) then insert (parts p) (nodes w) else nodes w))"

definition may_create :: "'w stdio \<Rightarrow> ('w \<Rightarrow> string list set) \<Rightarrow> bool" where
  "may_create F nodes \<longleftrightarrow> (\<forall>p w. parts p \<notin> nodes w \<longrightarrow> butlast (parts p) \<in> nodes w \<longrightarrow> fst (f_mkdir F p w))"

lemma split_on_delim: "split_on d (a @ d # b) = split_on d a @ split_on d b"
  by (induction a) (auto split: list.split)

lemma parts_slash: "parts (a @ CHR ''/'' # b) = parts a @ parts b"
  by (simp add: parts_def split_on_delim)

lemma parts_plain: "CHR ''/'' \<notin> set c \<Longrightarrow> parts c = (if c = [] then [] else [c])"
  by (simp add: parts_def)

lemma parts_name: "CHR ''/'' \<notin> set c \<Longrightarrow> d = [] \<or> last d = CHR ''/'' \<Longrightarrow> parts (d @ c) = parts d @ (if c = [] then [] else [c])"
proof -
  assume c: "CHR ''/'' \<notin> set c" and d: "d = [] \<or> last d = CHR ''/''"
  show ?thesis
  proof (cases "d = []")
    case False
    then have "d = butlast d @ [CHR ''/'']" using d by (metis append_butlast_last_id)
    then have "parts (d @ c) = parts (butlast d) @ parts c" "parts d = parts (butlast d) @ parts []"
      using parts_slash [of "butlast d" c] parts_slash [of "butlast d" "[]"] by (metis append.assoc append_Cons append_Nil)+
    then show ?thesis using c by (simp add: parts_plain)
  qed (simp add: c parts_plain parts_plain [of "[]"])
qed

lemma prefixes_one: "set (prefixes (xs @ (if c then [] else [x]))) = insert (xs @ (if c then [] else [x])) (set (prefixes xs))"
  by (auto simp: prefix_def)

lemma make_missing_tree:
  assumes "tree F nodes" "make_missing F p w = (ok, w')"
  shows "nodes w' = (if ok then insert (parts p) (nodes w) else nodes w)"
    "may_create F nodes \<Longrightarrow> butlast (parts p) \<in> nodes w \<Longrightarrow> ok"
proof -
  have acc: "f_access F p w \<longleftrightarrow> parts p \<in> nodes w"
    and mk: "nodes (snd (f_mkdir F p w)) = (if fst (f_mkdir F p w) then insert (parts p) (nodes w) else nodes w)"
    using assms(1) by (simp_all add: tree_def)
  show "nodes w' = (if ok then insert (parts p) (nodes w) else nodes w)"
    using assms(2) acc mk by (auto simp: make_missing_def FileBeExists_def insert_absorb split: if_splits)
  show "may_create F nodes \<Longrightarrow> butlast (parts p) \<in> nodes w \<Longrightarrow> ok"
    using assms(2) acc by (force simp: may_create_def make_missing_def FileBeExists_def split: if_splits)
qed

lemma butlast_prefix: "butlast (xs @ (if c then [] else [x])) \<in> set (prefixes xs)"
  by (auto simp: prefixeq_butlast)

text \<open>The loop, between two slashes: the directories above the current name are there.\<close>

lemma creat_loop_tree:
  assumes "tree F nodes" "CHR ''/'' \<notin> set c" "d = [] \<or> last d = CHR ''/''" "set (prefixes (parts d)) \<subseteq> nodes w"
    "creat_loop F (d @ c) rest w = (ok, w')"
  shows "nodes w \<subseteq> nodes w' \<and> nodes w' \<subseteq> nodes w \<union> set (prefixes (parts (d @ c @ rest))) \<and>
    (ok \<longrightarrow> set (prefixes (parts (d @ c @ rest))) \<subseteq> nodes w') \<and> (may_create F nodes \<longrightarrow> ok)"
  using assms(2-5)
proof (induction rest arbitrary: d c w)
  case Nil
  have p: "parts (d @ c) = parts d @ (if c = [] then [] else [c])" using parts_name Nil(1,2) by blast
  have m: "make_missing F (d @ c) w = (ok, w')" using Nil(4) by simp
  note make_missing_tree [OF assms(1) m]
  moreover have "butlast (parts (d @ c)) \<in> nodes w" unfolding p by (rule subsetD [OF Nil(3) butlast_prefix])
  ultimately show ?case using Nil(3) unfolding append_Nil2 p prefixes_one by auto
next
  case (Cons x rest)
  show ?case
  proof (cases "x = CHR ''/''")
    case True
    let ?d = "d @ c @ [x]"
    obtain ok1 w1 where m: "make_missing F ?d w = (ok1, w1)" by fastforce
    have p: "parts ?d = parts d @ (if c = [] then [] else [c])"
      using parts_slash [of "d @ c" "[]"] parts_name [OF Cons.prems(1,2)] parts_plain [of "[]"] by (simp add: True)
    have up: "parts (?d @ rest) = parts ?d @ parts rest" using parts_slash [of "d @ c" rest] p parts_name [OF Cons.prems(1,2)] by (simp add: True)
    have sub: "set (prefixes (parts ?d)) \<subseteq> set (prefixes (parts (?d @ rest)))" unfolding up by (auto simp: prefix_def)
    have in_d: "parts ?d \<in> set (prefixes (parts ?d))" by simp
    have b: "butlast (parts ?d) \<in> nodes w" unfolding p by (rule subsetD [OF Cons.prems(3) butlast_prefix])
    note t = make_missing_tree [OF assms(1) m]
    show ?thesis
    proof (cases ok1)
      case False
      then have "ok = ok1" "w' = w1" using Cons.prems(4) m True by auto
      then show ?thesis using t b False by auto
    next
      case ok1: True
      have "set (prefixes (parts ?d)) \<subseteq> nodes w1" using t(1) ok1 Cons.prems(3) unfolding p prefixes_one by auto
      moreover have "creat_loop F (?d @ []) rest w1 = (ok, w')" using Cons.prems(4) m True ok1 by auto
      ultimately have "nodes w1 \<subseteq> nodes w' \<and> nodes w' \<subseteq> nodes w1 \<union> set (prefixes (parts (?d @ [] @ rest))) \<and>
          (ok \<longrightarrow> set (prefixes (parts (?d @ [] @ rest))) \<subseteq> nodes w') \<and> (may_create F nodes \<longrightarrow> ok)"
        using Cons.IH [of "[]" ?d w1] True by simp
      moreover have "nodes w1 = insert (parts ?d) (nodes w)" using t(1) ok1 by simp
      ultimately show ?thesis using sub in_d by auto
    qed
  next
    case False
    then have "creat_loop F (d @ (c @ [x])) rest w = (ok, w')" using Cons.prems(4) by simp
    then show ?thesis using Cons.IH [of "c @ [x]" d w] Cons.prems(1-3) False by simp
  qed
qed

lemma creat_loop_path:
  assumes "tree F nodes" "[] \<in> nodes w" "creat_loop F [] p w = (ok, w')"
  shows "if ok then nodes w' = nodes w \<union> set (prefixes (parts p))
         else nodes w \<subseteq> nodes w' \<and> nodes w' \<subseteq> nodes w \<union> set (prefixes (parts p))"
    "may_create F nodes \<Longrightarrow> ok"
  using creat_loop_tree [of F nodes "[]" "[]" w p ok w'] assms parts_plain [of "[]"] by (auto split: if_splits)

text \<open>The contract that \<open>CFile\<close> and \<open>CLOGFile\<close> share.\<close>

locale dir_tools =
  fixes be_exists :: "'w stdio \<Rightarrow> string \<Rightarrow> 'w \<Rightarrow> bool" and creat_dir :: "'w stdio \<Rightarrow> string \<Rightarrow> 'w \<Rightarrow> bool \<times> 'w"
  assumes exists_iff: "tree F nodes \<Longrightarrow> be_exists F p w \<longleftrightarrow> parts p \<in> nodes w"
    and creat_nodes: "tree F nodes \<Longrightarrow> [] \<in> nodes w \<Longrightarrow> creat_dir F p w = (ok, w') \<Longrightarrow>
      if ok then nodes w' = nodes w \<union> set (prefixes (parts p))
      else nodes w \<subseteq> nodes w' \<and> nodes w' \<subseteq> nodes w \<union> set (prefixes (parts p))"
    and creat_succeeds: "tree F nodes \<Longrightarrow> [] \<in> nodes w \<Longrightarrow> may_create F nodes \<Longrightarrow> creat_dir F p w = (ok, w') \<Longrightarrow> ok"
begin

lemma exists_after_creat:
  assumes "tree F nodes" "[] \<in> nodes w" "creat_dir F p w = (True, w')"
  shows "be_exists F p w'" and "be_exists F q w \<Longrightarrow> be_exists F q w'"
  using creat_nodes [OF assms] exists_iff [OF assms(1)] by auto

lemma creates_path:
  assumes "tree F nodes" "[] \<in> nodes w" "may_create F nodes"
  shows "\<exists>w'. creat_dir F p w = (True, w') \<and> nodes w' = nodes w \<union> set (prefixes (parts p)) \<and> be_exists F p w'"
proof -
  obtain ok w' where c: "creat_dir F p w = (ok, w')" by fastforce
  with creat_succeeds [OF assms] have ok by blast
  with c have c: "creat_dir F p w = (True, w')" by simp
  show ?thesis using c creat_nodes [OF assms(1,2) c] exists_after_creat(1) [OF assms(1,2) c] by simp
qed

end

interpretation file_tools: dir_tools FileBeExists FileCreatDir
proof (unfold_locales, goal_cases)
  case (1 F nodes p w)
  then show ?case by (simp add: FileBeExists_def tree_def)
next
  case (2 F nodes w p ok w')
  then show ?case unfolding FileCreatDir_def by (rule creat_loop_path(1))
next
  case (3 F nodes w p ok w')
  then show ?case unfolding FileCreatDir_def using creat_loop_path(2) [of F nodes w p ok w'] by blast
qed

interpretation log_tools: dir_tools LogFileBeExists LogFileCreatDir
  using file_tools.dir_tools_axioms unfolding FileBeExists_def FileCreatDir_def LogFileBeExists_def LogFileCreatDir_def .

text \<open>The two classes agree on every operation.\<close>

lemma log_file_copies:
  "LogFileBeExists = FileBeExists" "LogFileCreatDir = FileCreatDir" "LogFileListDirs = FileListDirs" "LogFileListFiles = FileListFiles"
  "LogFileReadFile = FileReadFile" "LogFileReadFile_len = FileReadFile_len" "LogFileWriteFile = FileWriteFile"
  "LogFileGetFileLength = FileGetFileLength" "LogFileRemoveFile = FileRemoveFile"
  unfolding LogFileBeExists_def FileBeExists_def LogFileCreatDir_def FileCreatDir_def LogFileListDirs_def FileListDirs_def
    LogFileListFiles_def FileListFiles_def LogFileReadFile_def FileReadFile_def LogFileReadFile_len_def FileReadFile_len_def
    LogFileWriteFile_def FileWriteFile_def LogFileGetFileLength_def FileGetFileLength_def LogFileRemoveFile_def FileRemoveFile_def
  by simp_all

section \<open>Streams\<close>

text \<open>
  What is documented of \<open>fprintf\<close> on streams opened for appending, over the text of every file and the
  file of every open stream; listing and testing are not affected.
\<close>

definition streams :: "'w stdio \<Rightarrow> (string \<Rightarrow> 'w \<Rightarrow> string) \<Rightarrow> (nat \<Rightarrow> 'w \<Rightarrow> string option) \<Rightarrow> bool" where
  "streams F content handle \<longleftrightarrow>
     (\<forall>h s w. f_print F h s w = None \<longleftrightarrow> handle h w = None) \<and>
     (\<forall>h s w ok w'. f_print F h s w = Some (ok, w') \<longrightarrow>
        (\<forall>k. handle k w' = handle k w) \<and> (\<forall>p. f_access F p w' = f_access F p w \<and> f_list F p w' = f_list F p w)) \<and>
     (\<forall>h s w w' p. handle h w = Some p \<longrightarrow> f_print F h s w = Some (True, w') \<longrightarrow>
        (\<forall>q. content q w' = (if q = p then content q w @ s else content q w)))"

definition never_fails :: "'w stdio \<Rightarrow> bool" where
  "never_fails F \<longleftrightarrow> (\<forall>h s w w'. f_print F h s w \<noteq> Some (False, w'))"

lemma print_appends:
  assumes "streams F content handle" "never_fails F" "handle h w = Some p"
  obtains w' where "f_print F h s w = Some (True, w')" "content p w' = content p w @ s" "\<And>k. handle k w' = handle k w"
    "\<And>q. f_access F q w' = f_access F q w" "\<And>q. f_list F q w' = f_list F q w"
proof -
  from assms(1,3) have "f_print F h s w \<noteq> None" by (simp add: streams_def)
  then obtain ok w' where pr: "f_print F h s w = Some (ok, w')" by fastforce
  with assms(2) have ok by (cases ok) (auto simp: never_fails_def)
  with pr have pr: "f_print F h s w = Some (True, w')" by simp
  from assms(1) have "handle k w' = handle k w" "f_access F q w' = f_access F q w" "f_list F q w' = f_list F q w" for k q
    using pr unfolding streams_def by blast+
  moreover from assms(1,3) pr have "content p w' = content p w @ s" unfolding streams_def by fastforce
  ultimately show thesis using that pr by blast
qed

section \<open>The log\<close>

text \<open>A log that writes to \<open>p\<close>, with its directory of the day in place.\<close>

definition log_ready :: "'w stdio \<Rightarrow> (nat \<Rightarrow> 'w \<Rightarrow> string option) \<Rightarrow> string \<Rightarrow> string \<Rightarrow> 'w logstate \<Rightarrow> bool" where
  "log_ready F handle date p st \<longleftrightarrow>
     (let dir = l_pszPathName (snd st) @ ''/'' @ date
      in f_access F dir (fst st) \<and> (\<exists>es. f_list F dir (fst st) = Some es \<and> DT_REG \<in> fst ` set es) \<and>
         (\<exists>h. l_pFile (snd st) = Some h \<and> handle h (fst st) = Some p))"

definition log_line :: "tm \<Rightarrow> LOG_RANK \<times> string \<times> int \<times> string \<Rightarrow> string" where
  "log_line t = (\<lambda>(rank, file, line, msg).
     getfulltime t @ '' '' @ rank_text rank @ '' '' @ file @ '':'' @ show_int line @ '' '' @ msg @ [CTRL_N])"

fun write_all :: "'w stdio \<Rightarrow> ('w \<Rightarrow> tm) \<Rightarrow> (LOG_RANK \<times> string \<times> int \<times> string) list \<Rightarrow> 'w logstate \<Rightarrow> 'w logstate option" where
  "write_all F now [] st = Some st"
| "write_all F now ((rank, file, line, msg) # es) st = do { (_, st) \<leftarrow> write_d F now rank file line msg st; write_all F now es st }"

lemma ready_dir:
  assumes "log_ready F handle date p (w, l)" "LogGetDate (now w) = Some date"
  shows "\<exists>n. LogCreatLogDir F now (w, l) = Some (True, w, l\<lparr>m_iLogFileId := n\<rparr>)"
proof -
  let ?dir = "l_pszPathName l @ ''/'' @ date"
  from assms(1) obtain es h where r: "f_access F ?dir w" "f_list F ?dir w = Some es" "DT_REG \<in> fst ` set es" "l_pFile l = Some h"
    by (auto simp: log_ready_def Let_def)
  then have "filter (\<lambda>(t, n). t = DT_REG) es \<noteq> []" by (fastforce simp: filter_empty_conv)
  then show ?thesis using r assms(2)
    by (intro exI [of _ "int (length (filter (\<lambda>(t, n). t = DT_REG) es))"]) (simp add: LogCreatLogDir_def log_day_def log_open_def LogFileBeExists_def LogFileListFiles_def dir_entries_def FileBeExists_def)
qed

lemma write_d_appends:
  assumes "streams F content handle" "never_fails F" "log_ready F handle date p (w, l)" "LogGetDate (now w) = Some date"
    "rank_num (l_Rank l) \<le> rank_num rank"
  shows "\<exists>w' n. write_d F now rank file line msg (w, l) = Some (True, w', l\<lparr>m_iLogFileId := n\<rparr>) \<and>
    log_ready F handle date p (w', l\<lparr>m_iLogFileId := n\<rparr>) \<and> content p w' = content p w @ log_line (now w) (rank, file, line, msg)"
proof -
  from ready_dir [where now = now, OF assms(3,4)] obtain n where d: "LogCreatLogDir F now (w, l) = Some (True, w, l\<lparr>m_iLogFileId := n\<rparr>)" by blast
  from assms(3) obtain h where h: "l_pFile l = Some h" "handle h w = Some p" by (auto simp: log_ready_def Let_def)
  let ?head = "getfulltime (now w) @ '' '' @ rank_text rank @ '' '' @ file @ '':'' @ show_int line @ '' ''"
  obtain w1 where w1: "f_print F h ?head w = Some (True, w1)" "content p w1 = content p w @ ?head" "\<And>k. handle k w1 = handle k w"
    "\<And>q. f_access F q w1 = f_access F q w" "\<And>q. f_list F q w1 = f_list F q w"
    using print_appends [OF assms(1,2) h(2), of ?head] by metis
  obtain w2 where w2: "f_print F h msg w1 = Some (True, w2)" "content p w2 = content p w1 @ msg" "\<And>k. handle k w2 = handle k w1"
    "\<And>q. f_access F q w2 = f_access F q w1" "\<And>q. f_list F q w2 = f_list F q w1"
    using print_appends [OF assms(1,2), of h w1 p msg] h(2) w1(3) by metis
  obtain w3 where w3: "f_print F h [CTRL_N] w2 = Some (True, w3)" "content p w3 = content p w2 @ [CTRL_N]" "\<And>k. handle k w3 = handle k w2"
    "\<And>q. f_access F q w3 = f_access F q w2" "\<And>q. f_list F q w3 = f_list F q w2"
    using print_appends [OF assms(1,2), of h w2 p "[CTRL_N]"] h(2) w1(3) w2(3) by metis
  have "write_d F now rank file line msg (w, l) = Some (True, w3, l\<lparr>m_iLogFileId := n\<rparr>)"
    using assms(5) d h w1(1) w2(1) w3(1) by (simp add: write_d_def)
  moreover have "content p w3 = content p w @ log_line (now w) (rank, file, line, msg)"
    using w1(2) w2(2) w3(2) by (simp add: log_line_def)
  moreover have "log_ready F handle date p (w3, l\<lparr>m_iLogFileId := n\<rparr>)"
    using assms(3) h by (simp add: log_ready_def Let_def w1(3-5) w2(3-5) w3(3-5))
  ultimately show ?thesis by blast
qed

lemma write_all_appends:
  assumes "streams F content handle" "never_fails F" "\<forall>w. LogGetDate (now w) = Some date" "log_ready F handle date p (w, l)"
  shows "\<exists>w' n ts. write_all F now es (w, l) = Some (w', l\<lparr>m_iLogFileId := n\<rparr>) \<and>
    length ts = length (filter (\<lambda>e. rank_num (l_Rank l) \<le> rank_num (fst e)) es) \<and> set ts \<subseteq> range now \<and>
    content p w' = content p w @ concat (map2 log_line ts (filter (\<lambda>e. rank_num (l_Rank l) \<le> rank_num (fst e)) es))"
  using assms(4)
proof (induction es arbitrary: w l)
  case Nil
  show ?case by (intro exI [of _ w] exI [of _ "m_iLogFileId l"] exI [of _ "[]"]) simp
next
  case (Cons e es)
  obtain rank src ln msg where e: "e = (rank, src, ln, msg)" by (cases e)
  show ?case
  proof (cases "rank_num (l_Rank l) \<le> rank_num rank")
    case True
    obtain w1 n1 where w1: "write_d F now rank src ln msg (w, l) = Some (True, w1, l\<lparr>m_iLogFileId := n1\<rparr>)"
      "log_ready F handle date p (w1, l\<lparr>m_iLogFileId := n1\<rparr>)" "content p w1 = content p w @ log_line (now w) e"
      using write_d_appends [where now = now, OF assms(1,2) Cons.prems _ True] assms(3) e by metis
    from Cons.IH [OF w1(2)] obtain w' n ts where
      "write_all F now es (w1, l\<lparr>m_iLogFileId := n1\<rparr>) = Some (w', l\<lparr>m_iLogFileId := n\<rparr>)"
      "length ts = length (filter (\<lambda>e. rank_num (l_Rank l) \<le> rank_num (fst e)) es)" "set ts \<subseteq> range now"
      "content p w' = content p w1 @ concat (map2 log_line ts (filter (\<lambda>e. rank_num (l_Rank l) \<le> rank_num (fst e)) es))"
      by auto
    with w1 True e show ?thesis by (intro exI [of _ w'] exI [of _ n] exI [of _ "now w # ts"]) simp
  next
    case False
    then have "write_d F now rank src ln msg (w, l) = Some (False, w, l)" by (simp add: write_d_def)
    with Cons.IH [OF Cons.prems] False e show ?thesis by simp
  qed
qed

section \<open>A file system in memory\<close>

record memfs =
  mem_nodes :: "string list set"
  mem_list :: "string \<Rightarrow> (d_type \<times> string) list"
  mem_text :: "string \<Rightarrow> string"
  mem_streams :: "string option list"
  mem_full :: bool

definition mem_handle :: "nat \<Rightarrow> memfs \<Rightarrow> string option" where
  "mem_handle h m = (if h < length (mem_streams m) then mem_streams m ! h else None)"

text \<open>Opening for reading or appending leaves the text; a missing file is made where its directory is.\<close>

definition mem_stdio :: "memfs stdio" where
  "mem_stdio =
     \<lparr>f_access = (\<lambda>p m. parts p \<in> mem_nodes m),
      f_mkdir = (\<lambda>p m. if parts p \<notin> mem_nodes m \<and> butlast (parts p) \<in> mem_nodes m
                       then (True, m\<lparr>mem_nodes := insert (parts p) (mem_nodes m)\<rparr>) else (False, m)),
      f_list = (\<lambda>p m. Some (mem_list m p)),
      f_open = (\<lambda>p mode m. if butlast (parts p) \<in> mem_nodes m
         then (Some (length (mem_streams m)),
               m\<lparr>mem_nodes := insert (parts p) (mem_nodes m), mem_streams := mem_streams m @ [Some p],
                 mem_text := if mode = ''w'' then (mem_text m)(p := []) else mem_text m\<rparr>)
         else (None, m)),
      f_close = (\<lambda>h m. if mem_handle h m = None then None else Some (m\<lparr>mem_streams := (mem_streams m)[h := None]\<rparr>)),
      f_print = (\<lambda>h s m. case mem_handle h m of
         None \<Rightarrow> None
       | Some p \<Rightarrow> Some (if mem_full m then (False, m) else (True, m\<lparr>mem_text := (mem_text m)(p := mem_text m p @ s)\<rparr>))),
      f_write = (\<lambda>h s m. case mem_handle h m of
         None \<Rightarrow> None
       | Some p \<Rightarrow> Some (if s = [] then (0, m) else (1, m\<lparr>mem_text := (mem_text m)(p := mem_text m p @ s)\<rparr>))),
      f_length = (\<lambda>h m. case mem_handle h m of None \<Rightarrow> 0 | Some p \<Rightarrow> length (mem_text m p)),
      f_read = (\<lambda>h n m. (case mem_handle h m of None \<Rightarrow> [] | Some p \<Rightarrow> take n (mem_text m p), m)),
      f_remove = (\<lambda>p m. if parts p \<in> mem_nodes m then (True, m\<lparr>mem_nodes := mem_nodes m - {parts p}\<rparr>) else (False, m)),
      f_size = (\<lambda>p m. if parts p \<in> mem_nodes m then Some (length (mem_text m p)) else None)\<rparr>"

lemma mem_tree: "tree mem_stdio mem_nodes"
  by (simp add: tree_def mem_stdio_def)

lemma mem_may_create: "may_create mem_stdio mem_nodes"
  by (simp add: may_create_def mem_stdio_def)

section \<open>Theorems\<close>



text \<open>
  C19. The log of a day: as long as the date stays and writing works, any sequence of calls appends one
  line per call of sufficient rank to the file of the day, whole and in order, and nothing for the
  others.
\<close>

theorem log_appends_lines:
  assumes "streams F content handle" "never_fails F" "\<forall>w. LogGetDate (now w) = Some date" "log_ready F handle date p (w, l)"
  shows "\<exists>w' n ts. write_all F now es (w, l) = Some (w', l\<lparr>m_iLogFileId := n\<rparr>) \<and>
    length ts = length (filter (\<lambda>e. rank_num (l_Rank l) \<le> rank_num (fst e)) es) \<and> set ts \<subseteq> range now \<and>
    content p w' = content p w @ concat (map2 log_line ts (filter (\<lambda>e. rank_num (l_Rank l) \<le> rank_num (fst e)) es))"
  by (rule write_all_appends [OF assms])

text \<open>A log on the file system in memory, in a directory that holds its file; \<open>full\<close> makes writing fail.\<close>

definition mem_log :: "bool \<Rightarrow> memfs logstate" where
  "mem_log full =
     (\<lparr>mem_nodes = {[], [''.''], [''.'', ''logs''], [''.'', ''logs'', ''20160705''], [''.'', ''logs'', ''20160705'', ''gw0'']},
       mem_list = (\<lambda>_. [(DT_REG, ''gw0'')]), mem_text = (\<lambda>_. []), mem_streams = [Some ''./logs/20160705/gw0''], mem_full = full\<rparr>,
      \<lparr>l_pszFileName = ''gw'', l_pszPathName = ''./logs'', l_Rank = WARNING, l_pFile = Some 0, m_iLogFileId = 1, m_iLogFileLine = 1,
       m_iLimit = 100000\<rparr>)"

lemma mem_log_ready: "log_ready mem_stdio mem_handle ''20160705'' ''./logs/20160705/gw0'' (mem_log full)"
  by (simp add: log_ready_def mem_log_def mem_stdio_def mem_handle_def parts_def)

text \<open>The same file system with room for every text.\<close>

definition roomy_stdio :: "memfs stdio" where
  "roomy_stdio = mem_stdio\<lparr>f_print := (\<lambda>h s m. f_print mem_stdio h s (m\<lparr>mem_full := False\<rparr>))\<rparr>"

lemma roomy_print:
  "f_print roomy_stdio h s m = map_option (\<lambda>p. (True, m\<lparr>mem_text := (mem_text m)(p := mem_text m p @ s), mem_full := False\<rparr>)) (mem_handle h m)"
  by (auto simp: roomy_stdio_def mem_stdio_def mem_handle_def split: option.split)

lemma mem_handle_updates [simp]:
  "mem_handle k (m\<lparr>mem_text := f, mem_full := b\<rparr>) = mem_handle k m"
  by (simp add: mem_handle_def)

lemma roomy_streams: "streams roomy_stdio (\<lambda>p m. mem_text m p) mem_handle"
  unfolding streams_def roomy_print by (auto simp: roomy_stdio_def mem_stdio_def)

lemma roomy_never_fails: "never_fails roomy_stdio"
  by (simp add: never_fails_def roomy_print)

lemma sample_log_date: "LogGetDate sample_tm = Some ''20160705''"
  by code_simp

theorem log_appends_lines_witness:
  "\<exists>w' l'. write_all roomy_stdio (\<lambda>_. sample_tm) [(DEBUG, ''a.cpp'', 7, ''x''), (ERROR, ''b.cpp'', 12, ''no route'')] (mem_log False) = Some (w', l') \<and>
     mem_text w' ''./logs/20160705/gw0'' = ''2016-07-05 09:30:00 ERROR b.cpp:12 no route'' @ [CTRL_N]"
proof -
  let ?es = "[(DEBUG, ''a.cpp'', 7 :: int, ''x''), (ERROR, ''b.cpp'', 12, ''no route'')]" and ?p = "''./logs/20160705/gw0''"
  obtain w l where wl: "mem_log False = (w, l)" by fastforce
  then have l: "l_Rank l = WARNING" "mem_text w ?p = []" by (auto simp: mem_log_def)
  have "log_ready roomy_stdio mem_handle ''20160705'' ?p (w, l)"
    using mem_log_ready [of False] unfolding wl by (simp add: log_ready_def roomy_stdio_def)
  moreover have "\<forall>w::memfs. LogGetDate ((\<lambda>_. sample_tm) w) = Some ''20160705''" by (simp add: sample_log_date)
  ultimately obtain w' n ts where w':
    "write_all roomy_stdio (\<lambda>_. sample_tm) ?es (w, l) = Some (w', l\<lparr>m_iLogFileId := n\<rparr>)"
    "length ts = length (filter (\<lambda>e. rank_num (l_Rank l) \<le> rank_num (fst e)) ?es)" "set ts \<subseteq> range (\<lambda>_::memfs. sample_tm)"
    "mem_text w' ?p = mem_text w ?p @ concat (map2 log_line ts (filter (\<lambda>e. rank_num (l_Rank l) \<le> rank_num (fst e)) ?es))"
    using log_appends_lines [OF roomy_streams roomy_never_fails, of "\<lambda>_. sample_tm" "''20160705''" ?p w l ?es] by blast
  then have "ts = [sample_tm]" by (auto simp: l length_Suc_conv)
  with w'(4) have "mem_text w' ?p = log_line sample_tm (ERROR, ''b.cpp'', 12, ''no route'')" by (simp add: l)
  also have "\<dots> = ''2016-07-05 09:30:00 ERROR b.cpp:12 no route'' @ [CTRL_N]" by code_simp
  finally show ?thesis using w'(1) wl by auto
qed

text \<open>
  C34. A failed write leaves the log unusable: the stream is closed but kept, and the next call of the same
  day that has to write uses the closed stream.
\<close>

theorem log_closed_after_error:
  assumes "streams F content handle" "log_ready F handle date p (w, l)" "\<forall>w. LogGetDate (now w) = Some date"
    "l_pFile l = Some h" "\<forall>s. \<exists>w'. f_print F h s w = Some (False, w')"
    "\<forall>w w' k q. f_close F k w = Some w' \<longrightarrow> handle k w' = None \<and> f_access F q w' = f_access F q w \<and> f_list F q w' = f_list F q w"
    "\<forall>w k. handle k w \<noteq> None \<longrightarrow> f_close F k w \<noteq> None"
    "rank_num (l_Rank l) \<le> rank_num rank" "rank_num (l_Rank l) \<le> rank_num rank'"
  shows "\<exists>w' l'. write_d F now rank file line msg (w, l) = Some (False, w', l') \<and> l_pFile l' = Some h \<and> handle h w' = None \<and>
    write_d F now rank' file' line' msg' (w', l') = None"
proof -
  from ready_dir [where now = now, OF assms(2)] assms(3) obtain n where
    d: "LogCreatLogDir F now (w, l) = Some (True, w, l\<lparr>m_iLogFileId := n\<rparr>)" by blast
  let ?head = "getfulltime (now w) @ '' '' @ rank_text rank @ '' '' @ file @ '':'' @ show_int line @ '' ''" and ?l = "l\<lparr>m_iLogFileId := n\<rparr>"
  from assms(5) obtain w1 where w1: "f_print F h ?head w = Some (False, w1)" by blast
  then have same: "handle k w1 = handle k w" "f_access F q w1 = f_access F q w" "f_list F q w1 = f_list F q w" for k q
    using assms(1) unfolding streams_def by blast+
  have "handle h w1 \<noteq> None" using assms(2,4) same(1) by (auto simp: log_ready_def Let_def)
  then obtain w2 where w2: "f_close F h w1 = Some w2" using assms(7) by blast
  then have gone: "handle h w2 = None" "f_access F q w2 = f_access F q w" "f_list F q w2 = f_list F q w" for q
    using assms(6) [rule_format, OF w2, of q] same(2,3) [of q] by simp_all
  have "write_d F now rank file line msg (w, l) = Some (False, w2, ?l)"
    using assms(4,8) d w1 w2 by (simp add: write_d_def log_failed_def)
  moreover from assms(2) have "log_ready F (\<lambda>k _. handle k w) date p (w2, ?l)"
    by (auto simp: log_ready_def Let_def gone(2,3))
  then obtain n' where "LogCreatLogDir F now (w2, ?l) = Some (True, w2, ?l\<lparr>m_iLogFileId := n'\<rparr>)"
    using ready_dir [where now = now, of F _ date p w2 ?l] assms(3) by blast
  moreover have "f_print F h s w2 = None" for s using gone(1) assms(1) by (simp add: streams_def)
  ultimately show ?thesis using assms(4,9) gone(1) by (simp add: write_d_def)
qed

lemma mem_streams_ok: "streams mem_stdio (\<lambda>p m. mem_text m p) mem_handle"
  unfolding streams_def mem_stdio_def by (auto simp: mem_handle_def split: option.splits if_splits)

theorem log_closed_after_error_witness:
  "\<exists>w' l'. write_d mem_stdio (\<lambda>_. sample_tm) ERROR ''b.cpp'' 12 ''no route'' (mem_log True) = Some (False, w', l') \<and>
     write_d mem_stdio (\<lambda>_. sample_tm) ERROR ''b.cpp'' 12 ''no route'' (w', l') = None"
proof -
  obtain w l where wl: "mem_log True = (w, l)" by fastforce
  then have l: "l_Rank l = WARNING" "l_pFile l = Some 0" "mem_full w" "mem_handle 0 w = Some ''./logs/20160705/gw0''"
    by (auto simp: mem_log_def mem_handle_def)
  have "log_ready mem_stdio mem_handle ''20160705'' ''./logs/20160705/gw0'' (w, l)" using mem_log_ready [of True] unfolding wl .
  moreover have "\<forall>s. \<exists>w'. f_print mem_stdio 0 s w = Some (False, w')" using l by (simp add: mem_stdio_def)
  moreover have "\<forall>w w' k q. f_close mem_stdio k w = Some w' \<longrightarrow>
      mem_handle k w' = None \<and> f_access mem_stdio q w' = f_access mem_stdio q w \<and> f_list mem_stdio q w' = f_list mem_stdio q w"
    by (auto simp: mem_stdio_def mem_handle_def split: if_splits)
  moreover have "\<forall>w k. mem_handle k w \<noteq> None \<longrightarrow> f_close mem_stdio k w \<noteq> None" by (simp add: mem_stdio_def)
  ultimately show ?thesis
    using log_closed_after_error [OF mem_streams_ok, of "''20160705''" "''./logs/20160705/gw0''" w l "\<lambda>_. sample_tm" 0 ERROR ERROR
      "''b.cpp''" 12 "''no route''" "''b.cpp''" 12 "''no route''"] l sample_log_date
    unfolding wl by auto
qed

end
