(* ===== verification/Mysql.thy ===== *)
theory Mysql
  imports Task "HOL-Library.Monad_Syntax"
begin

text \<open>
  The MySQL client \<open>src/CommonTools/Mysql/mysqlClient.cpp\<close>.

  The MySQL library is a parameter, a record of its calls over the world; handles and results are
  numbers. \<open>None\<close> is a crash (a null pointer), an overrun, or a loop that does not end.
\<close>

section \<open>The MySQL client\<close>

text \<open>The types and the flag of \<open>mysql.h\<close> and \<open>mysql_com.h\<close> that the client looks at; types have gaps in their numbers.\<close>

datatype enum_field_types =
    MYSQL_TYPE_DECIMAL | MYSQL_TYPE_TINY | MYSQL_TYPE_SHORT | MYSQL_TYPE_LONG | MYSQL_TYPE_FLOAT | MYSQL_TYPE_DOUBLE
  | MYSQL_TYPE_NULL | MYSQL_TYPE_TIMESTAMP | MYSQL_TYPE_LONGLONG | MYSQL_TYPE_INT24 | MYSQL_TYPE_DATE | MYSQL_TYPE_TIME
  | MYSQL_TYPE_DATETIME | MYSQL_TYPE_YEAR | MYSQL_TYPE_NEWDATE | MYSQL_TYPE_VARCHAR | MYSQL_TYPE_BIT
  | MYSQL_TYPE_NEWDECIMAL | MYSQL_TYPE_ENUM | MYSQL_TYPE_SET | MYSQL_TYPE_TINY_BLOB | MYSQL_TYPE_MEDIUM_BLOB
  | MYSQL_TYPE_LONG_BLOB | MYSQL_TYPE_BLOB | MYSQL_TYPE_VAR_STRING | MYSQL_TYPE_STRING | MYSQL_TYPE_GEOMETRY

primrec type_num :: "enum_field_types \<Rightarrow> nat" where
  "type_num MYSQL_TYPE_DECIMAL = 0" | "type_num MYSQL_TYPE_TINY = 1" | "type_num MYSQL_TYPE_SHORT = 2"
| "type_num MYSQL_TYPE_LONG = 3" | "type_num MYSQL_TYPE_FLOAT = 4" | "type_num MYSQL_TYPE_DOUBLE = 5"
| "type_num MYSQL_TYPE_NULL = 6" | "type_num MYSQL_TYPE_TIMESTAMP = 7" | "type_num MYSQL_TYPE_LONGLONG = 8"
| "type_num MYSQL_TYPE_INT24 = 9" | "type_num MYSQL_TYPE_DATE = 10" | "type_num MYSQL_TYPE_TIME = 11"
| "type_num MYSQL_TYPE_DATETIME = 12" | "type_num MYSQL_TYPE_YEAR = 13" | "type_num MYSQL_TYPE_NEWDATE = 14"
| "type_num MYSQL_TYPE_VARCHAR = 15" | "type_num MYSQL_TYPE_BIT = 16" | "type_num MYSQL_TYPE_NEWDECIMAL = 246"
| "type_num MYSQL_TYPE_ENUM = 247" | "type_num MYSQL_TYPE_SET = 248" | "type_num MYSQL_TYPE_TINY_BLOB = 249"
| "type_num MYSQL_TYPE_MEDIUM_BLOB = 250" | "type_num MYSQL_TYPE_LONG_BLOB = 251" | "type_num MYSQL_TYPE_BLOB = 252"
| "type_num MYSQL_TYPE_VAR_STRING = 253" | "type_num MYSQL_TYPE_STRING = 254" | "type_num MYSQL_TYPE_GEOMETRY = 255"

definition IS_NUM :: "enum_field_types \<Rightarrow> bool" where
  "IS_NUM t \<longleftrightarrow>
     type_num t \<le> type_num MYSQL_TYPE_INT24 \<and> t \<noteq> MYSQL_TYPE_TIMESTAMP \<or> t = MYSQL_TYPE_YEAR \<or> t = MYSQL_TYPE_NEWDECIMAL"

definition AUTO_INCREMENT_FLAG :: u32 where
  "AUTO_INCREMENT_FLAG = 512"

text \<open>The members of a column that the client prints.\<close>

record MYSQL_FIELD =
  fld_name :: string
  fld_length :: nat
  fld_flags :: u32
  fld_type :: enum_field_types

record 'w mysql_api =
  mysql_init :: "'w \<Rightarrow> nat option \<times> 'w"
  mysql_real_connect :: "nat \<Rightarrow> string \<Rightarrow> string \<Rightarrow> string \<Rightarrow> string \<Rightarrow> u16 \<Rightarrow> 'w \<Rightarrow> nat option \<times> 'w"
  mysql_query :: "nat \<Rightarrow> string \<Rightarrow> 'w \<Rightarrow> int \<times> 'w"
  mysql_use_result :: "nat \<Rightarrow> 'w \<Rightarrow> nat option \<times> 'w"
  mysql_fetch_row :: "nat \<Rightarrow> 'w \<Rightarrow> string option list option \<times> 'w"
  mysql_field_count :: "nat \<Rightarrow> 'w \<Rightarrow> nat"
  mysql_fetch_field :: "nat \<Rightarrow> 'w \<Rightarrow> MYSQL_FIELD option \<times> 'w"
  mysql_free_result :: "nat option \<Rightarrow> 'w \<Rightarrow> 'w"
  mysql_close :: "nat option \<Rightarrow> 'w \<Rightarrow> 'w"

text \<open>
  The constructor sets no member: a new object is any record. \<open>totalColumns\<close> and \<open>pmysqlFields\<close> are set before
  every use and are not kept.
\<close>

record CMYSQL =
  pmysqlConn :: "nat option"
  pmysqlRes :: "nat option"
  mysqlRow :: "string option list option"
  bInitFlag :: bool
  totalRecords :: nat

type_synonym 'w sqlstate = "'w \<times> CMYSQL"

definition InitMysql :: "'w mysql_api \<Rightarrow> string \<Rightarrow> u16 \<Rightarrow> string \<Rightarrow> string \<Rightarrow> string \<Rightarrow> 'w sqlstate \<Rightarrow> bool \<times> 'w sqlstate" where
  "InitMysql M host port userName passwd dbName = (\<lambda>(w, c).
     case mysql_init M w of
       (None, w) \<Rightarrow> (False, w, c\<lparr>pmysqlConn := None\<rparr>)
     | (Some h, w) \<Rightarrow>
         (case mysql_real_connect M h host userName passwd dbName port w of
            (None, w) \<Rightarrow> (False, w, c\<lparr>pmysqlConn := None\<rparr>)
          | (Some h, w) \<Rightarrow> (True, w, c\<lparr>pmysqlConn := Some h, bInitFlag := True\<rparr>)))"

definition ExecuteMySql :: "'w mysql_api \<Rightarrow> string \<Rightarrow> 'w sqlstate \<Rightarrow> (bool \<times> 'w sqlstate) option" where
  "ExecuteMySql M sql = (\<lambda>(w, c).
     case pmysqlConn c of
       None \<Rightarrow> None
     | Some h \<Rightarrow> let (res, w) = mysql_query M h sql w in Some (res = 0, w, c))"

definition MysqlUseResult :: "'w mysql_api \<Rightarrow> 'w sqlstate \<Rightarrow> (bool \<times> 'w sqlstate) option" where
  "MysqlUseResult M = (\<lambda>(w, c).
     case pmysqlConn c of
       None \<Rightarrow> None
     | Some h \<Rightarrow> let (r, w) = mysql_use_result M h w in Some (r \<noteq> None, w, c\<lparr>pmysqlRes := r\<rparr>))"

definition MysqlFetchRow :: "'w mysql_api \<Rightarrow> 'w sqlstate \<Rightarrow> (string option list option \<times> 'w sqlstate) option" where
  "MysqlFetchRow M = (\<lambda>(w, c).
     case pmysqlRes c of
       None \<Rightarrow> None
     | Some r \<Rightarrow> let (row, w) = mysql_fetch_row M r w in Some (row, w, c\<lparr>mysqlRow := row\<rparr>))"

definition GetMysqlTotalColumns :: "'w mysql_api \<Rightarrow> 'w sqlstate \<Rightarrow> nat option" where
  "GetMysqlTotalColumns M = (\<lambda>(w, c). map_option (\<lambda>h. mysql_field_count M h w) (pmysqlConn c))"

definition column_text :: "string option \<Rightarrow> string" where
  "column_text v = (case v of Some s \<Rightarrow> cstr s | None \<Rightarrow> ''NULL'') @ '';''"

definition GetColumnValue :: "'w mysql_api \<Rightarrow> 'w sqlstate \<Rightarrow> string option" where
  "GetColumnValue M st =
     do { n \<leftarrow> GetMysqlTotalColumns M st;
          row \<leftarrow> mysqlRow (snd st);
          if n \<le> length row then Some (concat (map column_text (take n row))) else None }"

text \<open>The same on a row of the caller.\<close>

definition GetColumnValue2 :: "'w mysql_api \<Rightarrow> string option list \<Rightarrow> 'w sqlstate \<Rightarrow> string option" where
  "GetColumnValue2 M sqlRow st =
     do { n \<leftarrow> GetMysqlTotalColumns M st;
          if n \<le> length sqlRow then Some (concat (map column_text (take n sqlRow))) else None }"

lemma GetColumnValue_of_row: "mysqlRow (snd st) = Some row \<Longrightarrow> GetColumnValue M st = GetColumnValue2 M row st"
  by (simp add: GetColumnValue_def GetColumnValue2_def)

definition CloseMysqlConn :: "'w mysql_api \<Rightarrow> 'w sqlstate \<Rightarrow> 'w sqlstate" where
  "CloseMysqlConn M = (\<lambda>(w, c). (if pmysqlConn c \<noteq> None then mysql_close M (pmysqlConn c) w else w, c))"

definition GetMysqlInitState :: "CMYSQL \<Rightarrow> bool" where
  "GetMysqlInitState c = bInitFlag c"

text \<open>The pointers keep their values.\<close>

definition DestroyResultEnv :: "'w mysql_api \<Rightarrow> 'w sqlstate \<Rightarrow> 'w sqlstate" where
  "DestroyResultEnv M = (\<lambda>(w, c).
     (mysql_close M (pmysqlConn c) (mysql_free_result M (pmysqlRes c) w), c\<lparr>bInitFlag := False\<rparr>))"

definition GetMysqlConnState :: "CMYSQL \<Rightarrow> nat option" where
  "GetMysqlConnState c = pmysqlConn c"

text \<open>The destructor; the object is gone.\<close>

definition delete_CMYSQL :: "'w mysql_api \<Rightarrow> 'w sqlstate \<Rightarrow> 'w" where
  "delete_CMYSQL M = (\<lambda>(w, c). mysql_close M (pmysqlConn c) (mysql_free_result M (pmysqlRes c) w))"

definition GetMysqlTotalRecords :: "CMYSQL \<Rightarrow> nat" where
  "GetMysqlTotalRecords c = totalRecords c"

section \<open>Printing a result\<close>

text \<open>What goes to the terminal is the value of these operations.\<close>

definition field_type_text :: "enum_field_types \<Rightarrow> string" where
  "field_type_text t =
     (if IS_NUM t then ''Numeric filed''
      else case t of
        MYSQL_TYPE_VAR_STRING \<Rightarrow> ''VARCHAR''
      | MYSQL_TYPE_LONG \<Rightarrow> ''LONG''
      | MYSQL_TYPE_TIMESTAMP \<Rightarrow> ''MYSQL_TYPE_TIMESTAMP''
      | _ \<Rightarrow> ''Type is '' @ show_nat (type_num t) @ '',check in mysql_com.h'')"

definition field_text :: "MYSQL_FIELD \<Rightarrow> string" where
  "field_text f =
     ''Name: '' @ cstr (fld_name f) @ '' '' @ [CTRL_T, CTRL_T] @ ''Type: '' @ [CTRL_T, CTRL_T] @ field_type_text (fld_type f) @
     ''MAX width '' @ show_nat (fld_length f) @ [CTRL_T, CTRL_T, CTRL_N] @
     (if fld_flags f AND AUTO_INCREMENT_FLAG \<noteq> 0 then ''Auto increments'' @ [CTRL_T, CTRL_T, CTRL_N] else []) @ [CTRL_N]"

partial_function (option) header_loop :: "'w mysql_api \<Rightarrow> nat \<Rightarrow> string \<Rightarrow> 'w \<Rightarrow> (string \<times> 'w) option" where
  "header_loop M res out w =
     (case mysql_fetch_field M res w of
        (None, w) \<Rightarrow> Some (out, w)
      | (Some f, w) \<Rightarrow> header_loop M res (out @ field_text f) w)"

definition DisplayHeader :: "'w mysql_api \<Rightarrow> 'w sqlstate \<Rightarrow> (string \<times> 'w sqlstate) option" where
  "DisplayHeader M = (\<lambda>(w, c).
     do { res \<leftarrow> pmysqlRes c;
          (out, w) \<leftarrow> header_loop M res (''Column details:'' @ [CTRL_N]) w;
          Some (out, w, c) })"

text \<open>A null value is printed without the blank that follows a text.\<close>

definition shown_column :: "string option \<Rightarrow> string" where
  "shown_column v = (case v of Some s \<Rightarrow> cstr s @ '' '' | None \<Rightarrow> ''NULL'')"

definition rows_line :: "nat \<Rightarrow> string option list \<Rightarrow> string" where
  "rows_line n row =
     ''mysql_field_count(pmysqlConn)='' @ show_int (to_int32 (int n)) @ [CTRL_N] @ concat (map shown_column (take n row)) @ [CTRL_N]"

definition DisplayRows :: "'w mysql_api \<Rightarrow> 'w sqlstate \<Rightarrow> string option" where
  "DisplayRows M st =
     do { n \<leftarrow> GetMysqlTotalColumns M st;
          row \<leftarrow> mysqlRow (snd st);
          if n \<le> length row
          then Some (rows_line n row)
          else None }"

text \<open>The first row is fetched, and the header is printed in its place.\<close>

partial_function (option) display_loop :: "'w mysql_api \<Rightarrow> bool \<Rightarrow> string \<Rightarrow> 'w sqlstate \<Rightarrow> (string \<times> 'w sqlstate) option" where
  "display_loop M first_row out st =
     do { (row, st) \<leftarrow> MysqlFetchRow M st;
          if row = None then Some (out, st)
          else if first_row then do { (s, st) \<leftarrow> DisplayHeader M st; display_loop M False (out @ s) st }
          else do { s \<leftarrow> DisplayRows M st; display_loop M False (out @ s) st } }"

text \<open>The text of the error report is left out.\<close>

definition GetRecordFields :: "'w mysql_api \<Rightarrow> string \<Rightarrow> 'w sqlstate \<Rightarrow> ((bool \<times> string) \<times> 'w sqlstate) option" where
  "GetRecordFields M sql st =
     (let out = ''Connection success:'' @ [CTRL_N] in
      do { (ok, st) \<leftarrow> ExecuteMySql M sql st;
           if \<not> ok then Some ((False, out), st)
           else do { (ok, st) \<leftarrow> MysqlUseResult M st;
                     if \<not> ok then Some ((True, out), st)
                     else do { (out, st) \<leftarrow> display_loop M True out st; Some ((True, out), st) } } })"

section \<open>What is assumed of the library\<close>

text \<open>
  What is assumed of a result set: its rows come one by one, in order, then none; fetching changes
  neither another result nor the number of columns.
\<close>

definition cursor :: "'w mysql_api \<Rightarrow> (nat \<Rightarrow> 'w \<Rightarrow> string option list list) \<Rightarrow> bool" where
  "cursor M rows \<longleftrightarrow>
     (\<forall>r w. fst (mysql_fetch_row M r w) = (case rows r w of [] \<Rightarrow> None | row # _ \<Rightarrow> Some row) \<and>
        rows r (snd (mysql_fetch_row M r w)) = tl (rows r w) \<and>
        (\<forall>h. mysql_field_count M h (snd (mysql_fetch_row M r w)) = mysql_field_count M h w))"

text \<open>The columns of a result come one by one, in order, then none; fetching one changes neither rows nor their number.\<close>

definition described :: "'w mysql_api \<Rightarrow> (nat \<Rightarrow> 'w \<Rightarrow> string option list list) \<Rightarrow> (nat \<Rightarrow> 'w \<Rightarrow> MYSQL_FIELD list) \<Rightarrow> bool" where
  "described M rows columns \<longleftrightarrow>
     (\<forall>r w. fst (mysql_fetch_field M r w) = (case columns r w of [] \<Rightarrow> None | f # _ \<Rightarrow> Some f) \<and>
        columns r (snd (mysql_fetch_field M r w)) = tl (columns r w) \<and>
        rows r (snd (mysql_fetch_field M r w)) = rows r w \<and>
        (\<forall>h. mysql_field_count M h (snd (mysql_fetch_field M r w)) = mysql_field_count M h w)) \<and>
     (\<forall>r w. columns r (snd (mysql_fetch_row M r w)) = columns r w)"

section \<open>Lemmas\<close>

text \<open>The branch for \<open>LONG\<close> is never taken: it is a number.\<close>

lemma field_type_text_cases:
  "field_type_text MYSQL_TYPE_LONG = ''Numeric filed''" "field_type_text MYSQL_TYPE_TIMESTAMP = ''MYSQL_TYPE_TIMESTAMP''"
  "field_type_text MYSQL_TYPE_VAR_STRING = ''VARCHAR''"
  by (simp_all add: field_type_text_def IS_NUM_def)

lemma field_type_text_never_long: "field_type_text t \<noteq> ''LONG''"
  by (cases t) (simp_all add: field_type_text_def IS_NUM_def)

lemma header_loop_all:
  assumes "described M rows columns"
  shows "\<exists>w'. header_loop M r out w = Some (out @ concat (map field_text (columns r w)), w') \<and> rows r w' = rows r w \<and>
    (\<forall>h. mysql_field_count M h w' = mysql_field_count M h w)"
proof (induction "columns r w" arbitrary: w out)
  case Nil
  then show ?case
    using assms [unfolded described_def, THEN conjunct1, THEN spec, of r, THEN spec, of w]
    by (cases "mysql_fetch_field M r w") (subst header_loop.simps, simp)
next
  case (Cons f fs)
  obtain w1 where f: "mysql_fetch_field M r w = (Some f, w1)" and w1: "fs = columns r w1" "rows r w1 = rows r w"
    "\<forall>h. mysql_field_count M h w1 = mysql_field_count M h w"
    using assms [unfolded described_def, THEN conjunct1, THEN spec, of r, THEN spec, of w] Cons(2) [symmetric]
    by (cases "mysql_fetch_field M r w") auto
  from Cons(1) [OF w1(1), of "out @ field_text f"] w1 f Cons(2) [symmetric] show ?case
    by (subst header_loop.simps) simp
qed

lemma display_rows_all:
  assumes "cursor M rows" "\<forall>row \<in> set (rows r w). n \<le> length row" "pmysqlRes c = Some r" "pmysqlConn c = Some h"
    "mysql_field_count M h w = n"
  shows "\<exists>w' c'. display_loop M False out (w, c) =
    Some (out @ concat (map (rows_line n) (rows r w)), w', c')"
  using assms(2-5)
proof (induction "rows r w" arbitrary: w c out)
  case Nil
  then show ?case
    using assms(1) [unfolded cursor_def, THEN spec, of r, THEN spec, of w]
    by (cases "mysql_fetch_row M r w") (subst display_loop.simps, simp add: MysqlFetchRow_def)
next
  case (Cons row rest)
  obtain w1 where f: "mysql_fetch_row M r w = (Some row, w1)" and w1: "rest = rows r w1" "mysql_field_count M h w1 = n"
    using assms(1) [unfolded cursor_def, THEN spec, of r, THEN spec, of w] Cons(2) [symmetric] Cons.prems(4)
    by (cases "mysql_fetch_row M r w") auto
  have d: "DisplayRows M (w1, c\<lparr>mysqlRow := Some row\<rparr>) =
      Some (rows_line n row)"
    using w1(2) Cons.prems(1,3) Cons(2) [symmetric] by (simp add: DisplayRows_def GetMysqlTotalColumns_def)
  from Cons(1) [OF w1(1), of "c\<lparr>mysqlRow := Some row\<rparr>" "out @ rows_line n row"] Cons.prems(1-3) w1 Cons(2) [symmetric] d f show ?case
    by (subst display_loop.simps) (simp add: MysqlFetchRow_def)
qed

text \<open>
  What \<open>GetRecordFields\<close> prints: the description of the columns in place of the first row, then the others. Its loops
  end, as the result set does.
\<close>

lemma record_fields_printed:
  assumes "cursor M rows" "described M rows columns" "pmysqlConn c = Some h"
    "mysql_query M h sql w = (0, w1)" "mysql_use_result M h w1 = (Some r, w2)" "rows r w2 = row # rest"
    "mysql_field_count M h w2 = n" "\<forall>row \<in> set rest. n \<le> length row"
  shows "\<exists>st. GetRecordFields M sql (w, c) =
    Some ((True, ''Connection success:'' @ [CTRL_N] @ ''Column details:'' @ [CTRL_N] @ concat (map field_text (columns r w2)) @
      concat (map (rows_line n) rest)), st)"
proof -
  let ?out = "''Connection success:'' @ [CTRL_N]"
  obtain w3 where f: "mysql_fetch_row M r w2 = (Some row, w3)" and w3: "rows r w3 = rest" "mysql_field_count M h w3 = n"
    using assms(1) [unfolded cursor_def, THEN spec, of r, THEN spec, of w2] assms(6,7)
    by (cases "mysql_fetch_row M r w2") auto
  have "columns r w3 = columns r w2" using assms(2) f by (metis described_def snd_conv)
  with header_loop_all [OF assms(2), of r "''Column details:'' @ [CTRL_N]" w3] w3 obtain w4 where
    h: "header_loop M r (''Column details:'' @ [CTRL_N]) w3 =
      Some ((''Column details:'' @ [CTRL_N]) @ concat (map field_text (columns r w2)), w4)"
    and w4: "rows r w4 = rest" "mysql_field_count M h w4 = n" by auto
  let ?c = "c\<lparr>pmysqlRes := Some r, mysqlRow := Some row\<rparr>"
  obtain st where d: "display_loop M False (?out @ (''Column details:'' @ [CTRL_N]) @ concat (map field_text (columns r w2))) (w4, ?c) =
      Some ((?out @ (''Column details:'' @ [CTRL_N]) @ concat (map field_text (columns r w2))) @
        concat (map (rows_line n) rest), st)"
    using display_rows_all [OF assms(1), of r w4 n ?c h] assms(3,8) w4 by fastforce
  have "display_loop M True ?out (w2, c\<lparr>pmysqlRes := Some r\<rparr>) =
      display_loop M False (?out @ (''Column details:'' @ [CTRL_N]) @ concat (map field_text (columns r w2))) (w4, ?c)"
    using f h by (subst display_loop.simps) (simp add: MysqlFetchRow_def DisplayHeader_def)
  with d show ?thesis
    using assms(3-5) by (simp add: GetRecordFields_def ExecuteMySql_def MysqlUseResult_def Let_def)
qed

end
