(* ===== verification/Update.thy ===== *)
theory Update
  imports TaskMain Mysql
begin

text \<open>
  The update thread \<open>src/UserQueryUpdate/UserQueryUpdate.cpp\<close>, which keeps the table of configured APIs
  \<open>g_MapApiGateWayconfig\<close> up to date and reports the use of orders once a day.

  \<open>None\<close> is a crash (a null pointer), an overrun, or a loop that does not end.
\<close>

section \<open>Rows as records\<close>

record BDXPERMISSSION_S =
  mResToken :: string
  mIntQueryTimes :: int
  mIntGoodsTimes :: int
  mVecFields :: "string list"
  mGoodsFields :: string

text \<open>
  \<open>strtok_r\<close> splits a row at its semicolons, and here each part again at bars. Fewer than five texts
  leave a null pointer; the array has room for 1024 pointers.
\<close>

definition GetMysqlFieldsUserInfo :: "string \<Rightarrow> (string \<times> BDXPERMISSSION_S) option" where
  "GetMysqlFieldsUserInfo strUserInfo =
     (let ts = concat (map (tokens (CHR ''|'')) (tokens (CHR '';'') strUserInfo))
      in if length ts < 5 \<or> 1024 \<le> length ts then None
         else Some (ts ! 0,
           \<lparr>mResToken = ts ! 1, mIntQueryTimes = atoi (ts ! 2), mIntGoodsTimes = atoi (ts ! 3),
            mVecFields = drop 5 ts, mGoodsFields = ts ! 4\<rparr>))"

definition GetMysqlFieldsApiGateWayConfig :: "string \<Rightarrow> (string \<times> BDXAPIGATEWAYCONFIF_S) option" where
  "GetMysqlFieldsApiGateWayConfig strUserInfo =
     (let ts = tokens (CHR '';'') strUserInfo; ps = tokens (CHR ''|'') (ts ! 4)
      in if length ts < 11 \<or> 1024 \<le> length ts \<or> 1024 \<le> length ps then None
         else Some (ts ! 0,
           \<lparr>mStrHostInfo = ts ! 3, mStrUrlPath = ts ! 2, mStrCname = ts ! 1, mStrReqParams = ps, mStrApiKey = ts ! 5,
            mIntIsHttps = atoi (ts ! 7), mIntIsVerify = atoi (ts ! 6), mIntQueryTimesLimit = to_int32 (atol (ts ! 8)),
            mIntReqtype = atoi (ts ! 9), mStrPostTemplate = ts ! 10\<rparr>))"

section \<open>Comparing and replacing tables\<close>

definition same_permission :: "BDXPERMISSSION_S \<Rightarrow> BDXPERMISSSION_S \<Rightarrow> bool" where
  "same_permission a b \<longleftrightarrow>
     mResToken a = mResToken b \<and> mIntQueryTimes a = mIntQueryTimes b \<and> mVecFields a = mVecFields b \<and>
     mGoodsFields a = mGoodsFields b \<and> mIntGoodsTimes a = mIntGoodsTimes b"

text \<open>The request parameters are not compared.\<close>

definition same_config :: "BDXAPIGATEWAYCONFIF_S \<Rightarrow> BDXAPIGATEWAYCONFIF_S \<Rightarrow> bool" where
  "same_config a b \<longleftrightarrow>
     mStrHostInfo a = mStrHostInfo b \<and> mStrUrlPath a = mStrUrlPath b \<and> mStrCname a = mStrCname b \<and>
     mStrApiKey a = mStrApiKey b \<and> mIntIsHttps a = mIntIsHttps b \<and> mIntIsVerify a = mIntIsVerify b \<and>
     mIntQueryTimesLimit a = mIntQueryTimesLimit b \<and> mIntReqtype a = mIntReqtype b \<and> mStrPostTemplate a = mStrPostTemplate b"

fun all_found :: "('v \<Rightarrow> 'v \<Rightarrow> bool) \<Rightarrow> 'v smap \<Rightarrow> 'v smap \<Rightarrow> bool" where
  "all_found same [] dest = True"
| "all_found same ((k, v) # src) dest =
     (case smap_find dest k of None \<Rightarrow> False | Some v' \<Rightarrow> if same v v' then all_found same src dest else False)"

definition MapIsEqual :: "BDXPERMISSSION_S smap \<Rightarrow> BDXPERMISSSION_S smap \<Rightarrow> bool" where
  "MapIsEqual srcMap destMap \<longleftrightarrow> length srcMap = length destMap \<and> all_found same_permission srcMap destMap"

definition MapGateWayConfigIsEqual :: "BDXAPIGATEWAYCONFIF_S smap \<Rightarrow> BDXAPIGATEWAYCONFIF_S smap \<Rightarrow> bool" where
  "MapGateWayConfigIsEqual srcMap destMap \<longleftrightarrow> length srcMap = length destMap \<and> all_found same_config srcMap destMap"

text \<open>The copy of an entry, field by field, and its insertion into the cleared map.\<close>

definition SwapMap :: "BDXPERMISSSION_S smap \<Rightarrow> BDXPERMISSSION_S smap \<Rightarrow> BDXPERMISSSION_S smap" where
  "SwapMap srcMap destMap =
     foldl (\<lambda>m (k, v). smap_insert k
       \<lparr>mResToken = mResToken v, mIntQueryTimes = mIntQueryTimes v, mIntGoodsTimes = mIntGoodsTimes v,
        mVecFields = mVecFields v, mGoodsFields = mGoodsFields v\<rparr> m) [] srcMap"

definition SwapApiGateWayMap :: "BDXAPIGATEWAYCONFIF_S smap \<Rightarrow> BDXAPIGATEWAYCONFIF_S smap \<Rightarrow> BDXAPIGATEWAYCONFIF_S smap" where
  "SwapApiGateWayMap srcMap destMap =
     foldl (\<lambda>m (k, v). smap_insert k
       \<lparr>mStrHostInfo = mStrHostInfo v, mStrUrlPath = mStrUrlPath v, mStrCname = mStrCname v, mStrReqParams = mStrReqParams v,
        mStrApiKey = mStrApiKey v, mIntIsHttps = mIntIsHttps v, mIntIsVerify = mIntIsVerify v,
        mIntQueryTimesLimit = mIntQueryTimesLimit v, mIntReqtype = mIntReqtype v, mStrPostTemplate = mStrPostTemplate v\<rparr> m) [] srcMap"

section \<open>The table of APIs\<close>

definition pchSqlApiGateWayConfig :: string where
  "pchSqlApiGateWayConfig =
     ''select reqaction,reqresourcepage,urlpath,reqhostinfo,reqparams,reqappkey,isverify,ishttps,querytimes,reqtype,posttemplate from api_gateway_config''"

text \<open>The rows are inserted as they come, so the first row of a name counts.\<close>

partial_function (option) fetch_rows :: "'w mysql_api \<Rightarrow> BDXAPIGATEWAYCONFIF_S smap \<Rightarrow> 'w sqlstate \<Rightarrow>
    (BDXAPIGATEWAYCONFIF_S smap \<times> 'w sqlstate) option" where
  "fetch_rows M temp st =
     do { (row, st) \<leftarrow> MysqlFetchRow M st;
          if row = None then Some (temp, st)
          else do { strMysqlRecord \<leftarrow> GetColumnValue M st;
                    (name, conf) \<leftarrow> GetMysqlFieldsApiGateWayConfig strMysqlRecord;
                    fetch_rows M (smap_insert name conf temp) st } }"

definition sync_config :: "BDXAPIGATEWAYCONFIF_S smap \<Rightarrow> BDXAPIGATEWAYCONFIF_S smap \<Rightarrow> BDXAPIGATEWAYCONFIF_S smap" where
  "sync_config temp global = (if \<not> MapGateWayConfigIsEqual temp global then SwapApiGateWayMap temp global else global)"

text \<open>The body of the inner loop. \<open>g_mySqlInfo\<close> is the address kept for reconnection.\<close>

definition refresh_config :: "'w mysql_api \<Rightarrow> MYSQL_SERVERINFO_S \<Rightarrow> BDXAPIGATEWAYCONFIF_S smap \<Rightarrow> 'w sqlstate \<Rightarrow>
    (BDXAPIGATEWAYCONFIF_S smap \<times> 'w sqlstate) option" where
  "refresh_config M g_mySqlInfo global st =
     (if GetMysqlInitState (snd st) then
        do { (ok, st) \<leftarrow> ExecuteMySql M pchSqlApiGateWayConfig st;
             if ok then
               do { (ok, st) \<leftarrow> MysqlUseResult M st;
                    if ok then do { (temp, st) \<leftarrow> fetch_rows M [] st; Some (sync_config temp global, st) }
                    else Some (global, st) }
             else Some (global, DestroyResultEnv M st) }
      else Some (global, snd (InitMysql M (cstr (m_pchIp (m_stMysqlLinkInfo g_mySqlInfo))) (m_uiPort (m_stMysqlLinkInfo g_mySqlInfo))
                  (cstr (pchUserName g_mySqlInfo)) (cstr (pchPassWord g_mySqlInfo)) (cstr (pchDbName g_mySqlInfo)) st)))"

section \<open>The data hub, from the update thread\<close>

text \<open>
  The copy of \<open>BdxGetDatafromDataHub\<close> in this class: the user's name is sent as it is, without a region,
  and the credentials are fixed.
\<close>

abbreviation ADMIN_BASIC :: string where
  "ADMIN_BASIC \<equiv> ''YWRtaW5fY2hlbnlnQGFzaWFpbmZvLmNvbTo4ZGRjZmYzYTgwZjQxODljYTFjOWQ0ZDkwMmMzYzkwOQ==''"

definition update_request :: "string \<Rightarrow> string \<Rightarrow> string \<Rightarrow> string \<Rightarrow> string \<Rightarrow> string \<Rightarrow> int \<Rightarrow> int \<Rightarrow> string option" where
  "update_request datahubIP AuthUser AuthToken repo item subid used type =
     (if type = 1 then
        sprintf_into 8192
          (''GET /api/valid HTTP/1.1'' @ CRLF @ ''Host: '' @ datahubIP @ CRLF @
           ''Authorization:Token '' @ cstr AuthToken @ CRLF @ ''Authuser: '' @ cstr AuthUser @ HEADER_END)
      else if type = 2 then
        sprintf_into 8192
          (''GET /api/ HTTP/1.1'' @ CRLF @ ''Host: '' @ datahubIP @ CRLF @ ''Authorization: Basic '' @ ADMIN_BASIC @ HEADER_END)
      else if type = 3 then
        sprintf_into 8192
          (''GET /api/subscriptions/pull/'' @ cstr repo @ ''/'' @ cstr item @ ''?username='' @ cstr AuthUser @ '' HTTP/1.1'' @ CRLF @
           ''Host: '' @ datahubIP @ CRLF @ ''Accept: application/json; charset=utf-8'' @ CRLF @
           ''Authorization: Token '' @ cstr AuthToken @ HEADER_END)
      else if type = 4 \<or> type = 5 then
        (let action = (if type = 4 then quoted ''action'' ''set_retrieved''
                       else quoted ''action'' ''set_plan_used'' @ '','' @ [CHR 0x22] @ ''used'' @ [CHR 0x22] @ '':'' @ show_int used);
             content = ''{'' @ action @ '','' @ quoted ''repname'' repo @ '','' @ quoted ''itemname'' item @ '','' @
               quoted ''username'' AuthUser @ ''}''
         in do { content \<leftarrow> sprintf_into 1024 content; sprintf_into 8192 (put_subscription subid datahubIP AuthToken content) })
      else Some [])"

definition Update_GetDatafromDataHub :: "('w, 'j) env \<Rightarrow> string \<Rightarrow> string \<Rightarrow> string \<Rightarrow> string \<Rightarrow> string \<Rightarrow> int \<Rightarrow> int \<Rightarrow>
    'w gateway \<Rightarrow> (string \<times> 'w gateway) option" where
  "Update_GetDatafromDataHub E AuthUser AuthToken repo item subid used type g =
     do { datahubIP \<leftarrow> e_getenv E ''DATAHUB_IP'';
          port \<leftarrow> e_getenv E ''DATAHUB_PORT'';
          request \<leftarrow> update_request datahubIP AuthUser AuthToken repo item subid used type;
          (body, flag, w, s) \<leftarrow> hub_exchange (e_sys E) (word_of_int (atoi port)) datahubIP (cstr request) (InitSSLFlag g) (g_world g);
          Some (body, g\<lparr>g_world := w, InitSSLFlag := flag\<rparr>) }"

definition Update_GetDataHubToken :: "('w, 'j) env \<Rightarrow> 'w gateway \<Rightarrow> (string \<times> 'w gateway) option" where
  "Update_GetDataHubToken E g = token_if_ok (Update_GetDatafromDataHub E [] [] [] [] [] 0 2 g)"

definition Update_UpdateUserOrder :: "('w, 'j) env \<Rightarrow> string \<Rightarrow> string \<Rightarrow> string \<Rightarrow> string \<Rightarrow> string \<Rightarrow> int \<Rightarrow>
    'w gateway \<Rightarrow> (string \<times> 'w gateway) option" where
  "Update_UpdateUserOrder E user subid repo item token used g =
     token_if_ok (Update_GetDatafromDataHub E user token repo item subid used 5 g)"

section \<open>The orders, once a day\<close>

text \<open>
  The member \<open>user#repo#item#subid\<close> cut at its delimiters. \<open>find\<close> gives -1 as an \<open>int\<close> when there is
  none; \<open>substr\<close> with a negative length takes the rest.
\<close>

definition find_delim :: "string \<Rightarrow> int \<Rightarrow> int" where
  "find_delim s from = pos_int (str_find s KEY_DELIMITER (nat from))"

definition split_member :: "string \<Rightarrow> (string \<times> string \<times> string \<times> string) option" where
  "split_member keyValue =
     do { let userStart = find_delim keyValue 0;
          user \<leftarrow> substr_int keyValue 0 userStart;
          let repoStart = find_delim keyValue (userStart + 1);
          repo \<leftarrow> substr_int keyValue (userStart + 1) (repoStart - (userStart + 1));
          let itemStart = find_delim keyValue (repoStart + 1);
          item \<leftarrow> substr_int keyValue (repoStart + 1) (itemStart - (repoStart + 1));
          let subIdStart = find_delim keyValue (itemStart + 1);
          subid \<leftarrow> substr_int keyValue (itemStart + 1) (subIdStart - (itemStart + 1));
          Some (user, repo, item, subid) }"

text \<open>
  What is done for an order that is used up and, this time, has also expired; the key of the user's set
  lacks the repository and the item.
\<close>

definition retire_order :: "('w, 'j) env \<Rightarrow> string \<Rightarrow> string \<Rightarrow> string \<Rightarrow> string \<Rightarrow> 'w gateway \<Rightarrow> 'w gateway option" where
  "retire_order E statusOrder updatedmember user value g =
     do { (_, g) \<leftarrow> on_redis (UserPut (e_redis E) statusOrder ''1'') g;
          (_, g) \<leftarrow> on_redis (UserSmove (e_redis E) ''need_updated_datahub_order'' ''already_updated_datahub_order'' updatedmember) g;
          (_, g) \<leftarrow> on_redis (UserRemoveSortedSet (e_redis E) (user @ KEY_DELIMITER @ KEY_startOrderID) value) g;
          Some g }"

definition report_order :: "('w, 'j) env \<Rightarrow> string \<Rightarrow> string \<Rightarrow> 'w gateway \<Rightarrow> 'w gateway option" where
  "report_order E statusOrder keyValue g =
     do { (user, repo, item, subid) \<leftarrow> split_member keyValue;
          let updatedmember = user @ KEY_DELIMITER @ repo @ KEY_DELIMITER @ item @ KEY_DELIMITER @ subid;
          ((found, count), g) \<leftarrow> on_redis (UserGet (e_redis E) (KEY_startOrderCount @ KEY_DELIMITER @ updatedmember) []) g;
          if \<not> found then Some g
          else
            do { ((found, limit), g) \<leftarrow> on_redis (UserGet (e_redis E) (KEY_startOrderLimit @ KEY_DELIMITER @ updatedmember) []) g;
                 if \<not> found then Some g
                 else
                   do { g \<leftarrow> (if atoi count \<ge> atoi limit then
                                do { ((alive, value), g) \<leftarrow> on_redis (UserGet (e_redis E) (KEY_startOrderExpire @ KEY_DELIMITER @ updatedmember) count) g;
                                     if alive then Some g else retire_order E statusOrder updatedmember user value g }
                              else Some g);
                        (token, g) \<leftarrow> (if g_strDataHubToken g = [] then
                                        do { (t, g) \<leftarrow> Update_GetDataHubToken E g; Some (t, g\<lparr>g_strDataHubToken := t\<rparr>) }
                                      else Some (g_strDataHubToken g, g));
                        (_, g) \<leftarrow> Update_UpdateUserOrder E user subid repo item token (atoi count) g;
                        Some g } } }"

fun daily_orders :: "('w, 'j) env \<Rightarrow> string list \<Rightarrow> 'w gateway \<Rightarrow> 'w gateway option" where
  "daily_orders E [] g = Some g"
| "daily_orders E (keyValue # ms) g =
     do { let statusOrder = ''order_status'' @ KEY_DELIMITER @ keyValue;
          ((found, v), g) \<leftarrow> on_redis (UserGet (e_redis E) statusOrder []) g;
          g \<leftarrow> (if found \<and> atoi v = 0 then report_order E statusOrder keyValue g else Some g);
          daily_orders E ms g }"

record 'w updater =
  u_gate :: "'w gateway"
  u_sql :: CMYSQL
  g_strCurrentDate :: string
  g_MapApiGateWayconfig :: "BDXAPIGATEWAYCONFIF_S smap"

definition BdxUserGetCurrentDate :: "tm \<Rightarrow> string option" where
  "BdxUserGetCurrentDate t = dt20 (show_4d (tm_year t + 1900) @ show_02d (tm_mon t + 1) @ show_02d (tm_mday t))"

definition daily_check :: "('w, 'j) env \<Rightarrow> 'w updater \<Rightarrow> 'w updater option" where
  "daily_check E u =
     do { date \<leftarrow> BdxUserGetCurrentDate (e_now E (g_world (u_gate u)));
          if date \<noteq> g_strCurrentDate u then
            do { ((ok, members), g) \<leftarrow> on_redis (UserSmembers (e_redis E) ''need_updated_datahub_order'' []) (u_gate u);
                 g \<leftarrow> (if ok then daily_orders E members g else Some g);
                 Some (u\<lparr>u_gate := g, g_strCurrentDate := date\<rparr>) }
          else Some u }"

definition refresh_step :: "'w mysql_api \<Rightarrow> MYSQL_SERVERINFO_S \<Rightarrow> 'w updater \<Rightarrow> 'w updater option" where
  "refresh_step M g_mySqlInfo u =
     do { (table, w, c) \<leftarrow> refresh_config M g_mySqlInfo (g_MapApiGateWayconfig u) (g_world (u_gate u), u_sql u);
          Some (u\<lparr>u_gate := (u_gate u)\<lparr>g_world := w\<rparr>, u_sql := c, g_MapApiGateWayconfig := table\<rparr>) }"

fun refresh_times :: "'w mysql_api \<Rightarrow> MYSQL_SERVERINFO_S \<Rightarrow> nat \<Rightarrow> 'w updater \<Rightarrow> 'w updater option" where
  "refresh_times M info 0 u = Some u"
| "refresh_times M info (Suc n) u = do { u \<leftarrow> refresh_step M info u; refresh_times M info n u }"

text \<open>One round of the endless loop of \<open>CUserQueryUpdate::Core\<close>.\<close>

definition update_round :: "('w, 'j) env \<Rightarrow> 'w mysql_api \<Rightarrow> MYSQL_SERVERINFO_S \<Rightarrow> 'w updater \<Rightarrow> 'w updater option" where
  "update_round E M info u = do { u \<leftarrow> daily_check E u; refresh_times M info 10 u }"

section \<open>The contract of a table\<close>

text \<open>
  Both tables of the thread are kept in the same way: compared with the fresh one by a test that may
  ignore part of an entry, and copied when the test fails.
\<close>

locale table_sync =
  fixes same :: "'v \<Rightarrow> 'v \<Rightarrow> bool" and is_equal :: "'v smap \<Rightarrow> 'v smap \<Rightarrow> bool" and swap :: "'v smap \<Rightarrow> 'v smap \<Rightarrow> 'v smap"
  assumes same_refl: "same v v"
    and equal_lookup: "smap_ok src \<Longrightarrow> smap_ok dest \<Longrightarrow>
      is_equal src dest \<longleftrightarrow> (\<forall>k. rel_option same (smap_find src k) (smap_find dest k))"
    and swap_copies: "smap_ok src \<Longrightarrow> swap src dest = src"
begin

lemma sync_lookup:
  assumes "smap_ok src" "smap_ok dest"
  shows "rel_option same (smap_find src k) (smap_find (if \<not> is_equal src dest then swap src dest else dest) k)"
proof (cases "is_equal src dest")
  case True
  then show ?thesis using equal_lookup [OF assms] by simp
next
  case False
  then show ?thesis using swap_copies [OF assms(1)] by (simp add: option.rel_refl same_refl)
qed

lemma sync_ok: "smap_ok src \<Longrightarrow> smap_ok dest \<Longrightarrow> smap_ok (if \<not> is_equal src dest then swap src dest else dest)"
  using swap_copies by simp

end

lemma all_found_iff:
  "smap_ok src \<Longrightarrow> all_found same src dest \<longleftrightarrow> (\<forall>k v. smap_find src k = Some v \<longrightarrow> (\<exists>v'. smap_find dest k = Some v' \<and> same v v'))"
proof (induction src)
  case (Cons kv src)
  obtain k v where kv: "kv = (k, v)" by (cases kv)
  have "smap_find src k = None" using Cons.prems by (auto simp: kv smap_ok_def map_of_eq_None_iff)
  moreover have "smap_ok src" using Cons.prems by (simp add: kv smap_ok_Cons)
  ultimately show ?case using Cons.IH by (auto simp: kv split: option.splits)
qed simp

text \<open>With as many entries on both sides, nothing of the other side is left over.\<close>

lemma rel_option_both:
  "rel_option r a b \<longleftrightarrow> (a = None \<longleftrightarrow> b = None) \<and> (\<forall>x. a = Some x \<longrightarrow> (\<exists>y. b = Some y \<and> r x y))"
  by (cases a; cases b) auto

lemma smap_length: "smap_ok m \<Longrightarrow> length m = card (dom (map_of m))"
  by (simp add: smap_ok_def dom_map_of_conv_image_fst) (metis distinct_card length_map set_map)

lemma tables_equal:
  assumes "smap_ok src" "smap_ok dest"
  shows "length src = length dest \<and> all_found same src dest \<longleftrightarrow> (\<forall>k. rel_option same (smap_find src k) (smap_find dest k))"
proof
  assume *: "length src = length dest \<and> all_found same src dest"
  note found = all_found_iff [OF assms(1), of same dest]
  have "dom (map_of src) \<subseteq> dom (map_of dest)" using * found by blast
  moreover have "card (dom (map_of src)) = card (dom (map_of dest))"
    using * smap_length [OF assms(1)] smap_length [OF assms(2)] by simp
  ultimately have "dom (map_of src) = dom (map_of dest)" by (intro card_subset_eq finite_dom_map_of)
  then have "smap_find src k = None \<longleftrightarrow> smap_find dest k = None" for k by blast
  then show "\<forall>k. rel_option same (smap_find src k) (smap_find dest k)"
    using * found unfolding rel_option_both by blast
next
  assume *: "\<forall>k. rel_option same (smap_find src k) (smap_find dest k)"
  then have "smap_find src k = None \<longleftrightarrow> smap_find dest k = None" for k unfolding rel_option_both by blast
  then have "dom (map_of src) = dom (map_of dest)" by (simp add: dom_def)
  moreover have "all_found same src dest" using * unfolding all_found_iff [OF assms(1)] rel_option_both by blast
  ultimately show "length src = length dest \<and> all_found same src dest"
    using smap_length [OF assms(1)] smap_length [OF assms(2)] by simp
qed

lemma smap_put_last: "\<forall>x \<in> set (map fst m). x < k \<Longrightarrow> smap_put k v m = m @ [(k, v)]"
  by (induction m) (auto simp: smap_put.simps)

lemma foldl_smap_insert:
  "smap_ok (m @ src) \<Longrightarrow> foldl (\<lambda>m (k, v). smap_insert k v m) m src = m @ src"
proof (induction src arbitrary: m)
  case (Cons kv src)
  obtain k v where kv: "kv = (k, v)" by (cases kv)
  have below: "\<forall>x \<in> set (map fst m). x < k"
    using Cons.prems by (auto simp: kv smap_ok_def sorted_append order_less_le)
  then have "smap_find m k = None" by (auto simp: map_of_eq_None_iff)
  then have "smap_insert k v m = m @ [(k, v)]" using smap_put_last [OF below] by (simp add: smap_insert_def)
  with Cons.IH [of "m @ [(k, v)]"] Cons.prems kv show ?case by simp
qed simp

lemma copied_permission:
  "\<lparr>mResToken = mResToken v, mIntQueryTimes = mIntQueryTimes v, mIntGoodsTimes = mIntGoodsTimes v,
    mVecFields = mVecFields v, mGoodsFields = mGoodsFields v\<rparr> = v"
  by simp

lemma copied_config:
  "\<lparr>mStrHostInfo = mStrHostInfo v, mStrUrlPath = mStrUrlPath v, mStrCname = mStrCname v, mStrReqParams = mStrReqParams v,
    mStrApiKey = mStrApiKey v, mIntIsHttps = mIntIsHttps v, mIntIsVerify = mIntIsVerify v,
    mIntQueryTimesLimit = mIntQueryTimesLimit v, mIntReqtype = mIntReqtype v, mStrPostTemplate = mStrPostTemplate v\<rparr> = v"
  by simp

lemma SwapMap_copies: "smap_ok src \<Longrightarrow> SwapMap src dest = src"
  using foldl_smap_insert [of "[]" src] unfolding SwapMap_def copied_permission by simp

lemma SwapApiGateWayMap_copies: "smap_ok src \<Longrightarrow> SwapApiGateWayMap src dest = src"
  using foldl_smap_insert [of "[]" src] unfolding SwapApiGateWayMap_def copied_config by simp

interpretation users: table_sync same_permission MapIsEqual SwapMap
  by unfold_locales (simp_all add: same_permission_def MapIsEqual_def tables_equal SwapMap_copies)

interpretation configs: table_sync same_config MapGateWayConfigIsEqual SwapApiGateWayMap
  by unfold_locales (simp_all add: same_config_def [of v v for v] MapGateWayConfigIsEqual_def tables_equal SwapApiGateWayMap_copies)

section \<open>Reading rows\<close>

text \<open>A row of the configuration table that survives the way through \<open>strtok_r\<close>.\<close>

definition plain_column :: "string \<Rightarrow> bool" where
  "plain_column c \<longleftrightarrow> c \<noteq> [] \<and> CHR '';'' \<notin> set c \<and> NUL \<notin> set c"

definition plain_row :: "string list \<Rightarrow> bool" where
  "plain_row cs \<longleftrightarrow> length cs = 11 \<and> list_all plain_column cs \<and> length (cs ! 4) < 1000"

definition row_text :: "string list \<Rightarrow> string" where
  "row_text cs = concat (map (\<lambda>c. c @ '';'') cs)"

definition config_of :: "string list \<Rightarrow> BDXAPIGATEWAYCONFIF_S" where
  "config_of cs =
     \<lparr>mStrHostInfo = cs ! 3, mStrUrlPath = cs ! 2, mStrCname = cs ! 1, mStrReqParams = tokens (CHR ''|'') (cs ! 4),
      mStrApiKey = cs ! 5, mIntIsHttps = atoi (cs ! 7), mIntIsVerify = atoi (cs ! 6),
      mIntQueryTimesLimit = to_int32 (atol (cs ! 8)), mIntReqtype = atoi (cs ! 9), mStrPostTemplate = cs ! 10\<rparr>"

lemma cstr_semicolon: "cstr (CHR '';'' # s) = CHR '';'' # cstr s"
  by (simp add: cstr_def NUL_def)

text \<open>\<open>strtok_r\<close> skips the empty columns.\<close>

lemma tokens_row:
  "\<forall>c \<in> set cs. CHR '';'' \<notin> set c \<and> NUL \<notin> set c \<Longrightarrow> tokens (CHR '';'') (row_text cs) = filter (\<lambda>c. c \<noteq> []) cs"
proof (induction cs)
  case (Cons c cs)
  then have c: "CHR '';'' \<notin> set c" "NUL \<notin> set c" by auto
  have row: "row_text (c # cs) = c @ CHR '';'' # row_text cs" by (simp add: row_text_def)
  have "tokens (CHR '';'') (c @ CHR '';'' # row_text cs) = (if c = [] then [] else [c]) @ tokens (CHR '';'') (row_text cs)"
    using c by (simp add: tokens_def cstr_append cstr_semicolon)
  with Cons row show ?case by simp
qed (simp add: row_text_def)

lemma length_split_on: "length (split_on d s) \<le> Suc (length s)"
  by (induction d s rule: split_on.induct) (auto split: list.split)

lemma length_tokens: "length (tokens d s) \<le> Suc (length s)"
  unfolding tokens_def using length_filter_le length_split_on length_cstr order_trans by (metis Suc_le_mono)

lemma config_row:
  assumes "plain_row cs"
  shows "GetMysqlFieldsApiGateWayConfig (row_text cs) = Some (cs ! 0, config_of cs)"
proof -
  have "\<forall>c \<in> set cs. c \<noteq> [] \<and> CHR '';'' \<notin> set c \<and> NUL \<notin> set c" using assms by (auto simp: plain_row_def plain_column_def list_all_iff)
  then have ts: "tokens (CHR '';'') (row_text cs) = cs" using tokens_row [of cs] by (simp add: filter_id_conv)
  have "length (tokens (CHR ''|'') (cs ! 4)) < 1024" using length_tokens [of "CHR ''|''" "cs ! 4"] assms by (simp add: plain_row_def)
  with ts assms show ?thesis by (simp add: GetMysqlFieldsApiGateWayConfig_def config_of_def plain_row_def)
qed

lemma GetColumnValue_row:
  assumes "pmysqlConn c = Some h" "mysqlRow c = Some (map Some cs)" "mysql_field_count M h w = length cs" "list_all plain_column cs"
  shows "GetColumnValue M (w, c) = Some (row_text cs)"
proof -
  have "map (column_text \<circ> Some) cs = map (\<lambda>c. c @ '';'') cs"
    using assms(4) by (simp add: column_text_def plain_column_def list_all_iff)
  then have "concat (map (column_text \<circ> Some) cs) = row_text cs" by (simp only: row_text_def)
  then show ?thesis using assms(1-3) by (simp add: GetColumnValue_def GetMysqlTotalColumns_def)
qed

definition insert_rows :: "string list list \<Rightarrow> BDXAPIGATEWAYCONFIF_S smap \<Rightarrow> BDXAPIGATEWAYCONFIF_S smap" where
  "insert_rows css m = foldl (\<lambda>m cs. smap_insert (cs ! 0) (config_of cs) m) m css"

lemma fetch_rows_all:
  assumes "cursor M rows" "list_all plain_row css" "rows r w = map (map Some) css" "pmysqlRes c = Some r" "pmysqlConn c = Some h"
    "mysql_field_count M h w = 11"
  shows "\<exists>w' c'. fetch_rows M m (w, c) = Some (insert_rows css m, w', c') \<and> pmysqlRes c' = Some r \<and> pmysqlConn c' = Some h \<and>
    bInitFlag c' = bInitFlag c"
  using assms(2-6)
proof (induction css arbitrary: m w c)
  case Nil
  obtain w' where "mysql_fetch_row M r w = (None, w')" using assms(1) Nil(2) by (metis (no_types, lifting) cursor_def list.simps(4,8) prod.collapse)
  with Nil show ?case by (subst fetch_rows.simps) (simp add: MysqlFetchRow_def insert_rows_def)
next
  case (Cons cs css)
  obtain w' where f: "mysql_fetch_row M r w = (Some (map Some cs), w')" and w': "rows r w' = map (map Some) css" "mysql_field_count M h w' = 11"
    using assms(1) [unfolded cursor_def, THEN spec, of r, THEN spec, of w] Cons.prems(2,5)
    by (cases "mysql_fetch_row M r w") auto
  let ?c = "c\<lparr>mysqlRow := Some (map Some cs)\<rparr>"
  have cs: "plain_row cs" "list_all plain_row css" using Cons.prems(1) by simp_all
  then have "GetColumnValue M (w', ?c) = Some (row_text cs)"
    using Cons.prems(4) w'(2) by (intro GetColumnValue_row) (simp_all add: plain_row_def)
  moreover from Cons.IH [of w' ?c "smap_insert (cs ! 0) (config_of cs) m"] cs(2) w' Cons.prems(3,4)
  obtain w'' c'' where "fetch_rows M (smap_insert (cs ! 0) (config_of cs) m) (w', ?c) =
      Some (insert_rows css (smap_insert (cs ! 0) (config_of cs) m), w'', c'')"
    "pmysqlRes c'' = Some r" "pmysqlConn c'' = Some h" "bInitFlag c'' = bInitFlag c" by auto
  ultimately show ?case
    using f Cons.prems(3) config_row [OF cs(1)]
    by (subst fetch_rows.simps) (simp add: MysqlFetchRow_def insert_rows_def)
qed

lemma insert_rows_lookup:
  "smap_ok m \<Longrightarrow> smap_ok (insert_rows css m) \<and>
   smap_find (insert_rows css m) = map_of (map (\<lambda>cs. (cs ! 0, config_of cs)) css) ++ smap_find m"
proof (induction css arbitrary: m)
  case (Cons cs css)
  then show ?case
    using Cons.IH [of "smap_insert (cs ! 0) (config_of cs) m"]
    by (auto simp: insert_rows_def smap_insert_lookup map_add_def fun_eq_iff split: option.splits)
qed (simp add: insert_rows_def)

section \<open>Theorems\<close>


text \<open>A database that holds the rows still to be fetched.\<close>

definition toy_mysql :: "string option list list mysql_api" where
  "toy_mysql =
     \<lparr>mysql_init = (\<lambda>w. (Some 0, w)), mysql_real_connect = (\<lambda>_ _ _ _ _ _ w. (Some 0, w)), mysql_query = (\<lambda>_ _ w. (0, w)),
      mysql_use_result = (\<lambda>_ w. (Some 0, w)),
      mysql_fetch_row = (\<lambda>_ w. case w of [] \<Rightarrow> (None, []) | row # rest \<Rightarrow> (Some row, rest)),
      mysql_field_count = (\<lambda>_ _. 11), mysql_fetch_field = (\<lambda>_ w. (None, w)), mysql_free_result = (\<lambda>_ w. w), mysql_close = (\<lambda>_ w. w)\<rparr>"

definition sample_row :: "string list" where
  "sample_row = [''api'', ''page'', ''/p'', ''10.0.0.1:80'', ''tel=1|city=0'', ''k'', ''0'', ''1'', ''9'', ''1'', ''t'']"

lemma toy_cursor: "cursor toy_mysql (\<lambda>_ w. w)"
  by (auto simp: cursor_def toy_mysql_def split: list.split)

lemma sample_row_ok: "plain_row sample_row"
  by (simp add: plain_row_def plain_column_def sample_row_def NUL_def)

abbreviation toy_client :: CMYSQL where
  "toy_client \<equiv> \<lparr>pmysqlConn = Some 0, pmysqlRes = None, mysqlRow = None, bInitFlag = True, totalRecords = 0\<rparr>"

abbreviation toy_info :: MYSQL_SERVERINFO_S where
  "toy_info \<equiv> \<lparr>m_stMysqlLinkInfo = \<lparr>m_pchIp = [], m_uiPort = 0, m_idx = 0, m_count = 0\<rparr>, pchUserName = [], pchPassWord = [], pchDbName = []\<rparr>"


text \<open>
  C35. A change of the request parameters alone never reaches the table: when the fresh table has the same
  names and agrees in everything but the parameters, the old table stays.
\<close>

theorem params_change_ignored:
  assumes "smap_ok global"
  shows "sync_config (map (\<lambda>(k, v). (k, v\<lparr>mStrReqParams := f k\<rparr>)) global) global = global"
proof -
  let ?fresh = "map (\<lambda>(k, v). (k, v\<lparr>mStrReqParams := f k\<rparr>)) global"
  have "smap_ok ?fresh" using assms by (simp add: smap_ok_def comp_def case_prod_beta)
  moreover have "map_of ?fresh k = map_option (\<lambda>v. v\<lparr>mStrReqParams := f k\<rparr>) (map_of global k)" for k
    by (induction global) auto
  then have "rel_option same_config (smap_find ?fresh k) (smap_find global k)" for k
    by (cases "map_of global k") (simp_all add: same_config_def)
  ultimately have "MapGateWayConfigIsEqual ?fresh global" using configs.equal_lookup assms by blast
  then show ?thesis by (simp add: sync_config_def)
qed

theorem params_change_ignored_witness:
  "sync_config [(''api'', (config_of sample_row)\<lparr>mStrReqParams := [''id=1'']\<rparr>)] [(''api'', config_of sample_row)] =
     [(''api'', config_of sample_row)]"
  using params_change_ignored [of "[(''api'', config_of sample_row)]" "\<lambda>_. [''id=1'']"] by (simp add: smap_ok_def)

text \<open>
  An empty column takes the process down: of a row with eleven columns of which at least one is empty,
  \<open>strtok_r\<close> returns at most ten, and the missing ones are null pointers.
\<close>

theorem empty_column_crashes:
  assumes "length cs = 11" "[] \<in> set cs" "\<forall>c \<in> set cs. CHR '';'' \<notin> set c \<and> NUL \<notin> set c"
  shows "GetMysqlFieldsApiGateWayConfig (row_text cs) = None"
proof -
  have "length (filter (\<lambda>c. c \<noteq> []) cs) < length cs" using assms(2) by (rule length_filter_less) simp
  then show ?thesis using assms(1) tokens_row [OF assms(3)] by (simp add: GetMysqlFieldsApiGateWayConfig_def)
qed

theorem empty_column_crashes_witness:
  "GetMysqlFieldsApiGateWayConfig (row_text (sample_row[5 := []])) = None"
  by (rule empty_column_crashes) (simp_all add: sample_row_def NUL_def)

lemma find_delim_at:
  "CHR ''#'' \<notin> set b \<Longrightarrow> length a + length b < 2 ^ 31 \<Longrightarrow> find_delim (a @ b @ CHR ''#'' # rest) (int (length a)) = int (length a + length b)"
proof -
  assume b: "CHR ''#'' \<notin> set b" and len: "length a + length b < 2 ^ 31"
  have "find_sub ''#'' (b @ CHR ''#'' # rest) = Some (length b)" using find_sub_single [OF b] by simp
  then have "str_find (a @ b @ CHR ''#'' # rest) ''#'' (length a) = Some (length a + length b)"
    by (simp add: str_find_def)
  moreover have "to_int32 (int (length a + length b)) = int (length a + length b)" using len by (intro to_int32_id) auto
  ultimately show ?thesis by (simp add: find_delim_def pos_int_def)
qed

lemma find_delim_none: "CHR ''#'' \<notin> set b \<Longrightarrow> find_delim (a @ b) (int (length a)) = -1"
  using find_sub_absent [of "CHR ''#''" b] by (simp add: find_delim_def str_find_def pos_int_def)

text \<open>
  The member of the set of orders to report is cut back into the user, repository, item and
  subscription it was made of, when none of them has a delimiter in it.
\<close>

theorem split_member_round_trip:
  assumes "CHR ''#'' \<notin> set user" "CHR ''#'' \<notin> set repo" "CHR ''#'' \<notin> set item" "CHR ''#'' \<notin> set subid"
    "length user + length repo + length item < 2 ^ 30"
  shows "split_member (order_prefix user repo item @ subid) = Some (user, repo, item, subid)"
proof -
  let ?s = "user @ CHR ''#'' # repo @ CHR ''#'' # item @ CHR ''#'' # subid"
  have s: "order_prefix user repo item @ subid = ?s" by (simp add: order_prefix_def)
  have 1: "find_delim ?s 0 = int (length user)"
    using find_delim_at [OF assms(1), of "[]" "repo @ CHR ''#'' # item @ CHR ''#'' # subid"] assms(5) by simp
  have 2: "find_delim ?s (int (length user) + 1) = int (length user) + 1 + int (length repo)"
    using find_delim_at [OF assms(2), of "user @ ''#''" "item @ CHR ''#'' # subid"] assms(5) by (simp add: add.commute)
  have 3: "find_delim ?s (int (length user) + 1 + int (length repo) + 1) = int (length user) + 1 + int (length repo) + 1 + int (length item)"
    using find_delim_at [OF assms(3), of "user @ ''#'' @ repo @ ''#''" subid] assms(5) by (simp add: algebra_simps)
  have 4: "find_delim ?s (int (length user) + 1 + int (length repo) + 1 + int (length item) + 1) = -1"
    using find_delim_none [OF assms(4), of "user @ ''#'' @ repo @ ''#'' @ item @ ''#''"] by (simp add: algebra_simps)
  show ?thesis
    unfolding s split_member_def Let_def 1 2 3 4
    by (simp add: substr_int_def str_substr_def str_substr_end_def nat_add_distrib numeral_3_eq_3)
qed

theorem split_member_round_trip_witness:
  "split_member ''al#r#i#7'' = Some (''al'', ''r'', ''i'', ''7'')"
  using split_member_round_trip [of "''al''" "''r''" "''i''" "''7''"] by (simp add: order_prefix_def)

end
