(* ===== verification/Statistics.thy ===== *)
theory Statistics
  imports Files Update Server
begin

text \<open>
  The two threads that write statistics: \<open>src/UserQueryCount/UserQueryCount.cpp\<close>, which collects the
  counters of the working threads, and \<open>src/UserQueryHiveLog/UserQueryHiveLog.cpp\<close>, which takes the records
  of the calls from their queues. Both write a text file per day or hour and a table of the database.

  A round is taken as one step: the vectors that the working threads fill have no lock. \<open>None\<close> is a null
  or closed stream, a null connection or an overrun of an array. Output on the terminal is left out.
\<close>

section \<open>What both threads use\<close>

text \<open>\<open>h_rand\<close> is the first \<open>rand()\<close> after the generator has been seeded with the time.\<close>

record 'w host =
  h_stdio :: "'w stdio"
  h_mysql :: "'w mysql_api"
  h_now :: "'w \<Rightarrow> tm"
  h_rand :: "'w \<Rightarrow> nat"

abbreviation TAB :: char where "TAB \<equiv> CHR 0x09"

text \<open>The line breaks of the literals are spliced, the tabulators stay.\<close>

abbreviation TABS :: string where "TABS \<equiv> replicate 7 TAB"

definition minute_text :: "tm \<Rightarrow> string" where
  "minute_text t =
     show_04d (tm_year t + 1900) @ ''-'' @ show_02d (tm_mon t + 1) @ ''-'' @ show_02d (tm_mday t) @ '' '' @
     show_02d (tm_hour t) @ '':'' @ show_02d (tm_min t)"

definition reconnect :: "'w host \<Rightarrow> MYSQL_SERVERINFO_S \<Rightarrow> 'w sqlstate \<Rightarrow> 'w sqlstate" where
  "reconnect H info st =
     (if \<not> GetMysqlInitState (snd st) then
        snd (InitMysql (h_mysql H) (cstr (m_pchIp (m_stMysqlLinkInfo info))) (m_uiPort (m_stMysqlLinkInfo info))
          (cstr (pchUserName info)) (cstr (pchPassWord info)) (cstr (pchDbName info)) st)
      else st)"

text \<open>The results of the three statements only decide what is logged.\<close>

definition sql_insert :: "'w host \<Rightarrow> MYSQL_SERVERINFO_S \<Rightarrow> string \<Rightarrow> 'w sqlstate \<Rightarrow> 'w sqlstate option" where
  "sql_insert H info insertMysqlValue st =
     do { (_, st) \<leftarrow> ExecuteMySql (h_mysql H) ''set names utf8'' st;
          (_, st) \<leftarrow> ExecuteMySql (h_mysql H) (''alter database '' @ cstr (pchDbName info) @ '' default character set utf8'') st;
          (_, st) \<leftarrow> ExecuteMySql (h_mysql H) (cstr insertMysqlValue) st;
          Some st }"

definition close_stream :: "'w stdio \<Rightarrow> nat option \<Rightarrow> 'w \<Rightarrow> 'w option" where
  "close_stream F m_pFile w = (case m_pFile of None \<Rightarrow> Some w | Some h \<Rightarrow> f_close F h w)"

fun each :: "('e \<Rightarrow> 's \<Rightarrow> 's option) \<Rightarrow> 'e list \<Rightarrow> 's \<Rightarrow> 's option" where
  "each f [] st = Some st"
| "each f (e # es) st = do { st \<leftarrow> f e st; each f es st }"

section \<open>CUserQueryCount\<close>

record CUserQueryCount =
  c_pFile :: "nat option"
  c_stStatisticsPrm :: STATISTICSPRM_S
  c_stReport :: report
  c_RandomInt :: nat
  c_mysql :: CMYSQL

definition BdxUserQueryCountGetDate :: "tm \<Rightarrow> string option" where
  "BdxUserQueryCountGetDate t = dt20 (show_4d (tm_year t + 1900) @ show_02d (tm_mon t + 1) @ show_02d (tm_mday t))"

definition count_dir :: "STATISTICSPRM_S \<Rightarrow> string \<Rightarrow> string" where
  "count_dir prm date = m_strStatisticsPath prm @ ''/'' @ date"

definition count_file :: "STATISTICSPRM_S \<Rightarrow> string \<Rightarrow> string \<Rightarrow> string" where
  "count_file prm date randomchar =
     count_dir prm date @ ''/'' @ m_strStatisticsFileName prm @ ''_'' @ date @ ''_'' @ randomchar @ ''.txt''"

definition BdxQueryCountWriteTitle :: "'w stdio \<Rightarrow> nat option \<Rightarrow> 'w \<Rightarrow> 'w option" where
  "BdxQueryCountWriteTitle F m_pFile w =
     do { h \<leftarrow> m_pFile;
          (_, w) \<leftarrow> f_print F h (''DateTime'' @ [TAB] @ ''AccessKeyID'' @ [TAB] @ ''QueryReq'' @ [TAB] @ ''QueryRes'' @ [TAB] @
            ''QueryEmptyRes'' @ [TAB] @ ''QueryLimit'' @ [TAB, CTRL_N]) w;
          Some w }"

definition open_titled :: "'w stdio \<Rightarrow> string \<Rightarrow> 'w \<Rightarrow> (nat option \<times> 'w) option" where
  "open_titled F strFileName w =
     (let (m_pFile, w) = f_open F strFileName ''a'' w
      in do { w \<leftarrow> (if f_size F strFileName w = Some 0 then BdxQueryCountWriteTitle F m_pFile w else Some w);
              Some (m_pFile, w) })"

definition BdxQueryCountOpenFile :: "'w host \<Rightarrow> 'w \<times> CUserQueryCount \<Rightarrow> ('w \<times> CUserQueryCount) option" where
  "BdxQueryCountOpenFile H = (\<lambda>(w, c).
     do { randomchar \<leftarrow> sprintf_into 5 (show_nat (c_RandomInt c));
          date \<leftarrow> BdxUserQueryCountGetDate (h_now H w);
          let strFileName = cstr (count_file (c_stStatisticsPrm c) date randomchar);
          if \<not> FileBeExists (h_stdio H) strFileName w then
            do { w \<leftarrow> close_stream (h_stdio H) (c_pFile c) w;
                 (m_pFile, w) \<leftarrow> open_titled (h_stdio H) strFileName w;
                 Some (w, c\<lparr>c_pFile := m_pFile\<rparr>) }
          else Some (w, c) })"

text \<open>The reports of the threads, added up and cleared.\<close>

fun BdxQueryCountGetReport :: "report \<Rightarrow> report list \<Rightarrow> report \<times> report list" where
  "BdxQueryCountGetReport m_stReport [] = (m_stReport, [])"
| "BdxQueryCountGetReport m_stReport (r # rs) =
     (let (m, rs) = BdxQueryCountGetReport (report_add m_stReport r) rs in (m, report_clear r # rs))"

text \<open>\<open>c0\<close> is the memory of the new client object.\<close>

definition new_CUserQueryCount :: "'w host \<Rightarrow> STATISTICSPRM_S \<Rightarrow> MYSQL_SERVERINFO_S \<Rightarrow> CMYSQL \<Rightarrow> 'w \<Rightarrow> report list \<Rightarrow>
    ('w \<times> report list \<times> CUserQueryCount) option" where
  "new_CUserQueryCount H prm info c0 w rs =
     do { let m_RandomInt = h_rand H w mod 100000;
          randomchar \<leftarrow> sprintf_into 5 (show_nat m_RandomInt);
          date \<leftarrow> BdxUserQueryCountGetDate (h_now H w);
          let statusDir = cstr (count_dir prm date);
          let w = (if \<not> FileBeExists (h_stdio H) statusDir w then snd (FileCreatDir (h_stdio H) statusDir w) else w);
          (m_pFile, w) \<leftarrow> open_titled (h_stdio H) (cstr (count_file prm date randomchar)) w;
          let (m_stReport, rs) = BdxQueryCountGetReport [] rs;
          let (_, w, sql) = InitMysql (h_mysql H) (cstr (m_pchIp (m_stMysqlLinkInfo info))) (m_uiPort (m_stMysqlLinkInfo info))
                (cstr (pchUserName info)) (cstr (pchPassWord info)) (cstr (pchDbName info)) (w, c0);
          Some (w, rs, \<lparr>c_pFile = m_pFile, c_stStatisticsPrm = prm, c_stReport = m_stReport, c_RandomInt = m_RandomInt, c_mysql = sql\<rparr>) }"

definition count_table :: string where
  "count_table =
     ''create table if not exists apigateway_req_count'' @
     ''( id int(10) unsigned NOT NULL AUTO_INCREMENT ,'' @ TABS @ ''log_time datetime DEFAULT NULL ,'' @ TABS @
     ''accessKeyId varchar(200) DEFAULT NULL ,'' @ TABS @ ''reqCount varchar(20) DEFAULT NULL ,'' @ TABS @
     ''resCount varchar(20) DEFAULT NULL,'' @ TABS @ ''emptyCount varchar(20) DEFAULT NULL,'' @ TABS @
     ''PRIMARY KEY (id)) ENGINE=InnoDB AUTO_INCREMENT=1 DEFAULT CHARSET=utf8 ;''"

definition user_line :: "tm \<Rightarrow> string \<times> USERINFO_S \<Rightarrow> string" where
  "user_line t = (\<lambda>(user, u).
     minute_text t @ [TAB] @ cstr user @ [TAB] @ show_nat (unat (m_ullReqNum u)) @ [TAB] @ show_nat (unat (m_ullResNum u)) @ [TAB] @
     show_nat (unat (m_ullEmptyResNum u)) @ [TAB] @ show_nat (unat (m_ullResTagNum u)) @ [CTRL_N])"

text \<open>\<open>%d\<close> prints the lower half of a 64-bit counter, as a signed number.\<close>

definition count_text :: "u64 \<Rightarrow> string option" where
  "count_text n = sprintf_into 20 (show_int (to_int32 (uint n)))"

definition count_insert :: "string \<Rightarrow> string \<Rightarrow> string \<Rightarrow> string \<Rightarrow> string \<Rightarrow> string" where
  "count_insert logDate user req res emp =
     ''insert into apigateway_req_count(log_time,accessKeyId,reqCount,resCount,emptyCount)values'' @
     ''('' @ [CHR 0x27] @ logDate @ [CHR 0x27] @ '','' @ [CHR 0x27] @ user @ [CHR 0x27] @ '','' @ [CHR 0x27] @ req @ [CHR 0x27] @ '','' @
     [CHR 0x27] @ res @ [CHR 0x27] @ '','' @ [CHR 0x27] @ emp @ [CHR 0x27] @ '');''"

definition write_user :: "'w host \<Rightarrow> MYSQL_SERVERINFO_S \<Rightarrow> tm \<Rightarrow> nat option \<Rightarrow> string \<times> USERINFO_S \<Rightarrow> 'w sqlstate \<Rightarrow> 'w sqlstate option" where
  "write_user H info t m_pFile = (\<lambda>(user, u) (w, c).
     do { h \<leftarrow> m_pFile;
          (_, w) \<leftarrow> f_print (h_stdio H) h (minute_text t @ [TAB]) w;
          (_, w) \<leftarrow> f_print (h_stdio H) h
            (cstr user @ [TAB] @ show_nat (unat (m_ullReqNum u)) @ [TAB] @ show_nat (unat (m_ullResNum u)) @ [TAB] @
             show_nat (unat (m_ullEmptyResNum u)) @ [TAB] @ show_nat (unat (m_ullResTagNum u)) @ [CTRL_N]) w;
          logDate \<leftarrow> sprintf_into 30 (minute_text t);
          chReqCount \<leftarrow> count_text (m_ullReqNum u);
          chResCount \<leftarrow> count_text (m_ullResNum u);
          chEmptyCount \<leftarrow> count_text (m_ullEmptyResNum u);
          sql_insert H info (count_insert logDate user chReqCount chResCount chEmptyCount) (w, c) })"

text \<open>One round of the endless loop of \<open>CUserQueryCount::Core\<close>.\<close>

definition count_round :: "'w host \<Rightarrow> MYSQL_SERVERINFO_S \<Rightarrow> 'w \<times> report list \<times> CUserQueryCount \<Rightarrow>
    ('w \<times> report list \<times> CUserQueryCount) option" where
  "count_round H info = (\<lambda>(w, rs, c).
     do { (w, c) \<leftarrow> BdxQueryCountOpenFile H (w, c);
          let (m_stReport, rs) = BdxQueryCountGetReport (c_stReport c) rs;
          let timeinfo = h_now H w;
          (_, st) \<leftarrow> ExecuteMySql (h_mysql H) count_table (reconnect H info (w, c_mysql c));
          (w, sql) \<leftarrow> each (write_user H info timeinfo (c_pFile c)) m_stReport st;
          Some (w, rs, c\<lparr>c_stReport := report_clear m_stReport, c_mysql := sql\<rparr>) })"

section \<open>CUserQueryHiveLog\<close>

record CUserQueryHiveLog =
  v_pFile :: "nat option"
  v_stHiveLogPrm :: STATISTICSPRM_S
  v_currentHour :: string
  v_RandomInt :: nat
  v_mysql :: CMYSQL

definition BdxUserQueryHiveLogGetDate :: "tm \<Rightarrow> string option" where
  "BdxUserQueryHiveLogGetDate t = dt20 (show_4d (tm_year t + 1900) @ show_02d (tm_mon t + 1) @ show_02d (tm_mday t))"

definition BdxUserQueryHiveLogGetHour :: "tm \<Rightarrow> string option" where
  "BdxUserQueryHiveLogGetHour t = dt20 (show_02d (tm_hour t))"

definition hive_file :: "STATISTICSPRM_S \<Rightarrow> string \<Rightarrow> string \<Rightarrow> string \<Rightarrow> string" where
  "hive_file prm date hour randomchar =
     m_strStatisticsPath prm @ ''/'' @ date @ ''/'' @ m_strStatisticsFileName prm @ ''_'' @ date @ ''_'' @ hour @ ''_'' @ randomchar @ ''.txt''"

text \<open>The title is only printed on the terminal.\<close>

definition BdxQueryHiveLogOpenFile :: "'w host \<Rightarrow> 'w \<times> CUserQueryHiveLog \<Rightarrow> ('w \<times> CUserQueryHiveLog) option" where
  "BdxQueryHiveLogOpenFile H = (\<lambda>(w, c).
     do { hour \<leftarrow> BdxUserQueryHiveLogGetHour (h_now H w);
          let c = (if v_currentHour c \<noteq> hour then c\<lparr>v_RandomInt := h_rand H w mod 100000, v_currentHour := hour\<rparr> else c);
          randomchar \<leftarrow> sprintf_into 5 (show_nat (v_RandomInt c));
          date \<leftarrow> BdxUserQueryHiveLogGetDate (h_now H w);
          let strFileName = cstr (hive_file (v_stHiveLogPrm c) date hour randomchar);
          if \<not> FileBeExists (h_stdio H) strFileName w then
            do { w \<leftarrow> close_stream (h_stdio H) (v_pFile c) w;
                 let (m_pFile, w) = f_open (h_stdio H) strFileName ''a'' w;
                 Some (w, c\<lparr>v_pFile := m_pFile\<rparr>) }
          else Some (w, c) })"

definition new_CUserQueryHiveLog :: "'w host \<Rightarrow> STATISTICSPRM_S \<Rightarrow> MYSQL_SERVERINFO_S \<Rightarrow> CMYSQL \<Rightarrow> 'w \<Rightarrow> ('w \<times> CUserQueryHiveLog) option" where
  "new_CUserQueryHiveLog H prm info c0 w =
     do { let m_RandomInt = h_rand H w mod 100000;
          hour \<leftarrow> BdxUserQueryHiveLogGetHour (h_now H w);
          randomchar \<leftarrow> sprintf_into 5 (show_nat m_RandomInt);
          date \<leftarrow> BdxUserQueryHiveLogGetDate (h_now H w);
          let strHiveLogDir = cstr (m_strStatisticsPath prm @ ''/'' @ date);
          let w = (if \<not> FileBeExists (h_stdio H) strHiveLogDir w then snd (FileCreatDir (h_stdio H) strHiveLogDir w) else w);
          let (m_pFile, w) = f_open (h_stdio H) (cstr (hive_file prm date hour randomchar)) ''a'' w;
          let (_, w, sql) = InitMysql (h_mysql H) (cstr (m_pchIp (m_stMysqlLinkInfo info))) (m_uiPort (m_stMysqlLinkInfo info))
                (cstr (pchUserName info)) (cstr (pchPassWord info)) (cstr (pchDbName info)) (w, c0);
          Some (w, \<lparr>v_pFile = m_pFile, v_stHiveLogPrm = prm, v_currentHour = hour, v_RandomInt = m_RandomInt, v_mysql = sql\<rparr>) }"

definition hive_table :: "string \<Rightarrow> string" where
  "hive_table strHiveDate =
     ''create table if not exists apigateway_hive_data_'' @ strHiveDate @
     ''( id int(10) unsigned NOT NULL AUTO_INCREMENT ,'' @ TABS @ ''log_time datetime DEFAULT NULL ,'' @ TABS @
     ''reqParams varchar(1000) DEFAULT NULL ,'' @ TABS @ ''reqAction varchar(1000) DEFAULT NULL ,'' @ TABS @
     ''resultValue varchar(19800) DEFAULT NULL ,'' @ TABS @ ''queryTime bigint(20) DEFAULT NULL,'' @ TABS @
     ''log_dayID bigint(20) DEFAULT NULL ,'' @ TABS @ ''log_HourID bigint(20) DEFAULT NULL ,'' @ TABS @
     ''PRIMARY KEY (id)) ENGINE=InnoDB AUTO_INCREMENT=1 DEFAULT CHARSET=utf8 ;''"

definition hive_line :: "tm \<Rightarrow> HIVELOCALLOG_S \<Rightarrow> string" where
  "hive_line t l =
     minute_text t @ [TAB] @ cstr (h_strReqParams l) @ [TAB] @ cstr (h_strAction l) @ [TAB] @ cstr (h_strValue l) @ [TAB] @
     cstr (h_strQuerytime l) @ [TAB] @ cstr (h_strDayId l) @ [TAB] @ cstr (h_strHourId l) @ [CTRL_N]"

definition hive_insert :: "string \<Rightarrow> string \<Rightarrow> HIVELOCALLOG_S \<Rightarrow> string" where
  "hive_insert strHiveDate logDate l =
     ''insert into apigateway_hive_data_'' @ strHiveDate @
     ''(log_time,reqParams,reqAction,resultValue,queryTime,log_dayID,log_hourID)values'' @
     ''('' @ [CHR 0x27] @ logDate @ [CHR 0x27] @ '','' @ [CHR 0x27] @ h_strReqParams l @ [CHR 0x27] @ '','' @ [CHR 0x27] @ h_strAction l @
     [CHR 0x27] @ '','' @ [CHR 0x27] @ h_strValue l @ [CHR 0x27] @ '','' @ [CHR 0x27] @ h_strQuerytime l @ [CHR 0x27] @ '','' @ [CHR 0x27] @
     h_strDayId l @ [CHR 0x27] @ '','' @ [CHR 0x27] @ h_strHourId l @ [CHR 0x27] @ '');''"

definition write_log :: "string \<Rightarrow> 'w host \<Rightarrow> MYSQL_SERVERINFO_S \<Rightarrow> tm \<Rightarrow> nat option \<Rightarrow> HIVELOCALLOG_S \<Rightarrow> 'w sqlstate \<Rightarrow> 'w sqlstate option" where
  "write_log strHiveDate H info t m_pFile l = (\<lambda>(w, c).
     do { h \<leftarrow> m_pFile;
          (_, w) \<leftarrow> f_print (h_stdio H) h (minute_text t @ [TAB]) w;
          (_, w) \<leftarrow> f_print (h_stdio H) h
            (cstr (h_strReqParams l) @ [TAB] @ cstr (h_strAction l) @ [TAB] @ cstr (h_strValue l) @ [TAB] @
             cstr (h_strQuerytime l) @ [TAB] @ cstr (h_strDayId l) @ [TAB] @ cstr (h_strHourId l) @ [CTRL_N]) w;
          logDate \<leftarrow> sprintf_into 30 (minute_text t);
          sql_insert H info (hive_insert strHiveDate logDate l) (w, c) })"

text \<open>A queue is emptied from its front before the next one is looked at.\<close>

fun drain_queues :: "(HIVELOCALLOG_S \<Rightarrow> 's \<Rightarrow> 's option) \<Rightarrow> HIVELOCALLOG_S list list \<Rightarrow> 's \<Rightarrow> (HIVELOCALLOG_S list list \<times> 's) option" where
  "drain_queues f [] st = Some ([], st)"
| "drain_queues f (q # qs) st = do { st \<leftarrow> each f q st; (qs, st) \<leftarrow> drain_queues f qs st; Some ([] # qs, st) }"

text \<open>One round of the endless loop of \<open>CUserQueryHiveLog::Core\<close>.\<close>

definition hive_round :: "'w host \<Rightarrow> MYSQL_SERVERINFO_S \<Rightarrow> 'w \<times> HIVELOCALLOG_S list list \<times> CUserQueryHiveLog \<Rightarrow>
    ('w \<times> HIVELOCALLOG_S list list \<times> CUserQueryHiveLog) option" where
  "hive_round H info = (\<lambda>(w, qs, c).
     do { strHiveDate \<leftarrow> BdxUserQueryHiveLogGetDate (h_now H w);
          (w, c) \<leftarrow> BdxQueryHiveLogOpenFile H (w, c);
          let timep = h_now H w;
          (_, st) \<leftarrow> ExecuteMySql (h_mysql H) (cstr (hive_table strHiveDate)) (reconnect H info (w, v_mysql c));
          (qs, w, sql) \<leftarrow> drain_queues (write_log strHiveDate H info timep (v_pFile c)) qs st;
          Some (w, qs, c\<lparr>v_mysql := sql\<rparr>) })"

section \<open>The contract of a row\<close>

text \<open>The database does not write the files of the gateway.\<close>

definition apart :: "'w mysql_api \<Rightarrow> (string \<Rightarrow> 'w \<Rightarrow> string) \<Rightarrow> (nat \<Rightarrow> 'w \<Rightarrow> string option) \<Rightarrow> bool" where
  "apart M content handle \<longleftrightarrow>
     (\<forall>h s w p k. content p (snd (mysql_query M h s w)) = content p w \<and> handle k (snd (mysql_query M h s w)) = handle k w)"

definition writable :: "'w host \<Rightarrow> (string \<Rightarrow> 'w \<Rightarrow> string) \<Rightarrow> (nat \<Rightarrow> 'w \<Rightarrow> string option) \<Rightarrow> bool" where
  "writable H content handle \<longleftrightarrow>
     streams (h_stdio H) content handle \<and> never_fails (h_stdio H) \<and> apart (h_mysql H) content handle"

lemma execute_apart:
  assumes "apart M content handle" "pmysqlConn c = Some s"
  obtains ok w' where "ExecuteMySql M sql (w, c) = Some (ok, w', c)" "\<And>p. content p w' = content p w" "\<And>k. handle k w' = handle k w"
proof -
  obtain r w' where q: "mysql_query M s sql w = (r, w')" by fastforce
  with assms(1) have "content p w' = content p w" "handle k w' = handle k w" for p k
    unfolding apart_def by (metis snd_conv)+
  with that [of "r = 0" w'] q assms(2) show thesis by (simp add: ExecuteMySql_def)
qed

lemma sql_insert_apart:
  assumes "apart (h_mysql H) content handle" "pmysqlConn c = Some s"
  obtains w' where "sql_insert H info stmt (w, c) = Some (w', c)" "\<And>p. content p w' = content p w" "\<And>k. handle k w' = handle k w"
proof -
  let ?M = "h_mysql H" and ?alter = "''alter database '' @ cstr (pchDbName info) @ '' default character set utf8''"
  obtain r1 w1 where 1: "ExecuteMySql ?M ''set names utf8'' (w, c) = Some (r1, w1, c)" "\<And>p. content p w1 = content p w" "\<And>k. handle k w1 = handle k w"
    using execute_apart [OF assms, of "''set names utf8''" w] by blast
  obtain r2 w2 where 2: "ExecuteMySql ?M ?alter (w1, c) = Some (r2, w2, c)" "\<And>p. content p w2 = content p w1" "\<And>k. handle k w2 = handle k w1"
    using execute_apart [OF assms, of ?alter w1] by blast
  obtain r3 w3 where 3: "ExecuteMySql ?M (cstr stmt) (w2, c) = Some (r3, w3, c)" "\<And>p. content p w3 = content p w2" "\<And>k. handle k w3 = handle k w2"
    using execute_apart [OF assms, of "cstr stmt" w2] by blast
  show thesis using that [of w3] 1 2 3 by (simp add: sql_insert_def)
qed

text \<open>Both kinds of rows are written in the same way: a line at the end of the file, then the database.\<close>

locale row_writer =
  fixes write_row :: "'w host \<Rightarrow> MYSQL_SERVERINFO_S \<Rightarrow> tm \<Rightarrow> nat option \<Rightarrow> 'e \<Rightarrow> 'w sqlstate \<Rightarrow> 'w sqlstate option"
    and row_line :: "tm \<Rightarrow> 'e \<Rightarrow> string"
  assumes row: "writable H content handle \<Longrightarrow> tm_ok t \<Longrightarrow> handle f w = Some p \<Longrightarrow> pmysqlConn c = Some s \<Longrightarrow>
      \<exists>w'. write_row H info t (Some f) e (w, c) = Some (w', c) \<and> content p w' = content p w @ row_line t e \<and> handle f w' = Some p"
    and row_needs_stream: "write_row H info t None e st = None"
begin

lemma rows:
  assumes "writable H content handle" "tm_ok t" "handle f w = Some p" "pmysqlConn c = Some s"
  shows "\<exists>w'. each (write_row H info t (Some f)) es (w, c) = Some (w', c) \<and> content p w' = content p w @ concat (map (row_line t) es) \<and>
    handle f w' = Some p"
  using assms(3)
proof (induction es arbitrary: w)
  case (Cons e es)
  obtain w1 where w1: "write_row H info t (Some f) e (w, c) = Some (w1, c)" "content p w1 = content p w @ row_line t e" "handle f w1 = Some p"
    using row [OF assms(1,2) Cons.prems assms(4)] by blast
  with Cons.IH [OF w1(3)] show ?case by auto
qed simp

lemma rows_need_stream: "es \<noteq> [] \<Longrightarrow> each (write_row H info t None) es st = None"
  by (cases es) (simp_all add: row_needs_stream)

end

lemma minute_text_fits: "tm_ok t \<Longrightarrow> sprintf_into 30 (minute_text t) = Some (minute_text t)"
proof -
  assume t: "tm_ok t"
  have "length (show_nat (tm_year t + 1900)) \<le> 4" "length (show_nat (tm_mon t + 1)) \<le> 2" "length (show_nat (tm_mday t)) \<le> 2"
    "length (show_nat (tm_hour t)) \<le> 2" "length (show_nat (tm_min t)) \<le> 2"
    using t by (auto simp: tm_ok_def intro!: length_show_nat)
  then show ?thesis by (simp add: sprintf_into_def minute_text_def show_04d_def show_02d_def pad_left_def)
qed

text \<open>No counter overruns the arrays of 20 characters.\<close>

lemma count_text_fits: "count_text n = Some (show_int (to_int32 (uint n)))"
proof -
  have "- (2 ^ 31) \<le> to_int32 (uint n)" "to_int32 (uint n) < 2 ^ 31" using to_int32_bounds by blast+
  then have "nat \<bar>to_int32 (uint n)\<bar> < 10 ^ 10" by (simp add: nat_less_iff)
  then have "length (show_nat (nat \<bar>to_int32 (uint n)\<bar>)) \<le> 10" by (rule length_show_nat) simp
  then have "length (show_int (to_int32 (uint n))) \<le> 11" by (auto simp: show_int_def abs_if split: if_splits)
  then show ?thesis by (simp add: count_text_def sprintf_into_def)
qed

lemma two_prints:
  assumes "writable H content handle" "handle f w = Some p"
  obtains w1 w2 where "f_print (h_stdio H) f a w = Some (True, w1)" "f_print (h_stdio H) f b w1 = Some (True, w2)"
    "content p w2 = content p w @ a @ b" "handle f w2 = Some p"
proof -
  have s: "streams (h_stdio H) content handle" "never_fails (h_stdio H)" using assms(1) by (simp_all add: writable_def)
  obtain w1 where w1: "f_print (h_stdio H) f a w = Some (True, w1)" "content p w1 = content p w @ a" "\<And>k. handle k w1 = handle k w"
    using print_appends [OF s assms(2), of a] by metis
  then have h1: "handle f w1 = Some p" using assms(2) by simp
  obtain w2 where w2: "f_print (h_stdio H) f b w1 = Some (True, w2)" "content p w2 = content p w1 @ b" "\<And>k. handle k w2 = handle k w1"
    using print_appends [OF s h1, of b] by metis
  show thesis using that [OF w1(1) w2(1)] w1(2) w2(2,3) h1 by simp
qed

lemma write_user_row:
  assumes "writable H content handle" "tm_ok t" "handle f w = Some p" "pmysqlConn c = Some s"
  shows "\<exists>w'. write_user H info t (Some f) e (w, c) = Some (w', c) \<and> content p w' = content p w @ user_line t e \<and> handle f w' = Some p"
proof -
  obtain user u where e: "e = (user, u)" by (cases e)
  let ?b = "cstr user @ [TAB] @ show_nat (unat (m_ullReqNum u)) @ [TAB] @ show_nat (unat (m_ullResNum u)) @ [TAB] @
             show_nat (unat (m_ullEmptyResNum u)) @ [TAB] @ show_nat (unat (m_ullResTagNum u)) @ [CTRL_N]"
  obtain w1 w2 where p: "f_print (h_stdio H) f (minute_text t @ [TAB]) w = Some (True, w1)" "f_print (h_stdio H) f ?b w1 = Some (True, w2)"
    "content p w2 = content p w @ (minute_text t @ [TAB]) @ ?b" "handle f w2 = Some p"
    using two_prints [OF assms(1,3), of "minute_text t @ [TAB]" ?b] by blast
  let ?stmt = "count_insert (minute_text t) user (show_int (to_int32 (uint (m_ullReqNum u))))
      (show_int (to_int32 (uint (m_ullResNum u)))) (show_int (to_int32 (uint (m_ullEmptyResNum u))))"
  have ap: "apart (h_mysql H) content handle" using assms(1) by (simp add: writable_def)
  obtain w3 where "sql_insert H info ?stmt (w2, c) = Some (w3, c)" "\<And>p. content p w3 = content p w2" "\<And>k. handle k w3 = handle k w2"
    using sql_insert_apart [OF ap assms(4), of info ?stmt w2] by blast
  with p minute_text_fits [OF assms(2)] show ?thesis by (simp add: e write_user_def user_line_def count_text_fits)
qed

lemma write_log_row:
  assumes "writable H content handle" "tm_ok t" "handle f w = Some p" "pmysqlConn c = Some s"
  shows "\<exists>w'. write_log date H info t (Some f) e (w, c) = Some (w', c) \<and> content p w' = content p w @ hive_line t e \<and> handle f w' = Some p"
proof -
  let ?b = "cstr (h_strReqParams e) @ [TAB] @ cstr (h_strAction e) @ [TAB] @ cstr (h_strValue e) @ [TAB] @
             cstr (h_strQuerytime e) @ [TAB] @ cstr (h_strDayId e) @ [TAB] @ cstr (h_strHourId e) @ [CTRL_N]"
  obtain w1 w2 where p: "f_print (h_stdio H) f (minute_text t @ [TAB]) w = Some (True, w1)" "f_print (h_stdio H) f ?b w1 = Some (True, w2)"
    "content p w2 = content p w @ (minute_text t @ [TAB]) @ ?b" "handle f w2 = Some p"
    using two_prints [OF assms(1,3), of "minute_text t @ [TAB]" ?b] by blast
  let ?stmt = "hive_insert date (minute_text t) e"
  have ap: "apart (h_mysql H) content handle" using assms(1) by (simp add: writable_def)
  obtain w3 where "sql_insert H info ?stmt (w2, c) = Some (w3, c)" "\<And>p. content p w3 = content p w2" "\<And>k. handle k w3 = handle k w2"
    using sql_insert_apart [OF ap assms(4), of info ?stmt w2] by blast
  with p minute_text_fits [OF assms(2)] show ?thesis by (simp add: write_log_def hive_line_def)
qed

interpretation user_rows: row_writer write_user user_line
  by unfold_locales (rule write_user_row, auto simp: write_user_def split: prod.split)

interpretation hive_rows: row_writer "write_log date" hive_line for date
  by unfold_locales (rule write_log_row, auto simp: write_log_def split: prod.split)

section \<open>Collecting the counters\<close>

text \<open>The sum of reports: the same users, and of each user the sums of the counters, modulo \<open>2 ^ 64\<close>.\<close>

definition adds_up :: "report \<Rightarrow> report list \<Rightarrow> bool" where
  "adds_up tot rs \<longleftrightarrow>
     fst ` set tot = (\<Union>r \<in> set rs. fst ` set r) \<and>
     (\<forall>k. m_ullReqNum (report_at tot k) = (\<Sum>r\<leftarrow>rs. m_ullReqNum (report_at r k)) \<and>
          m_ullResNum (report_at tot k) = (\<Sum>r\<leftarrow>rs. m_ullResNum (report_at r k)) \<and>
          m_ullEmptyResNum (report_at tot k) = (\<Sum>r\<leftarrow>rs. m_ullEmptyResNum (report_at r k)) \<and>
          m_ullResTagNum (report_at tot k) = (\<Sum>r\<leftarrow>rs. m_ullResTagNum (report_at r k)))"

lemma report_add_keys: "fst ` set (report_add m r) = fst ` set m \<union> fst ` set r"
  unfolding report_add_def
proof (induction r arbitrary: m)
  case (Cons ku r)
  obtain k u where "ku = (k, u)" by (cases ku)
  with Cons.IH [of "report_bump (\<lambda>a. userinfo_add a u) k m"] show ?case
    using smap_put_keys [of k "userinfo_add (report_at m k) u" m] by (simp add: report_bump_def)
qed simp

lemma adds_up_one: "adds_up m [m]"
  by (simp add: adds_up_def)

lemma adds_up_step:
  assumes "smap_ok r" "adds_up tot (report_add m r # rs)"
  shows "adds_up tot (m # r # rs)"
  using assms by (simp add: adds_up_def report_add_keys report_add_at userinfo_add_def Un_assoc add.assoc)

lemma get_report_adds_up:
  assumes "smap_ok m" "list_all smap_ok rs" "BdxQueryCountGetReport m rs = (tot, rs')"
  shows "adds_up tot (m # rs) \<and> smap_ok tot \<and> rs' = map (\<lambda>_. []) rs"
  using assms
proof (induction rs arbitrary: m tot rs')
  case (Cons r rs)
  obtain t rs1 where g: "BdxQueryCountGetReport (report_add m r) rs = (t, rs1)" by fastforce
  have "adds_up t (report_add m r # rs) \<and> smap_ok t \<and> rs1 = map (\<lambda>_. []) rs"
    using Cons.IH [OF _ _ g] Cons.prems(1,2) report_add_ok by simp
  then show ?case using Cons.prems(2,3) g adds_up_step by (auto simp: report_clear_def)
qed (simp add: adds_up_one)

section \<open>Theorems\<close>

text \<open>The day's file is there and open, and the connection stands.\<close>

definition count_ready :: "'w host \<Rightarrow> (nat \<Rightarrow> 'w \<Rightarrow> string option) \<Rightarrow> string \<Rightarrow> 'w \<Rightarrow> CUserQueryCount \<Rightarrow> bool" where
  "count_ready H handle p w c \<longleftrightarrow>
     c_RandomInt c < 10000 \<and>
     (\<exists>date. BdxUserQueryCountGetDate (h_now H w) = Some date \<and>
        f_access (h_stdio H) (cstr (count_file (c_stStatisticsPrm c) date (show_nat (c_RandomInt c)))) w) \<and>
     (\<exists>f. c_pFile c = Some f \<and> handle f w = Some p) \<and>
     bInitFlag (c_mysql c) \<and> pmysqlConn (c_mysql c) \<noteq> None"

lemma four_digits: "n < 10000 \<Longrightarrow> sprintf_into 5 (show_nat n) = Some (show_nat n)"
  using length_show_nat [of n 4] by (simp add: sprintf_into_def)

text \<open>
  C13. No request is lost between the working threads and the statistics: a round writes one line per user
  whose counters are the sums of what all threads have counted since the last round, clears their reports and
  keeps nothing back.
\<close>

theorem count_round_adds_up:
  assumes "writable H content handle" "\<forall>w. tm_ok (h_now H w)" "count_ready H handle p w c" "list_all smap_ok rs" "smap_ok (c_stReport c)"
  shows "\<exists>w' tot t. count_round H info (w, rs, c) = Some (w', map (\<lambda>_. []) rs, c\<lparr>c_stReport := []\<rparr>) \<and> smap_ok tot \<and>
    adds_up tot (c_stReport c # rs) \<and> content p w' = content p w @ concat (map (user_line t) tot)"
proof -
  obtain tot rs' where g: "BdxQueryCountGetReport (c_stReport c) rs = (tot, rs')" by fastforce
  note sums = get_report_adds_up [OF assms(5,4) g]
  from assms(3) have r: "c_RandomInt c < 10000" "bInitFlag (c_mysql c)" by (simp_all add: count_ready_def)
  from assms(3) obtain date f s where d: "BdxUserQueryCountGetDate (h_now H w) = Some date"
    "f_access (h_stdio H) (cstr (count_file (c_stStatisticsPrm c) date (show_nat (c_RandomInt c)))) w"
    and f: "c_pFile c = Some f" "handle f w = Some p" and s: "pmysqlConn (c_mysql c) = Some s"
    by (auto simp: count_ready_def)
  have ap: "apart (h_mysql H) content handle" using assms(1) by (simp add: writable_def)
  have o: "BdxQueryCountOpenFile H (w, c) = Some (w, c)"
    using d by (simp add: BdxQueryCountOpenFile_def four_digits [OF r(1)] FileBeExists_def)
  have re: "reconnect H info (w, c_mysql c) = (w, c_mysql c)" using r(2) by (simp add: reconnect_def GetMysqlInitState_def)
  obtain ok w1 where 1: "ExecuteMySql (h_mysql H) count_table (w, c_mysql c) = Some (ok, w1, c_mysql c)" "\<And>p. content p w1 = content p w"
    "\<And>k. handle k w1 = handle k w" using execute_apart [OF ap s, of count_table w] by blast
  obtain w2 where "each (write_user H info (h_now H w) (Some f)) tot (w1, c_mysql c) = Some (w2, c_mysql c)"
    "content p w2 = content p w1 @ concat (map (user_line (h_now H w)) tot)"
    using user_rows.rows [OF assms(1) assms(2) [rule_format], of f w1 p "c_mysql c" s info w tot] f(2) 1(3) s by auto
  then have "count_round H info (w, rs, c) = Some (w2, rs', c\<lparr>c_stReport := []\<rparr>)"
    using o g f(1) 1(1) re by (simp add: count_round_def report_clear_def)
  then show ?thesis using sums 1(2) \<open>content p w2 = _\<close> by auto
qed

lemma drain_rows:
  assumes "writable H content handle" "tm_ok t" "handle f w = Some p" "pmysqlConn c = Some s"
  shows "\<exists>w'. drain_queues (write_log date H info t (Some f)) qs (w, c) = Some (map (\<lambda>_. []) qs, w', c) \<and>
    content p w' = content p w @ concat (map (hive_line t) (concat qs)) \<and> handle f w' = Some p"
  using assms(3)
proof (induction qs arbitrary: w)
  case (Cons q qs)
  obtain w1 where w1: "each (write_log date H info t (Some f)) q (w, c) = Some (w1, c)"
    "content p w1 = content p w @ concat (map (hive_line t) q)" "handle f w1 = Some p"
    using hive_rows.rows [OF assms(1,2) Cons.prems assms(4)] by blast
  with Cons.IH [OF w1(3)] show ?case by auto
qed simp

definition hive_ready :: "'w host \<Rightarrow> (nat \<Rightarrow> 'w \<Rightarrow> string option) \<Rightarrow> string \<Rightarrow> 'w \<Rightarrow> CUserQueryHiveLog \<Rightarrow> bool" where
  "hive_ready H handle p w c \<longleftrightarrow>
     v_RandomInt c < 10000 \<and> BdxUserQueryHiveLogGetHour (h_now H w) = Some (v_currentHour c) \<and>
     (\<exists>date. BdxUserQueryHiveLogGetDate (h_now H w) = Some date \<and>
        f_access (h_stdio H) (cstr (hive_file (v_stHiveLogPrm c) date (v_currentHour c) (show_nat (v_RandomInt c)))) w) \<and>
     (\<exists>f. v_pFile c = Some f \<and> handle f w = Some p) \<and>
     bInitFlag (v_mysql c) \<and> pmysqlConn (v_mysql c) \<noteq> None"

text \<open>
  C14. The records of the calls reach the file in order: a round writes the records of every queue, thread by
  thread and each queue from its front, one line each, and leaves the queues empty.
\<close>

theorem hive_round_drains:
  assumes "writable H content handle" "\<forall>w. tm_ok (h_now H w)" "hive_ready H handle p w c"
  shows "\<exists>w' t. hive_round H info (w, qs, c) = Some (w', map (\<lambda>_. []) qs, c) \<and>
    content p w' = content p w @ concat (map (hive_line t) (concat qs))"
proof -
  from assms(3) have r: "v_RandomInt c < 10000" "bInitFlag (v_mysql c)" "BdxUserQueryHiveLogGetHour (h_now H w) = Some (v_currentHour c)"
    by (simp_all add: hive_ready_def)
  from assms(3) obtain date f s where d: "BdxUserQueryHiveLogGetDate (h_now H w) = Some date"
    "f_access (h_stdio H) (cstr (hive_file (v_stHiveLogPrm c) date (v_currentHour c) (show_nat (v_RandomInt c)))) w"
    and f: "v_pFile c = Some f" "handle f w = Some p" and s: "pmysqlConn (v_mysql c) = Some s"
    by (auto simp: hive_ready_def)
  have ap: "apart (h_mysql H) content handle" using assms(1) by (simp add: writable_def)
  have o: "BdxQueryHiveLogOpenFile H (w, c) = Some (w, c)"
    using d r(3) by (simp add: BdxQueryHiveLogOpenFile_def four_digits [OF r(1)] FileBeExists_def)
  have re: "reconnect H info (w, v_mysql c) = (w, v_mysql c)" using r(2) by (simp add: reconnect_def GetMysqlInitState_def)
  let ?sql = "cstr (hive_table date)"
  obtain ok w1 where 1: "ExecuteMySql (h_mysql H) ?sql (w, v_mysql c) = Some (ok, w1, v_mysql c)" "\<And>p. content p w1 = content p w"
    "\<And>k. handle k w1 = handle k w" using execute_apart [OF ap s, of ?sql w] by blast
  obtain w2 where "drain_queues (write_log date H info (h_now H w) (Some f)) qs (w1, v_mysql c) = Some (map (\<lambda>_. []) qs, w2, v_mysql c)"
    "content p w2 = content p w1 @ concat (map (hive_line (h_now H w)) (concat qs))"
    using drain_rows [OF assms(1) assms(2) [rule_format], of f w1 p "v_mysql c" s date info w qs] f(2) 1(3) s by auto
  then have "hive_round H info (w, qs, c) = Some (w2, map (\<lambda>_. []) qs, c)"
    using o f(1) d(1) 1(1) re by (simp add: hive_round_def)
  then show ?thesis using 1(2) \<open>content p w2 = _\<close> by auto
qed


definition refuses :: "'w mysql_api \<Rightarrow> bool" where
  "refuses M \<longleftrightarrow> (\<forall>h a u p d n w. fst (mysql_real_connect M h a u p d n w) = None)"

lemma refused_init:
  assumes "refuses M"
  shows "pmysqlConn (snd (snd (InitMysql M a n u p d st))) = None"
  using assms by (cases st) (auto simp: refuses_def InitMysql_def split: prod.split option.split dest!: arg_cong [of _ _ fst])

lemma refused_connection: "refuses M \<Longrightarrow> InitMysql M a n u p d st = (ok, w, c) \<Longrightarrow> pmysqlConn c = None"
  using refused_init [of M a n u p d st] by simp

text \<open>
  C33. A gateway that starts while the database refuses connections ends with the first round: whatever the
  flag in the memory of the new client is, the null handle is passed to \<open>mysql_query\<close>.
\<close>

theorem count_needs_database:
  assumes "refuses (h_mysql H)" "new_CUserQueryCount H prm info c0 w rs = Some (w', rs', c)"
  shows "count_round H info (v, qs, c) = None"
proof -
  have c: "pmysqlConn (c_mysql c) = None"
    using assms(2)
    by (auto simp: new_CUserQueryCount_def Let_def split: prod.split_asm Option.bind_split_asm dest: refused_connection [OF assms(1)])
  have "c_mysql c' = c_mysql c" if "BdxQueryCountOpenFile H (v, c) = Some (v', c')" for v' c'
    using that by (auto simp: BdxQueryCountOpenFile_def Let_def split: Option.bind_split_asm if_splits)
  moreover have "pmysqlConn (snd (reconnect H info (v', c_mysql c))) = None" for v'
    using c refused_init [OF assms(1)] by (simp add: reconnect_def)
  then have "ExecuteMySql (h_mysql H) count_table (reconnect H info (v', c_mysql c)) = None" for v'
    by (cases "reconnect H info (v', c_mysql c)") (metis (mono_tags) ExecuteMySql_def case_prod_conv option.case(1) snd_conv)
  ultimately show ?thesis
    by (auto simp: count_round_def Let_def split: Option.bind_split prod.split)
qed

section \<open>Witnesses\<close>

definition mem_mysql :: "memfs mysql_api" where
  "mem_mysql =
     \<lparr>mysql_init = (\<lambda>w. (Some 0, w)), mysql_real_connect = (\<lambda>_ _ _ _ _ _ w. (None, w)), mysql_query = (\<lambda>_ _ w. (0, w)),
      mysql_use_result = (\<lambda>_ w. (None, w)), mysql_fetch_row = (\<lambda>_ w. (None, w)), mysql_field_count = (\<lambda>_ _. 0),
      mysql_fetch_field = (\<lambda>_ w. (None, w)), mysql_free_result = (\<lambda>_ w. w), mysql_close = (\<lambda>_ w. w)\<rparr>"

definition mem_host :: "memfs host" where
  "mem_host = \<lparr>h_stdio = roomy_stdio, h_mysql = mem_mysql, h_now = (\<lambda>_. sample_tm), h_rand = (\<lambda>_. 42)\<rparr>"

definition mem_prm :: STATISTICSPRM_S where
  "mem_prm = \<lparr>m_strStatisticsPath = ''./logs'', m_strStatisticsFileName = ''stat'', m_uiStatisticsTime = 60\<rparr>"

text \<open>\<open>p\<close> is open, in a tree that has the path \<open>dir\<close> and the file.\<close>

definition mem_disk :: "string \<Rightarrow> string \<Rightarrow> memfs" where
  "mem_disk dir p = \<lparr>mem_nodes = insert (parts p) (set (prefixes (parts dir))), mem_list = (\<lambda>_. []), mem_text = (\<lambda>_. []),
     mem_streams = [Some p], mem_full = False\<rparr>"

definition mem_count :: CUserQueryCount where
  "mem_count = \<lparr>c_pFile = Some 0, c_stStatisticsPrm = mem_prm, c_stReport = [], c_RandomInt = 42, c_mysql = toy_client\<rparr>"

definition mem_hive :: CUserQueryHiveLog where
  "mem_hive = \<lparr>v_pFile = Some 0, v_stHiveLogPrm = mem_prm, v_currentHour = ''09'', v_RandomInt = 42, v_mysql = toy_client\<rparr>"

lemma mem_writable: "writable mem_host (\<lambda>p m. mem_text m p) mem_handle"
  by (simp add: writable_def mem_host_def roomy_streams roomy_never_fails apart_def mem_mysql_def)

lemma sample_date: "BdxUserQueryCountGetDate sample_tm = Some ''20160705''" "BdxUserQueryHiveLogGetDate sample_tm = Some ''20160705''"
    "BdxUserQueryHiveLogGetHour sample_tm = Some ''09''" and sample_tm_ok: "tm_ok sample_tm"
  by code_simp+

lemma sample_names:
  "cstr (count_file mem_prm ''20160705'' (show_nat 42)) = ''./logs/20160705/stat_20160705_42.txt''"
  "cstr (hive_file mem_prm ''20160705'' ''09'' (show_nat 42)) = ''./logs/20160705/stat_20160705_09_42.txt''"
  by code_simp+

lemma mem_count_ready: "count_ready mem_host mem_handle p (mem_disk dir ''./logs/20160705/stat_20160705_42.txt'') mem_count \<longleftrightarrow> p = ''./logs/20160705/stat_20160705_42.txt''"
  by (auto simp: count_ready_def mem_count_def mem_host_def sample_date sample_names mem_disk_def roomy_stdio_def mem_stdio_def mem_handle_def)

lemma mem_hive_ready: "hive_ready mem_host mem_handle p (mem_disk dir ''./logs/20160705/stat_20160705_09_42.txt'') mem_hive \<longleftrightarrow> p = ''./logs/20160705/stat_20160705_09_42.txt''"
  by (auto simp: hive_ready_def mem_hive_def mem_host_def sample_date sample_names mem_disk_def roomy_stdio_def mem_stdio_def mem_handle_def)

theorem count_round_adds_up_witness:
  "\<exists>w' c' tot. count_round mem_host toy_info
      (mem_disk ''./logs/20160705'' ''./logs/20160705/stat_20160705_42.txt'',
       [[(''u'', zero_userinfo\<lparr>m_ullReqNum := 2\<rparr>)], [(''t'', zero_userinfo), (''u'', zero_userinfo\<lparr>m_ullReqNum := 3\<rparr>)]], mem_count) =
      Some (w', [[], []], c') \<and> m_ullReqNum (report_at tot ''u'') = 5 \<and> fst ` set tot = {''t'', ''u''}"
proof -
  let ?p = "''./logs/20160705/stat_20160705_42.txt''"
  let ?rs = "[[(''u'', zero_userinfo\<lparr>m_ullReqNum := 2\<rparr>)], [(''t'', zero_userinfo), (''u'', zero_userinfo\<lparr>m_ullReqNum := 3\<rparr>)]]"
  have "list_all smap_ok ?rs" "smap_ok (c_stReport mem_count)" by (simp_all add: smap_ok_def mem_count_def)
  moreover have "count_ready mem_host mem_handle ?p (mem_disk ''./logs/20160705'' ?p) mem_count" using mem_count_ready by blast
  moreover have "\<forall>w. tm_ok (h_now mem_host w)" by (simp add: mem_host_def sample_tm_ok)
  ultimately obtain w' tot t where "count_round mem_host toy_info (mem_disk ''./logs/20160705'' ?p, ?rs, mem_count) =
      Some (w', map (\<lambda>_. []) ?rs, mem_count\<lparr>c_stReport := []\<rparr>)" "adds_up tot (c_stReport mem_count # ?rs)"
    using count_round_adds_up [OF mem_writable, of ?p "mem_disk ''./logs/20160705'' ?p" mem_count ?rs toy_info] by blast
  moreover from this(2) have "m_ullReqNum (report_at tot ''u'') = 5" "fst ` set tot = {''t'', ''u''}"
    unfolding adds_up_def by (simp_all add: mem_count_def report_at_def zero_userinfo_def insert_commute)
  ultimately show ?thesis by (intro exI [of _ w'] exI [of _ "mem_count\<lparr>c_stReport := []\<rparr>"] exI [of _ tot]) simp
qed

theorem hive_round_drains_witness:
  "\<exists>w' c'. hive_round mem_host toy_info
      (mem_disk ''./logs/20160705'' ''./logs/20160705/stat_20160705_09_42.txt'',
       [[], [\<lparr>h_strAction = ''a'', h_strReqParams = ''r'', h_strValue = ''{}'', h_strQuerytime = ''9'', h_strDayId = ''5'', h_strHourId = ''9''\<rparr>]], mem_hive) =
      Some (w', [[], []], c')"
proof -
  let ?p = "''./logs/20160705/stat_20160705_09_42.txt''"
  let ?qs = "[[], [\<lparr>h_strAction = ''a'', h_strReqParams = ''r'', h_strValue = ''{}'', h_strQuerytime = ''9'', h_strDayId = ''5'', h_strHourId = ''9''\<rparr>]]"
  have "hive_ready mem_host mem_handle ?p (mem_disk ''./logs/20160705'' ?p) mem_hive" using mem_hive_ready by blast
  moreover have "\<forall>w. tm_ok (h_now mem_host w)" by (simp add: mem_host_def sample_tm_ok)
  ultimately obtain w' where "hive_round mem_host toy_info (mem_disk ''./logs/20160705'' ?p, ?qs, mem_hive) =
      Some (w', map (\<lambda>_. []) ?qs, mem_hive)"
    using hive_round_drains [OF mem_writable] by blast
  then show ?thesis by auto
qed


lemma mem_refuses: "refuses mem_mysql"
  by (simp add: refuses_def mem_mysql_def)

theorem count_needs_database_witness:
  "\<exists>w rs c. new_CUserQueryCount mem_host mem_prm toy_info \<lparr>pmysqlConn = None, pmysqlRes = None, mysqlRow = None, bInitFlag = False, totalRecords = 0\<rparr>
      (mem_disk ''./logs/20160705'' ''./logs/20160705/stat_20160705_42.txt'') [] = Some (w, rs, c) \<and> count_round mem_host toy_info (w, rs, c) = None"
proof -
  let ?w = "mem_disk ''./logs/20160705'' ''./logs/20160705/stat_20160705_42.txt''"
    and ?c0 = "\<lparr>pmysqlConn = None, pmysqlRes = None, mysqlRow = None, bInitFlag = False, totalRecords = 0\<rparr>"
  have dir: "cstr (count_dir mem_prm ''20160705'') = ''./logs/20160705''" by code_simp
  have "new_CUserQueryCount mem_host mem_prm toy_info ?c0 ?w [] \<noteq> None"
    using four_digits [of 42] sample_names(1)
    by (simp add: new_CUserQueryCount_def mem_host_def sample_date dir open_titled_def BdxQueryCountWriteTitle_def roomy_print roomy_stdio_def
      mem_stdio_def mem_handle_def mem_disk_def InitMysql_def mem_mysql_def FileBeExists_def parts_def Let_def)
  then obtain w rs c where n: "new_CUserQueryCount mem_host mem_prm toy_info ?c0 ?w [] = Some (w, rs, c)" by auto
  moreover have "refuses (h_mysql mem_host)" using mem_refuses by (simp add: mem_host_def)
  ultimately show ?thesis using count_needs_database [OF _ n, of w rs] by blast
qed

end
