(* ===== verification/Startup.thy ===== *)
theory Startup
  imports Scheduler Statistics
begin

text \<open>
  How the gateway comes up: \<open>src/AIBdxUserQuery.cpp\<close>, the constructor and \<open>UserQueryMainCore\<close> of
  \<open>src/UserQueryMain/UserQueryMain.cpp\<close>, the constructor of \<open>CUserQueryUpdate\<close>, and the classes
  \<open>CThreads\<close> and \<open>CTime\<close> of \<open>src/CommonTools\<close>.

  The thread library is a parameter. \<open>None\<close> is a crash or an exception that nobody catches before \<open>main\<close>.
\<close>

section \<open>CTime\<close>

record timeval =
  tv_sec :: int
  tv_usec :: int

record CTime =
  m_stOn :: timeval
  m_stOff :: timeval
  m_uiSeconds :: u32
  m_uiMicSeconds :: u32

definition TimeOn :: "timeval \<Rightarrow> CTime \<Rightarrow> CTime" where
  "TimeOn now c = c\<lparr>m_stOn := now\<rparr>"

definition TimeOff :: "timeval \<Rightarrow> CTime \<Rightarrow> CTime" where
  "TimeOff now c =
     (let c = c\<lparr>m_stOff := now\<rparr>; on = m_stOn c; off = m_stOff c
      in if tv_usec off = tv_usec on then
           c\<lparr>m_uiSeconds := word_of_int (tv_sec off - tv_sec on), m_uiMicSeconds := 0\<rparr>
         else if tv_usec off > tv_usec on then
           c\<lparr>m_uiSeconds := word_of_int (tv_sec off - tv_sec on), m_uiMicSeconds := word_of_int (tv_usec off - tv_usec on)\<rparr>
         else
           c\<lparr>m_uiSeconds := word_of_int (tv_sec off - tv_sec on - 1), m_uiMicSeconds := word_of_int (1000000 - tv_usec on + tv_usec off)\<rparr>)"

definition TimeGetSeconds :: "CTime \<Rightarrow> u32" where
  "TimeGetSeconds c = m_uiSeconds c"

definition TimeGetMicSeconds :: "CTime \<Rightarrow> u32" where
  "TimeGetMicSeconds c = m_uiMicSeconds c"

definition TimeGetTimeval :: "CTime \<Rightarrow> timeval" where
  "TimeGetTimeval c = m_stOn c"

section \<open>CThreads\<close>

text \<open>The instances of \<open>StartRoutine\<close>, with the object they run on.\<close>

datatype routine = WORK nat | COUNT | HIVE | SERVER | UPDATE

text \<open>The attribute of a thread that the code sets: its detach state.\<close>

record pthread_attr_t =
  a_detached :: bool

definition default_attr :: pthread_attr_t where
  "default_attr = \<lparr>a_detached = False\<rparr>"

record 'w pthread =
  p_create :: "pthread_attr_t \<Rightarrow> routine \<Rightarrow> 'w \<Rightarrow> nat option \<times> 'w"
  p_join :: "nat \<Rightarrow> 'w \<Rightarrow> 'w"
  p_cancel :: "nat \<Rightarrow> 'w \<Rightarrow> bool \<times> 'w"
  p_attr_init :: "'w \<Rightarrow> bool \<times> 'w"
  p_attr_detach :: "'w \<Rightarrow> bool \<times> 'w"
  p_rwlock_init :: "'w \<Rightarrow> bool \<times> 'w"

record CThreads =
  m_iID :: nat
  m_stAttr :: pthread_attr_t
  m_vecID :: "nat list"
  m_fpFun :: "routine option"

definition SetRoutine :: "routine \<Rightarrow> CThreads \<Rightarrow> CThreads" where
  "SetRoutine fpFun t = t\<lparr>m_fpFun := Some fpFun\<rparr>"

definition ThreadAttrInit :: "'w pthread \<Rightarrow> 'w \<times> CThreads \<Rightarrow> int \<times> 'w \<times> CThreads" where
  "ThreadAttrInit P = (\<lambda>(w, t).
     (case p_attr_init P w of
        (False, w) \<Rightarrow> (-1, w, t)
      | (True, w) \<Rightarrow> (0, w, t\<lparr>m_stAttr := default_attr\<rparr>)))"

text \<open>
  The constructor, with what the memory of the object holds; \<open>None\<close> is its exception. The routine and the last
  identifier are not set.
\<close>

definition new_CThreads :: "'w pthread \<Rightarrow> 'w \<times> CThreads \<Rightarrow> ('w \<times> CThreads) option" where
  "new_CThreads P = (\<lambda>(w, t).
     (case ThreadAttrInit P (w, t) of (rc, w, t) \<Rightarrow> if rc \<noteq> 0 then None else Some (w, t\<lparr>m_vecID := []\<rparr>)))"

definition ThreadAttrSetDetach :: "'w pthread \<Rightarrow> 'w \<times> CThreads \<Rightarrow> int \<times> 'w \<times> CThreads" where
  "ThreadAttrSetDetach P = (\<lambda>(w, t).
     (case p_attr_detach P w of
        (False, w) \<Rightarrow> (-1, w, t)
      | (True, w) \<Rightarrow> (0, w, t\<lparr>m_stAttr := (m_stAttr t)\<lparr>a_detached := True\<rparr>\<rparr>)))"

text \<open>The attributes are copied from an object of the caller.\<close>

definition ThreadAttrSet :: "pthread_attr_t \<Rightarrow> CThreads \<Rightarrow> CThreads" where
  "ThreadAttrSet pAttr t = t\<lparr>m_stAttr := pAttr\<rparr>"

text \<open>A null routine would crash the new thread. On failure the routine stays set.\<close>

definition CreateThead :: "'w pthread \<Rightarrow> 'w \<times> CThreads \<Rightarrow> (nat \<times> 'w \<times> CThreads) option" where
  "CreateThead P = (\<lambda>(w, t).
     do { r \<leftarrow> m_fpFun t;
          case p_create P (m_stAttr t) r w of
            (None, w) \<Rightarrow> Some (0, w, t)
          | (Some i, w) \<Rightarrow>
              let (_, w, t) = ThreadAttrInit P (w, t\<lparr>m_iID := i, m_vecID := m_vecID t @ [i], m_fpFun := None\<rparr>)
              in Some (i, w, t) })"

definition ThreadJionALL :: "'w pthread \<Rightarrow> 'w \<times> CThreads \<Rightarrow> 'w" where
  "ThreadJionALL P = (\<lambda>(w, t). foldl (\<lambda>w i. p_join P i w) w (m_vecID t))"

definition ThreadJion :: "'w pthread \<Rightarrow> 'w \<times> CThreads \<Rightarrow> 'w" where
  "ThreadJion P = (\<lambda>(w, t). p_join P (m_iID t) w)"

definition ThreadDestroy :: "'w pthread \<Rightarrow> 'w \<times> CThreads \<Rightarrow> int \<times> 'w" where
  "ThreadDestroy P = (\<lambda>(w, t). let (ok, w) = p_cancel P (m_iID t) w in (if ok then 0 else -1, w))"

fun cancel_all :: "'w pthread \<Rightarrow> nat list \<Rightarrow> 'w \<Rightarrow> int \<times> 'w" where
  "cancel_all P [] w = (0, w)"
| "cancel_all P (i # is) w = (case p_cancel P i w of (False, w) \<Rightarrow> (-1, w) | (True, w) \<Rightarrow> cancel_all P is w)"

definition ThreadDestroyALL :: "'w pthread \<Rightarrow> 'w \<times> CThreads \<Rightarrow> int \<times> 'w" where
  "ThreadDestroyALL P = (\<lambda>(w, t). cancel_all P (m_vecID t) w)"

text \<open>
  Attributes are those of one thread: after a thread was made, the next one gets the default ones, unless resetting
  them failed.
\<close>

lemma CreateThead_resets_attributes:
  assumes "m_fpFun t = Some r" "p_create P (m_stAttr t) r w = (Some i, w1)" "p_attr_init P w1 = (ok, w2)"
  shows "CreateThead P (w, t) = Some (i, w2, t\<lparr>m_iID := i, m_stAttr := (if ok then default_attr else m_stAttr t),
    m_vecID := m_vecID t @ [i], m_fpFun := None\<rparr>)"
  using assms by (cases ok) (simp_all add: CreateThead_def ThreadAttrInit_def)

lemma CreateThead_failed:
  assumes "m_fpFun t = Some r" "p_create P (m_stAttr t) r w = (None, w')"
  shows "CreateThead P (w, t) = Some (0, w', t)"
  using assms by (simp add: CreateThead_def)

section \<open>UserQueryMainCore\<close>

text \<open>The address of the database is copied field by field into the global for reconnection.\<close>

definition new_CUserQueryUpdate :: "'w hiredis \<Rightarrow> 'w host \<Rightarrow> CMd5 \<Rightarrow> IPPORT_S \<Rightarrow> MYSQL_SERVERINFO_S \<Rightarrow> CMYSQL \<Rightarrow> 'w \<Rightarrow>
    ((CDataAdapter \<times> CMYSQL \<times> MYSQL_SERVERINFO_S) \<times> 'w) option" where
  "new_CUserQueryUpdate R H md5 stTokenServer mySqlInfo c0 w =
     do { strServerList \<leftarrow> serv_list_text stTokenServer;
          let link = m_stMysqlLinkInfo mySqlInfo;
          let g_mySqlInfo = \<lparr>m_stMysqlLinkInfo = \<lparr>m_pchIp = cstr (m_pchIp link), m_uiPort = m_uiPort link, m_idx = 0, m_count = 0\<rparr>,
                pchUserName = cstr (pchUserName mySqlInfo), pchPassWord = cstr (pchPassWord mySqlInfo), pchDbName = cstr (pchDbName mySqlInfo)\<rparr>;
          (_, w, a) \<leftarrow> Adapter_Init R strServerList (w, new_CDataAdapter md5);
          let (_, w, sql) = InitMysql (h_mysql H) (cstr (m_pchIp link)) (m_uiPort link) (cstr (pchUserName mySqlInfo))
                (cstr (pchPassWord mySqlInfo)) (cstr (pchDbName mySqlInfo)) (w, c0);
          Some ((a, sql, g_mySqlInfo), w) }"

record 'w process =
  p_world :: 'w
  p_threads :: CThreads
  p_pool :: pool
  p_workers :: "CUserQueryWorkThreads list"
  p_count :: CUserQueryCount
  p_hive :: CUserQueryHiveLog
  p_server :: "'w server"
  p_update :: "CDataAdapter \<times> CMYSQL \<times> MYSQL_SERVERINFO_S"

text \<open>The identifier that \<open>CreateThead\<close> returns, 0 for a failure, is not looked at.\<close>

definition start_thread :: "'w pthread \<Rightarrow> routine \<Rightarrow> 'w \<times> CThreads \<Rightarrow> ('w \<times> CThreads) option" where
  "start_thread P r = (\<lambda>(w, t). do { (_, w, t) \<leftarrow> CreateThead P (w, SetRoutine r t); Some (w, t) })"

fun start_workers :: "'w pthread \<Rightarrow> 'w hiredis \<Rightarrow> CMd5 \<Rightarrow> IPPORT_S \<Rightarrow> nat \<Rightarrow> ('w \<times> CThreads) \<times> pool \<times> CUserQueryWorkThreads list \<Rightarrow>
    (('w \<times> CThreads) \<times> pool \<times> CUserQueryWorkThreads list) option" where
  "start_workers P R md5 srv 0 st = Some st"
| "start_workers P R md5 srv (Suc n) st =
     (case st of ((w, t), p, ws) \<Rightarrow>
        do { (pclWorkThread, w, p) \<leftarrow> AdWorkInit R md5 srv w p;
             wt \<leftarrow> start_thread P (WORK (m_uiThreadId pclWorkThread)) (w, t);
             start_workers P R md5 srv n (wt, p, ws @ [pclWorkThread]) })"

definition empty_pool :: pool where
  "empty_pool = \<lparr>m_uiCount = 0, p_vecTaskBuf = [], p_vecTaskStauts = [], p_vecReport = [], p_vecHiveLog = []\<rparr>"

text \<open>
  Up to the final \<open>ThreadJionALL\<close>. \<open>c1\<close>, \<open>c2\<close>, \<open>c3\<close> are the memories of the three database clients and \<open>md5\<close>
  that of the hash objects; the objects of the threads are made before the thread that runs them.
\<close>

definition UserQueryMainCore :: "'w sys \<Rightarrow> 'w epoll \<Rightarrow> 'w hiredis \<Rightarrow> 'w host \<Rightarrow> 'w pthread \<Rightarrow> CMd5 \<Rightarrow> CMYSQL \<Rightarrow> CMYSQL \<Rightarrow> CMYSQL \<Rightarrow>
    CUserQueryMain \<Rightarrow> 'w \<times> CThreads \<Rightarrow> 'w process option" where
  "UserQueryMainCore S K R H P md5 c1 c2 c3 m wt =
     do { let redis = m_stRedisServer (m_stServerInfo m);
          let (ok, w) = p_rwlock_init P (fst wt);
          wt \<leftarrow> (if ok then Some (w, snd wt) else None);
          (wt, p, ws) \<leftarrow> start_workers P R md5 redis (unat (m_uiThreadsNum m)) (wt, empty_pool, []);
          (w, reports, count) \<leftarrow> new_CUserQueryCount H (m_stStatisticsPrm m) (m_stMysqlInfo m) c1 (fst wt) (p_vecReport p);
          wt \<leftarrow> start_thread P COUNT (w, snd wt);
          (w, hive) \<leftarrow> new_CUserQueryHiveLog H (m_stHiveLogPrm m) (m_stMysqlInfo m) c2 (fst wt);
          wt \<leftarrow> start_thread P HIVE (w, snd wt);
          server \<leftarrow> new_CUserQueryServer S K (m_stLocalServer (m_stServerInfo m)) (p_vecTaskBuf p) (p_vecTaskStauts p) (fst wt);
          wt \<leftarrow> start_thread P SERVER (s_world server, snd wt);
          (upd, w) \<leftarrow> new_CUserQueryUpdate R H md5 redis (m_stMysqlInfo m) c3 (fst wt);
          (w, t) \<leftarrow> start_thread P UPDATE (w, snd wt);
          Some \<lparr>p_world = w, p_threads = t, p_pool = p\<lparr>p_vecReport := reports\<rparr>, p_workers = ws, p_count = count, p_hive = hive,
                p_server = server, p_update = upd\<rparr> }"

section \<open>main\<close>

text \<open>
  An exception is \<open>Inl\<close> its message. \<open>fs\<close> is the file system of the configuration reader, \<open>mem\<close> gives the
  bytes that may be read from the \<open>c_str()\<close> of a string.
\<close>

definition new_CUserQueryMain :: "(string \<Rightarrow> string option) \<Rightarrow> 'w stdio \<Rightarrow> ('w \<Rightarrow> tm) \<Rightarrow> (string \<Rightarrow> string) \<Rightarrow> CUserQueryMain \<Rightarrow> string \<Rightarrow> 'w \<Rightarrow>
    (string + CUserQueryMain \<times> 'w logstate) option" where
  "new_CUserQueryMain fs F now mem m0 pchConfFile w =
     do { r \<leftarrow> BdxInitConfig fs pchConfFile m0;
          case r of
            UB \<Rightarrow> None
          | Ret (False, m) \<Rightarrow> Some (Inl ''BdxInitConfig error.'')
          | Ret (True, m) \<Rightarrow>
              do { l \<leftarrow> new_CLog F now (mem (m_strPath (m_stLogPrms m))) (mem (m_strFileName (m_stLogPrms m)))
                     (sint (m_uiMaxLine (m_stLogPrms m))) (m_Rank (m_stLogPrms m)) w;
                   Some (case l of None \<Rightarrow> Inl ''File name is empty.'' | Some wl \<Rightarrow> Inr (m, wl)) } }"

text \<open>
  The options as \<open>getopt_long\<close> gives them. Each \<open>-c\<close> builds a gateway object; \<open>build\<close> is its constructor on the
  world. The result is an exit code, or the globals with the object that was built last.
\<close>

record 'm globals =
  strServerName :: string
  strConfigFileName :: string
  pCMain :: "'m option"

fun main_options :: "(string \<Rightarrow> 'w \<Rightarrow> (string + 'm \<times> 'w) option) \<Rightarrow> (char \<times> string) list \<Rightarrow> 'm globals \<Rightarrow> 'w \<Rightarrow>
    ((int + 'm globals) \<times> 'w) option" where
  "main_options build [] s w = Some (Inr s, w)"
| "main_options build ((c, optarg) # opts) s w =
     (if c = CHR ''n'' then main_options build opts (s\<lparr>strServerName := optarg\<rparr>) w
      else if c = CHR ''c'' then
        do { r \<leftarrow> build optarg w;
             case r of
               Inl e \<Rightarrow> Some (Inl (-1), w)
             | Inr (m, w) \<Rightarrow> main_options build opts (s\<lparr>strConfigFileName := optarg, pCMain := Some m\<rparr>) w }
      else Some (Inl 0, w))"

text \<open>
  What \<open>main\<close> does with them: the default configuration when no \<open>-c\<close> was given, then \<open>UserQueryMainCore\<close>, here
  \<open>run\<close>; an exception of \<open>run\<close> ends with -1, its return, when all threads have ended, with 0.
\<close>

definition main :: "(string \<Rightarrow> 'w \<Rightarrow> (string + 'm \<times> 'w) option) \<Rightarrow> (string \<Rightarrow> 'm \<Rightarrow> 'w \<Rightarrow> ((string + unit) \<times> 'w) option) \<Rightarrow>
    (char \<times> string) list \<Rightarrow> 'w \<Rightarrow> (int \<times> 'w) option" where
  "main build run opts w =
     do { (r, w) \<leftarrow> main_options build opts \<lparr>strServerName = [], strConfigFileName = [], pCMain = None\<rparr> w;
          case r of
            Inl code \<Rightarrow> Some (code, w)
          | Inr s \<Rightarrow>
              do { (r, w) \<leftarrow> (case pCMain s of
                     Some m \<Rightarrow> Some (Inr m, w)
                   | None \<Rightarrow> map_option (\<lambda>r. case r of Inl e \<Rightarrow> (Inl e, w) | Inr (m, w) \<Rightarrow> (Inr m, w)) (build ''./config/userQuery.conf'' w));
                   case r of
                     Inl e \<Rightarrow> Some (-1, w)
                   | Inr m \<Rightarrow> map_option (\<lambda>(r, w). (case r of Inl e \<Rightarrow> -1 | Inr _ \<Rightarrow> 0, w)) (run (strServerName s) m w) } }"

section \<open>Theorems\<close>

definition in_micros :: "timeval \<Rightarrow> int" where
  "in_micros t = tv_sec t * 1000000 + tv_usec t"

definition timeval_ok :: "timeval \<Rightarrow> bool" where
  "timeval_ok t \<longleftrightarrow> 0 \<le> tv_usec t \<and> tv_usec t < 1000000"

text \<open>
  The stop watch: seconds and microseconds together are the time between \<open>TimeOn\<close> and \<open>TimeOff\<close>, with
  the microseconds below a million, for any span below \<open>2 ^ 32\<close> seconds.
\<close>

theorem elapsed_time:
  assumes "timeval_ok on" "timeval_ok off" "in_micros on \<le> in_micros off" "tv_sec off - tv_sec on < 2 ^ 32"
  shows "uint (TimeGetSeconds (TimeOff off (TimeOn on c))) * 1000000 + uint (TimeGetMicSeconds (TimeOff off (TimeOn on c))) =
      in_micros off - in_micros on \<and> uint (TimeGetMicSeconds (TimeOff off (TimeOn on c))) < 1000000"
proof -
  have small: "uint (word_of_int x :: u32) = x" if "0 \<le> x" "x < 2 ^ 32" for x
    using that by (simp add: uint_word_of_int take_bit_int_eq_self)
  have le: "tv_sec on \<le> tv_sec off" using assms(1-3) by (simp add: in_micros_def timeval_ok_def)
  consider "tv_usec off = tv_usec on" | "tv_usec off > tv_usec on" | "tv_usec off < tv_usec on" by linarith
  then show ?thesis
  proof cases
    case 1
    then show ?thesis using assms le small [of "tv_sec off - tv_sec on"]
      by (simp add: TimeOff_def TimeOn_def TimeGetSeconds_def TimeGetMicSeconds_def in_micros_def timeval_ok_def Let_def)
  next
    case 2
    then show ?thesis using assms le small [of "tv_sec off - tv_sec on"] small [of "tv_usec off - tv_usec on"]
      by (simp add: TimeOff_def TimeOn_def TimeGetSeconds_def TimeGetMicSeconds_def in_micros_def timeval_ok_def Let_def)
  next
    case 3
    then have "tv_sec on < tv_sec off" using assms(1-3) by (simp add: in_micros_def timeval_ok_def)
    then show ?thesis using 3 assms le small [of "tv_sec off - tv_sec on - 1"] small [of "1000000 - tv_usec on + tv_usec off"]
      by (simp add: TimeOff_def TimeOn_def TimeGetSeconds_def TimeGetMicSeconds_def in_micros_def timeval_ok_def Let_def)
  qed
qed

theorem elapsed_time_witness:
  "\<exists>c :: CTime. uint (TimeGetSeconds c) * 1000000 + uint (TimeGetMicSeconds c) = 1000200 \<and> uint (TimeGetMicSeconds c) < 1000000 \<and>
     m_stOff c = \<lparr>tv_sec = 12, tv_usec = 100\<rparr>"
proof -
  let ?c = "\<lparr>m_stOn = \<lparr>tv_sec = 0, tv_usec = 0\<rparr>, m_stOff = \<lparr>tv_sec = 0, tv_usec = 0\<rparr>, m_uiSeconds = 0, m_uiMicSeconds = 0\<rparr>"
  let ?e = "TimeOff \<lparr>tv_sec = 12, tv_usec = 100\<rparr> (TimeOn \<lparr>tv_sec = 10, tv_usec = 999900\<rparr> ?c)"
  have "m_stOff ?e = \<lparr>tv_sec = 12, tv_usec = 100\<rparr>" by (simp add: TimeOff_def Let_def)
  with elapsed_time [of "\<lparr>tv_sec = 10, tv_usec = 999900\<rparr>" "\<lparr>tv_sec = 12, tv_usec = 100\<rparr>" ?c] show ?thesis
    by (intro exI [of _ ?e]) (simp add: in_micros_def timeval_ok_def)
qed

text \<open>The shared vectors of \<open>n\<close> working threads that have done nothing yet.\<close>

definition fresh_pool :: "nat \<Rightarrow> pool \<Rightarrow> bool" where
  "fresh_pool n p \<longleftrightarrow>
     m_uiCount p = n \<and> p_vecTaskBuf p = replicate n \<lparr>m_queUserQueryTask = [], m_clLock = new_CMutexLock\<rparr> \<and>
     p_vecTaskStauts p = replicate n [] \<and> p_vecReport p = replicate n [] \<and> p_vecHiveLog p = replicate n []"

lemma fresh_empty: "fresh_pool 0 empty_pool"
  by (simp add: fresh_pool_def empty_pool_def)

lemma AdWorkInit_fresh:
  assumes "AdWorkInit R md5 srv w p = Some (wk, w', p')" "fresh_pool n p"
  shows "fresh_pool (Suc n) p' \<and> m_uiThreadId wk = n"
  using assms by (auto simp: AdWorkInit_def fresh_pool_def replicate_append_same split: Option.bind_split_asm)

lemma start_workers_fresh:
  assumes "start_workers P R md5 srv n (wt, p, ws) = Some (wt', p', ws')" "fresh_pool k p" "map m_uiThreadId ws = [0..<k]"
  shows "fresh_pool (k + n) p' \<and> map m_uiThreadId ws' = [0..<k + n]"
  using assms
proof (induction n arbitrary: wt p ws k)
  case (Suc n)
  obtain w t where wt: "wt = (w, t)" by (cases wt)
  from Suc.prems(1) obtain wk w1 p1 wt1 where s: "AdWorkInit R md5 srv w p = Some (wk, w1, p1)"
    "start_workers P R md5 srv n (wt1, p1, ws @ [wk]) = Some (wt', p', ws')"
    by (auto simp: wt split: Option.bind_split_asm)
  from AdWorkInit_fresh [OF s(1) Suc.prems(2)] Suc.IH [OF s(2), of "Suc k"] Suc.prems(3) show ?case by simp
qed simp

lemma get_report_empty: "BdxQueryCountGetReport m (replicate n []) = (m, replicate n [])"
  by (induction n arbitrary: m) (simp_all add: report_add_def report_clear_def)

lemma start_state:
  assumes "UserQueryMainCore S K R H P md5 c1 c2 c3 m wt = Some pr" "n = unat (m_uiThreadsNum m)"
  shows "map m_uiThreadId (p_workers pr) = [0..<n] \<and> fresh_pool n (p_pool pr) \<and>
    (\<exists>w1. sched_init S K (m_stLocalServer (m_stServerInfo m)) n w1 = Some (p_server pr, FREEING 0, replicate n AT_LOCK))"
proof -
  from assms(1) obtain wt0 wt1 p ws w2 reports count w3 server w4 where
    s: "start_workers P R md5 (m_stRedisServer (m_stServerInfo m)) n (wt0, empty_pool, []) = Some (wt1, p, ws)"
      "new_CUserQueryCount H (m_stStatisticsPrm m) (m_stMysqlInfo m) c1 (fst wt1) (p_vecReport p) = Some (w2, reports, count)"
      "new_CUserQueryServer S K (m_stLocalServer (m_stServerInfo m)) (p_vecTaskBuf p) (p_vecTaskStauts p) w3 = Some server"
    and pr: "p_workers pr = ws" "p_pool pr = p\<lparr>p_vecReport := reports\<rparr>" "p_server pr = server"
    unfolding UserQueryMainCore_def assms(2) Let_def
    by (auto split: Option.bind_split_asm prod.split_asm if_split_asm)
  from start_workers_fresh [OF s(1) fresh_empty] have f: "fresh_pool n p" "map m_uiThreadId ws = [0..<n]" by simp_all
  from s(2) f(1) have "reports = replicate n []"
    by (auto simp: new_CUserQueryCount_def Let_def get_report_empty fresh_pool_def split: prod.split_asm Option.bind_split_asm)
  with f s(3) pr show ?thesis by (auto simp: fresh_pool_def sched_init_def)
qed

text \<open>
  C12. What \<open>main\<close> starts is what the scheduler is proved about: with \<open>n\<close> threads configured there are \<open>n\<close> working
  threads numbered from 0, every shared vector has an entry for each of them, and the server object with the
  threads at the head of their loops is the initial state of the scheduler.
\<close>

theorem start_builds_scheduler:
  assumes "UserQueryMainCore S K R H P md5 c1 c2 c3 m wt = Some pr" "n = unat (m_uiThreadsNum m)"
  shows "map m_uiThreadId (p_workers pr) = [0..<n] \<and> fresh_pool n (p_pool pr) \<and>
    (\<exists>w1. sched_init S K (m_stLocalServer (m_stServerInfo m)) n w1 = Some (p_server pr, FREEING 0, replicate n AT_LOCK))"
  by (rule start_state [OF assms])

text \<open>A machine on which everything that the start needs works.\<close>

definition k_stdio :: "kworld stdio" where
  "k_stdio =
     \<lparr>f_access = (\<lambda>_ _. True), f_mkdir = (\<lambda>_ w. (True, w)), f_list = (\<lambda>_ _. Some []), f_open = (\<lambda>_ _ w. (Some 0, w)),
      f_close = (\<lambda>_ w. Some w), f_print = (\<lambda>_ _ w. Some (True, w)), f_write = (\<lambda>_ _ w. Some (1, w)), f_length = (\<lambda>_ _. 0),
      f_read = (\<lambda>_ _ w. ([], w)), f_remove = (\<lambda>_ w. (True, w)), f_size = (\<lambda>_ _. None)\<rparr>"

definition k_mysql :: "kworld mysql_api" where
  "k_mysql =
     \<lparr>mysql_init = (\<lambda>w. (Some 0, w)), mysql_real_connect = (\<lambda>_ _ _ _ _ _ w. (Some 0, w)), mysql_query = (\<lambda>_ _ w. (0, w)),
      mysql_use_result = (\<lambda>_ w. (None, w)), mysql_fetch_row = (\<lambda>_ w. (None, w)), mysql_field_count = (\<lambda>_ _. 0),
      mysql_fetch_field = (\<lambda>_ w. (None, w)), mysql_free_result = (\<lambda>_ w. w), mysql_close = (\<lambda>_ w. w)\<rparr>"

definition k_host :: "kworld host" where
  "k_host = \<lparr>h_stdio = k_stdio, h_mysql = k_mysql, h_now = (\<lambda>_. sample_tm), h_rand = (\<lambda>_. 42)\<rparr>"

definition k_redis :: "kworld hiredis" where
  "k_redis = \<lparr>redisConnectWithTimeout = (\<lambda>w _ _ _. (None, w)), redisFree = (\<lambda>w _. w), redisCommand = (\<lambda>w _ _ _. (None, w)),
     getenv = (\<lambda>_ _. None)\<rparr>"

definition k_pthread :: "kworld pthread" where
  "k_pthread = \<lparr>p_create = (\<lambda>_ _ w. (Some 7, w)), p_join = (\<lambda>_ w. w), p_cancel = (\<lambda>_ w. (True, w)), p_attr_init = (\<lambda>w. (True, w)),
     p_attr_detach = (\<lambda>w. (True, w)), p_rwlock_init = (\<lambda>w. (True, w))\<rparr>"

definition k_main :: CUserQueryMain where
  "k_main = zero_config\<lparr>m_stServerInfo := \<lparr>m_stRedisServer = k_port, m_stLocalServer = k_port, m_stTokenServer = k_port, m_stGoodsServer = k_port\<rparr>,
     m_uiThreadsNum := 1\<rparr>"

lemma k_list: "serv_list_text k_port = Some ''0;:80,0;''" "redis_serv_list ''0;:80,0;'' = Some (True, [])"
  by code_simp+

lemma k_adapter: "Adapter_Init k_redis ''0;:80,0;'' (w, a) = Some (True, w, a\<lparr>serv_count := 0, data := []\<rparr>)"
  by (simp add: Adapter_Init_def k_list)

lemma k_thread: "start_thread k_pthread r (w, t) =
    Some (w, t\<lparr>m_iID := 7, m_stAttr := default_attr, m_vecID := m_vecID t @ [7], m_fpFun := None\<rparr>)"
  by (simp add: start_thread_def CreateThead_def SetRoutine_def ThreadAttrInit_def k_pthread_def)

lemma k_count: "\<exists>c. new_CUserQueryCount k_host prm info c0 w [[]] = Some (w, [[]], c)"
  using four_digits [of 42] sample_date(1)
  by (simp add: new_CUserQueryCount_def k_host_def k_stdio_def k_mysql_def open_titled_def FileBeExists_def InitMysql_def report_add_def report_clear_def)

lemma k_hive: "\<exists>c. new_CUserQueryHiveLog k_host prm info c0 w = Some (w, c)"
  using four_digits [of 42] sample_date(2,3)
  by (simp add: new_CUserQueryHiveLog_def k_host_def k_stdio_def k_mysql_def FileBeExists_def InitMysql_def)

lemma k_new_server:
  "new_CUserQueryServer k_sys k_epoll k_port [\<lparr>m_queUserQueryTask = [], m_clLock = new_CMutexLock\<rparr>] [[]] \<lparr>k_fds = {}, k_reg = {}\<rparr> =
     Some (k_server {3} {3} False [])"
  using k_init by (simp add: sched_init_def)

abbreviation k_threads :: CThreads where "k_threads \<equiv> \<lparr>m_iID = 0, m_stAttr = default_attr, m_vecID = [], m_fpFun = None\<rparr>"

abbreviation k_process :: "kworld process option" where
  "k_process \<equiv> UserQueryMainCore k_sys k_epoll k_redis k_host k_pthread sample_md5 toy_client toy_client toy_client k_main
      (\<lparr>k_fds = {}, k_reg = {}\<rparr>, k_threads)"

lemma k_process_starts: "\<exists>pr. k_process = Some pr \<and> p_server pr = k_server {3} {3} False []"
proof -
  have m: "m_stRedisServer (m_stServerInfo k_main) = k_port" "m_stLocalServer (m_stServerInfo k_main) = k_port" "m_uiThreadsNum k_main = 1"
    by (simp_all add: k_main_def)
  obtain c where c: "new_CUserQueryCount k_host (m_stStatisticsPrm k_main) (m_stMysqlInfo k_main) toy_client \<lparr>k_fds = {}, k_reg = {}\<rparr> [[]] =
      Some (\<lparr>k_fds = {}, k_reg = {}\<rparr>, [[]], c)" using k_count by blast
  obtain v where v: "new_CUserQueryHiveLog k_host (m_stHiveLogPrm k_main) (m_stMysqlInfo k_main) toy_client \<lparr>k_fds = {}, k_reg = {}\<rparr> =
      Some (\<lparr>k_fds = {}, k_reg = {}\<rparr>, v)" using k_hive by blast
  have rw: "p_rwlock_init k_pthread w = (True, w)" for w by (simp add: k_pthread_def)
  show ?thesis
    unfolding UserQueryMainCore_def m rw
    by (simp add: empty_pool_def AdWorkInit_def k_list k_adapter k_thread c v k_new_server new_CUserQueryUpdate_def Let_def split: prod.split)
qed

theorem start_builds_scheduler_witness: "\<exists>pr. k_process = Some pr \<and> map m_uiThreadId (p_workers pr) = [0]"
proof -
  obtain pr where pr: "k_process = Some pr" using k_process_starts by blast
  have "1 = unat (m_uiThreadsNum k_main)" by (simp add: k_main_def)
  with start_builds_scheduler [OF pr this] pr show ?thesis by auto
qed

end
