(* ===== verification/TaskRun.thy ===== *)
theory TaskRun
  imports Scheduler
begin

text \<open>
  A run of a request as the scheduler sees it: \<open>BdxRunTask\<close>, put together from the operations of
  \<open>TaskMain\<close>, keeps the socket of its task and changes no entry of the descriptor table but those it
  adds. With it the theorems of \<open>Scheduler\<close> hold of the gateway itself, without an assumption on runs.
\<close>

section \<open>Redis commands and the descriptor table\<close>

text \<open>
  The connections of hiredis are its own: it opens, uses and closes none of the descriptors of the table.
  \<open>f\<close> is any view of the world that its calls leave alone.
\<close>

definition leaves :: "'w hiredis \<Rightarrow> ('w \<Rightarrow> 'a) \<Rightarrow> bool" where
  "leaves h f \<longleftrightarrow>
     (\<forall>w host port t. f (snd (redisConnectWithTimeout h w host port t)) = f w) \<and>
     (\<forall>w c. f (redisFree h w c) = f w) \<and>
     (\<forall>w c fmt args. f (snd (redisCommand h w c fmt args)) = f w)"

lemma leaves_calls:
  assumes "leaves h f"
  shows "\<And>w host port t r w'. redisConnectWithTimeout h w host port t = (r, w') \<Longrightarrow> f w' = f w"
    and "\<And>w c. f (redisFree h w c) = f w"
    and "\<And>w c fmt args r w'. redisCommand h w c fmt args = (r, w') \<Longrightarrow> f w' = f w"
    and "\<And>w c fmt args. f (snd (redisCommand h w c fmt args)) = f w"
proof -
  show "f w' = f w" if "redisConnectWithTimeout h w host port t = (r, w')" for w host port t r w'
    using assms [unfolded leaves_def, THEN conjunct1, rule_format, of w host port t] that by simp
  show "f (redisFree h w c) = f w" for w c using assms by (simp add: leaves_def)
  show s: "f (snd (redisCommand h w c fmt args)) = f w" for w c fmt args using assms by (simp add: leaves_def)
  show "f w' = f w" if "redisCommand h w c fmt args = (r, w')" for w c fmt args r w'
    using s [of w c fmt args] that by simp
qed

lemma leaves_DisConnect: "leaves h f \<Longrightarrow> f (fst (DisConnect h s)) = f (fst s)"
  by (cases s) (simp add: DisConnect_def leaves_calls(2) split: option.split)

lemma leaves_send:
  assumes "leaves h f" "send_command h fmt args s = (r, s')"
  shows "f (fst s') = f (fst s)"
proof -
  obtain w d where s: "s = (w, d)" by (cases s)
  obtain q u where c: "redisCommand h w (the (r_context d)) fmt args = (q, u)" by (metis surj_pair)
  from assms(2) leaves_calls(3) [OF assms(1) c] leaves_DisConnect [OF assms(1), of "(u, d)"] show ?thesis
    by (auto simp: s send_command_def c split: if_splits)
qed

lemma leaves_select: "leaves h f \<Longrightarrow> select_open h db s = (r, s') \<Longrightarrow> f (fst s') = f (fst s)"
  by (cases "send_command h ''select %d'' [AInt (uint db)] s") (auto simp: select_open_def leaves_send)

lemma leaves_auth: "leaves h f \<Longrightarrow> f (fst (auth_open h s)) = f (fst s)"
  by (cases s) (simp add: auth_open_def Let_def leaves_calls(4))

lemma leaves_handshake:
  assumes "leaves h f" "handshake h s = (r, s')"
  shows "f (fst s') = f (fst s)"
proof -
  obtain sel s1 where s1: "(if r_idx (snd s) \<noteq> 0 then select_open h (r_idx (snd s)) s else (True, s)) = (sel, s1)"
    by (metis prod.exhaust)
  then have "f (fst s1) = f (fst s)" using leaves_select [OF assms(1)] by (auto split: if_splits)
  moreover obtain reply s2 where s2: "send_command h ''PING'' [] (auth_open h s1) = (reply, s2)" by (metis surj_pair)
  moreover have "f (fst s2) = f (fst s1)" using leaves_send [OF assms(1) s2] leaves_auth [OF assms(1)] by simp
  ultimately show ?thesis using assms(2) s1 by (auto simp: handshake_def Let_def split: if_splits)
qed

lemma leaves_KeepConnect:
  assumes "leaves h f" "KeepConnect h timeout s = (r, s')"
  shows "f (fst s') = f (fst s)"
proof -
  obtain w d where s: "s = (w, d)" by (cases s)
  obtain conn w1 where c: "redisConnectWithTimeout h w (r_host d) (r_port d)
      (if timeout \<noteq> 0 then timeout else 800000) = (conn, w1)" by (metis prod.exhaust)
  note w1 = leaves_calls(1) [OF assms(1) c]
  from assms(2) show ?thesis
    unfolding s KeepConnect_handshake c
    using w1 leaves_handshake [OF assms(1)] leaves_calls(2) [OF assms(1)]
    by (auto split: option.splits prod.splits if_splits)
qed

lemma leaves_command:
  assumes "leaves h f" "command h fmt args s = (r, s')"
  shows "f (fst s') = f (fst s)"
proof -
  obtain b s1 where k: "KeepConnect h 0 s = (b, s1)" by (metis surj_pair)
  from assms(2) leaves_KeepConnect [OF assms(1) k] leaves_send [OF assms(1)] show ?thesis
    by (auto simp: command_def k split: if_splits)
qed

lemma leaves_simple: "leaves h f \<Longrightarrow> simple_command h fmt args s = (r, s') \<Longrightarrow> f (fst s') = f (fst s)"
  by (cases "command h fmt args s") (auto simp: simple_command_def leaves_command)

lemma leaves_GetValue:
  assumes "leaves h f" "GetValue h key val s = (b, v, s')"
  shows "f (fst s') = f (fst s)"
proof -
  obtain r s1 where c: "command h ''GET %s'' [AStr key] s = (r, s1)" by (metis surj_pair)
  from assms(2) leaves_command [OF assms(1) c] leaves_DisConnect [OF assms(1), of s1] show ?thesis
    by (auto simp: GetValue_def c split: option.splits if_splits)
qed

lemma leaves_sorted:
  assumes "leaves h f"
  shows "GetValueSortedSet h key val s = Some (b, v, s') \<Longrightarrow> f (fst s') = f (fst s)"
    and "RemoveSortedSet h key val s = Some (b, v, s') \<Longrightarrow> f (fst s') = f (fst s)"
proof -
  obtain ok w d where k: "KeepConnect h 0 s = (ok, w, d)" by (metis surj_pair)
  note w = leaves_KeepConnect [OF assms k]
  obtain r u where g: "redisCommand h w (the (r_context d)) ''ZRANGE %s 0 0'' [AStr key] = (r, u)" by (metis surj_pair)
  obtain q v' where z: "redisCommand h w (the (r_context d)) ''zremrangebyrank %s 0 0'' [AStr key] = (q, v')" by (metis surj_pair)
  note calls = leaves_calls(3) [OF assms g] leaves_calls(3) [OF assms z] leaves_DisConnect [OF assms, of "(u, d)"]
    leaves_DisConnect [OF assms, of "(v', d)"]
  show "f (fst s') = f (fst s)" if "GetValueSortedSet h key val s = Some (b, v, s')"
    using that w calls by (auto simp: GetValueSortedSet_def k g Let_def split: option.splits if_splits)
  show "f (fst s') = f (fst s)" if "RemoveSortedSet h key val s = Some (b, v, s')"
    using that w calls by (auto simp: RemoveSortedSet_def k z split: option.splits if_splits)
qed

text \<open>The operations of the cluster that a task uses leave the descriptor table alone; and they keep their contexts.\<close>

locale neutral_operation = adapter_operation user_operation
  for user_operation :: "'w hiredis \<Rightarrow> 'w astate \<Rightarrow> ('r \<times> 'w astate) option" +
  assumes neutral: "leaves h (tab :: 'w \<Rightarrow> int \<rightharpoonup> bool) \<Longrightarrow> user_operation h s = Some (r, s') \<Longrightarrow> tab (fst s') = tab (fst s)"

lemma on_shard_neutral:
  assumes "adapter_operation (\<lambda>h :: 'w hiredis. on_shard (operation h) uid)"
    and "\<And>h (tab :: 'w \<Rightarrow> int \<rightharpoonup> bool) s r s'. leaves h tab \<Longrightarrow> operation h s = Some (r, s') \<Longrightarrow> tab (fst s') = tab (fst s)"
  shows "neutral_operation (\<lambda>h :: 'w hiredis. on_shard (operation h) uid)"
proof (intro neutral_operation.intro assms(1), unfold_locales)
  fix h :: "'w hiredis" and tab :: "'w \<Rightarrow> int \<rightharpoonup> bool" and s r s'
  assume *: "leaves h tab" "on_shard (operation h) uid s = Some (r, s')"
  then show "tab (fst s') = tab (fst s)"
    by (cases s) (auto simp: on_shard_def dest!: assms(2) split: option.splits)
qed

interpretation neutral_incr: neutral_operation "\<lambda>h. UserIncr h uid e" for uid e
  unfolding UserIncr_def IncrValue_def by (rule on_shard_neutral [OF user_incr.adapter_operation_axioms [unfolded UserIncr_def IncrValue_def]]) (auto dest: leaves_simple split: if_splits)

interpretation neutral_put: neutral_operation "\<lambda>h. UserPut h uid rule" for uid rule
  unfolding UserPut_def SetValue_def by (rule on_shard_neutral [OF user_put.adapter_operation_axioms [unfolded UserPut_def SetValue_def]]) (auto dest: leaves_simple split: if_splits)

interpretation neutral_put_expire: neutral_operation "\<lambda>h. UserPutExpire h uid rule e" for uid rule e
  unfolding UserPutExpire_def SetValue_def by (rule on_shard_neutral [OF user_put_expire.adapter_operation_axioms [unfolded UserPutExpire_def SetValue_def]]) (auto dest: leaves_simple split: if_splits)

interpretation neutral_smove: neutral_operation "\<lambda>h. UserSmove h uid dst rule" for uid dst rule
  unfolding UserSmove_def Smove_def by (rule on_shard_neutral [OF user_smove.adapter_operation_axioms [unfolded UserSmove_def Smove_def]]) (auto dest: leaves_simple)

interpretation neutral_put_order: neutral_operation "\<lambda>h. UserPutOrderSet h key score member" for key score member
  unfolding UserPutOrderSet_def SetValueSortedSet_def by (rule on_shard_neutral [OF user_put_order_set.adapter_operation_axioms [unfolded UserPutOrderSet_def SetValueSortedSet_def]]) (auto dest: leaves_simple)

interpretation neutral_get: neutral_operation "\<lambda>h. UserGet h uid rule" for uid rule
  unfolding UserGet_def by (rule on_shard_neutral [OF user_get.adapter_operation_axioms [unfolded UserGet_def]]) (auto dest: leaves_GetValue split: prod.splits)

interpretation neutral_get_sorted: neutral_operation "\<lambda>h. UserGetSortedSet h uid rule" for uid rule
  unfolding UserGetSortedSet_def by (rule on_shard_neutral [OF user_get_sorted.adapter_operation_axioms [unfolded UserGetSortedSet_def]]) (auto dest: leaves_sorted)

interpretation neutral_remove_sorted: neutral_operation "\<lambda>h. UserRemoveSortedSet h uid rule" for uid rule
  unfolding UserRemoveSortedSet_def by (rule on_shard_neutral [OF user_remove_sorted.adapter_operation_axioms [unfolded UserRemoveSortedSet_def]]) (auto dest: leaves_sorted)

section \<open>Operations of a task\<close>

text \<open>
  What every phase of a request keeps, when the kernel keeps the table and hiredis leaves it alone: the
  task's socket, all entries of the table, and, where a view \<open>live\<close> of the open contexts of hiredis is given
  (\<open>ctx\<close> is \<open>Some live\<close>), the ownership of those of the thread's cluster. The rules below put operations together
  as the code does.
\<close>

definition fits :: "('w \<Rightarrow> nat set) option \<Rightarrow> nat set \<Rightarrow> 'w gateway \<Rightarrow> bool" where
  "fits ctx others g \<longleftrightarrow> (case ctx of None \<Rightarrow> True | Some live \<Rightarrow> adapter_ok live others (g_world g, m_pDataRedis g))"

definition env_ok :: "('w, 'j) env \<Rightarrow> ('w \<Rightarrow> int \<rightharpoonup> bool) \<Rightarrow> ('w \<Rightarrow> nat set) option \<Rightarrow> bool" where
  "env_ok E tab ctx \<longleftrightarrow>
     tracks_fds (e_sys E) tab \<and> leaves (e_redis E) tab \<and>
     (case ctx of None \<Rightarrow> True | Some live \<Rightarrow> keeps_view (e_sys E) live \<and> tracks_contexts (e_redis E) live)"

definition keeps :: "('w \<Rightarrow> int \<rightharpoonup> bool) \<Rightarrow> ('w \<Rightarrow> nat set) option \<Rightarrow> 'w gateway \<Rightarrow> 'w gateway \<Rightarrow> bool" where
  "keeps tab ctx g g' \<longleftrightarrow>
     m_pclSock g' = m_pclSock g \<and> grows (tab (g_world g)) (tab (g_world g')) \<and> (\<forall>others. fits ctx others g \<longrightarrow> fits ctx others g')"

lemma env_ok_table: "env_ok E tab ctx \<Longrightarrow> tracks_fds (e_sys E) tab" "env_ok E tab ctx \<Longrightarrow> leaves (e_redis E) tab"
  by (simp_all add: env_ok_def)

text \<open>A computation that leaves the Redis objects alone and the view of their contexts keeps them.\<close>

lemma fits_same:
  assumes "m_pDataRedis g' = m_pDataRedis g" "\<And>live. ctx = Some live \<Longrightarrow> live (g_world g') = live (g_world g)"
  shows "fits ctx others g' = fits ctx others g"
  using assms by (auto simp: fits_def adapter_ok_def cluster_owns_def split: option.split)

lemma keeps_refl [simp]: "keeps tab ctx g g"
  by (simp add: keeps_def)

lemma keeps_trans: "keeps tab ctx a b \<Longrightarrow> keeps tab ctx b c \<Longrightarrow> keeps tab ctx a c"
  by (auto simp: keeps_def intro: grows_trans)

text \<open>Every outcome of a computation that starts in \<open>g\<close> keeps what it has to keep.\<close>

definition safe :: "('w \<Rightarrow> int \<rightharpoonup> bool) \<Rightarrow> ('w \<Rightarrow> nat set) option \<Rightarrow> 'w gateway \<Rightarrow> ('r \<times> 'w gateway) option \<Rightarrow> bool" where
  "safe tab ctx g X \<longleftrightarrow> (\<forall>r g'. X = Some (r, g') \<longrightarrow> keeps tab ctx g g')"

definition safe_state :: "('w \<Rightarrow> int \<rightharpoonup> bool) \<Rightarrow> ('w \<Rightarrow> nat set) option \<Rightarrow> 'w gateway \<Rightarrow> 'w gateway option \<Rightarrow> bool" where
  "safe_state tab ctx g X \<longleftrightarrow> (\<forall>g'. X = Some g' \<longrightarrow> keeps tab ctx g g')"

text \<open>The contract of a phase; the one of the calls of services is a case of it.\<close>

locale task_operation =
  fixes operation :: "('w, 'j) env \<Rightarrow> 'w gateway \<Rightarrow> ('r \<times> 'w gateway) option"
  assumes keeps_table: "env_ok E tab ctx \<Longrightarrow> operation E g = Some (r, g') \<Longrightarrow> keeps tab ctx g g'"
begin

lemma safe_operation: "env_ok E tab ctx \<Longrightarrow> safe tab ctx g (operation E g)"
  by (simp add: safe_def keeps_table)

end

sublocale hub_operation \<subseteq> task_operation
proof
  fix E :: "('w, 'j) env" and tab ctx g r g'
  assume *: "env_ok E tab ctx" "operation E g = Some (r, g')"
  have same: "m_pclSock g' = m_pclSock g" "m_pDataRedis g' = m_pDataRedis g"
    using keeps_task [OF *(2)] by (simp_all add: same_task_def)
  have "live (g_world g') = live (g_world g)" if "ctx = Some live" for live
  proof (rule keeps_rest [OF env_ok_table(1) [OF *(1)] _ *(2)])
    show "keeps_view (e_sys E) live" using *(1) that by (simp add: env_ok_def)
  qed
  then show "keeps tab ctx g g'"
    using same fits_same [of g' g ctx] closes_nothing [OF env_ok_table(1) [OF *(1)] *(2)] by (simp add: keeps_def)
qed

text \<open>The rules follow the shape of the code.\<close>

lemma safe_bind:
  "safe tab ctx g X \<Longrightarrow> (\<And>x g'. safe tab ctx g' (k x g')) \<Longrightarrow> safe tab ctx g (Option.bind X (\<lambda>(x, g'). k x g'))"
  "safe tab ctx g X \<Longrightarrow> (\<And>x g'. safe_state tab ctx g' (l x g')) \<Longrightarrow> safe_state tab ctx g (Option.bind X (\<lambda>(x, g'). l x g'))"
  unfolding safe_def safe_state_def by (auto split: Option.bind_split_asm) (blast intro: keeps_trans)+

lemma safe_bind_state:
  "safe_state tab ctx g Y \<Longrightarrow> (\<And>g'. safe tab ctx g' (k g')) \<Longrightarrow> safe tab ctx g (Option.bind Y k)"
  "safe_state tab ctx g Y \<Longrightarrow> (\<And>g'. safe_state tab ctx g' (l g')) \<Longrightarrow> safe_state tab ctx g (Option.bind Y l)"
  unfolding safe_def safe_state_def by (auto split: Option.bind_split_asm) (blast intro: keeps_trans)+

lemma safe_pure:
  "(\<And>x. safe tab ctx g (k x)) \<Longrightarrow> safe tab ctx g (Option.bind p k)"
  "(\<And>x. safe_state tab ctx g (l x)) \<Longrightarrow> safe_state tab ctx g (Option.bind p l)"
  by (auto simp: safe_def safe_state_def split: Option.bind_split_asm)

lemma safe_cases:
  "(c \<Longrightarrow> safe tab ctx g X) \<Longrightarrow> (\<not> c \<Longrightarrow> safe tab ctx g Y) \<Longrightarrow> safe tab ctx g (if c then X else Y)"
  "(c \<Longrightarrow> safe_state tab ctx g U) \<Longrightarrow> (\<not> c \<Longrightarrow> safe_state tab ctx g V) \<Longrightarrow> safe_state tab ctx g (if c then U else V)"
  "safe tab ctx g X \<Longrightarrow> (\<And>x. safe tab ctx g (k x)) \<Longrightarrow> safe tab ctx g (case m of None \<Rightarrow> X | Some x \<Rightarrow> k x)"
  "(\<And>a b. safe tab ctx g (h a b)) \<Longrightarrow> safe tab ctx g (case q of (a, b) \<Rightarrow> h a b)"
  "(\<And>a b. safe_state tab ctx g (l a b)) \<Longrightarrow> safe_state tab ctx g (case q of (a, b) \<Rightarrow> l a b)"
  "(\<And>a b. safe tab ctx g (h2 a b g2)) \<Longrightarrow> safe tab ctx g ((case q of (a, b) \<Rightarrow> h2 a b) g2)"
  "(\<And>a b. safe_state tab ctx g (l2 a b g2)) \<Longrightarrow> safe_state tab ctx g ((case q of (a, b) \<Rightarrow> l2 a b) g2)"
  "(\<And>a. safe tab ctx g (i a)) \<Longrightarrow> (\<And>b. safe tab ctx g (j b)) \<Longrightarrow> safe tab ctx g (case s of Inl a \<Rightarrow> i a | Inr b \<Rightarrow> j b)"
  by (simp_all split: option.split prod.split sum.split)

lemma safe_ends:
  "keeps tab ctx g g' \<Longrightarrow> safe tab ctx g (Some (r, g'))" "keeps tab ctx g g' \<Longrightarrow> safe_state tab ctx g (Some g')"
  "safe tab ctx g None" "safe_state tab ctx g None"
  by (simp_all add: safe_def safe_state_def)

lemmas safe_rules = safe_bind safe_bind_state safe_cases safe_ends safe_pure

lemma fits_updates [simp]:
  "fits ctx others (bump h n g) = fits ctx others g" "fits ctx others (g\<lparr>m_sRegion := x\<rparr>) = fits ctx others g"
  "fits ctx others (g\<lparr>g_strDataHubToken := x\<rparr>) = fits ctx others g" "fits ctx others (g\<lparr>m_vecHiveLog := hl\<rparr>) = fits ctx others g"
  "fits ctx others (g\<lparr>m_httpType := ht\<rparr>) = fits ctx others g" "fits ctx others (g\<lparr>m_vecReport := rp\<rparr>) = fits ctx others g"
  by (cases ctx; simp add: fits_def bump_def)+

lemma keeps_updates [simp]:
  "keeps tab ctx g (bump f n g') = keeps tab ctx g g'" "keeps tab ctx (bump f n g) g' = keeps tab ctx g g'"
  "keeps tab ctx g (g'\<lparr>m_sRegion := x\<rparr>) = keeps tab ctx g g'" "keeps tab ctx g (g'\<lparr>g_strDataHubToken := x\<rparr>) = keeps tab ctx g g'"
  "keeps tab ctx g (g'\<lparr>m_vecHiveLog := hl\<rparr>) = keeps tab ctx g g'" "keeps tab ctx g (g'\<lparr>m_httpType := ht\<rparr>) = keeps tab ctx g g'"
  "keeps tab ctx (g\<lparr>m_httpType := ht\<rparr>) g' = keeps tab ctx g g'"
  by (simp_all add: keeps_def bump_def)

lemma safe_started:
  "safe tab ctx (bump f n g) (on_redis U (bump f n g)) \<Longrightarrow> safe tab ctx g (on_redis U (bump f n g))"
  "safe tab ctx (bump f n g) (BdxGetRemoteGateWayData E conf req res err (bump f n g)) \<Longrightarrow>
    safe tab ctx g (BdxGetRemoteGateWayData E conf req res err (bump f n g))"
  by (simp_all add: safe_def)

context neutral_operation begin

lemma safe_redis:
  assumes "env_ok E tab ctx"
  shows "safe tab ctx g (on_redis (user_operation (e_redis E)) g)"
  unfolding safe_def
proof (intro allI impI)
  fix r g' assume "on_redis (user_operation (e_redis E)) g = Some (r, g')"
  then obtain w a where u: "user_operation (e_redis E) (g_world g, m_pDataRedis g) = Some (r, w, a)"
    and g': "g' = g\<lparr>g_world := w, m_pDataRedis := a\<rparr>"
    by (auto simp: on_redis_def split: Option.bind_split_asm)
  have "tab w = tab (g_world g)" using neutral [OF env_ok_table(2) [OF assms] u] by simp
  moreover have "fits ctx others g \<longrightarrow> fits ctx others g'" for others
    using assms keeps_adapter [OF _ _ u] by (auto simp: fits_def env_ok_def g' split: option.splits)
  ultimately show "keeps tab ctx g g'" by (simp add: keeps_def g')
qed

end

lemmas safe_redis_calls =
  neutral_incr.safe_redis neutral_put.safe_redis neutral_put_expire.safe_redis neutral_smove.safe_redis
  neutral_put_order.safe_redis neutral_get.safe_redis neutral_get_sorted.safe_redis neutral_remove_sorted.safe_redis

lemmas safe_hub_calls =
  hub_verify.safe_operation hub_token.safe_operation hub_status.safe_operation hub_update.safe_operation
  hub_order.safe_operation remote_call.safe_operation

section \<open>The phases of a request\<close>

lemma task_operationI:
  "(\<And>E tab ctx g. env_ok E tab ctx \<Longrightarrow> safe tab ctx g (f E g)) \<Longrightarrow> task_operation f"
  by unfold_locales (simp add: safe_def)

interpretation phase_count: task_operation "\<lambda>E. count_request E user res" for user res
  unfolding count_request_def Let_def
  by (rule task_operationI) (rule safe_rules safe_redis_calls | assumption | simp)+

interpretation phase_authorise: task_operation "\<lambda>E. authorise E user sig" for user sig
  unfolding authorise_def Let_def
  by (rule task_operationI) (rule safe_rules safe_redis_calls safe_hub_calls | assumption | simp)+

interpretation phase_token: task_operation gateway_token
  unfolding gateway_token_def Let_def
  by (rule task_operationI) (rule safe_rules safe_redis_calls safe_hub_calls | assumption | simp)+

lemma store_orders_safe:
  assumes "env_ok E tab ctx"
  shows "safe_state tab ctx g (store_orders E user repo item token os v g)"
proof (induction os arbitrary: v g)
  case Nil
  show ?case by (simp add: safe_ends)
next
  case (Cons order os)
  show ?case
    unfolding store_orders.simps Let_def
    by (rule safe_rules safe_redis_calls safe_hub_calls Cons.IH assms | simp)+
qed

interpretation phase_order: task_operation "\<lambda>E. find_order E user repo item token" for user repo item token
  unfolding find_order_def
  by (rule task_operationI) (rule safe_rules safe_redis_calls safe_hub_calls store_orders_safe | assumption | simp)+

lemma close_order_safe:
  assumes "env_ok E tab ctx"
  shows "safe_state tab ctx g (close_order E user repo item subid token used g)"
  unfolding close_order_def Let_def
  by (rule safe_rules safe_redis_calls safe_hub_calls assms | simp)+

interpretation phase_quota: task_operation "\<lambda>E. check_quota E user repo item subid token" for user repo item subid token
  unfolding check_quota_def
  by (rule task_operationI) (rule safe_rules safe_redis_calls close_order_safe | assumption | simp)+

lemma log_call_safe: "safe_state tab ctx g (log_call E target req res g)"
  unfolding log_call_def by (rule safe_rules | simp)+

interpretation phase_failure: task_operation "\<lambda>E. count_failure E user req res" for user req res
  unfolding count_failure_def Let_def
  by (rule task_operationI) (rule safe_rules safe_redis_calls safe_started | assumption | simp)+

interpretation phase_success: task_operation "\<lambda>E. count_success E key req res err" for key req res err
  unfolding count_success_def
  by (rule task_operationI) (rule safe_rules safe_redis_calls safe_started | assumption | simp)+

interpretation phase_call: task_operation "\<lambda>E. call_api E conf target user key req res err" for conf target user key req res err
  unfolding call_api_def
  by (rule task_operationI)
     (rule safe_rules safe_redis_calls safe_hub_calls log_call_safe phase_failure.safe_operation
        phase_success.safe_operation safe_started | assumption | simp)+

interpretation phase_dispatch: task_operation "\<lambda>E. dispatch E apis target action m user repo item subid req res err"
  for apis target action m user repo item subid req res err
  unfolding dispatch_def Let_def
  by (rule task_operationI) (rule safe_rules phase_call.safe_operation | assumption | simp)+

interpretation phase_serve: task_operation "\<lambda>E. serve E apis target action m user repo item sig req res err"
  for apis target action m user repo item sig req res err
  unfolding serve_def
  by (rule task_operationI)
     (rule safe_rules phase_count.safe_operation phase_authorise.safe_operation phase_token.safe_operation
        phase_order.safe_operation phase_quota.safe_operation phase_dispatch.safe_operation | assumption | simp)+

interpretation phase_body: task_operation "\<lambda>E. BdxParseBody E apis buf req res err" for apis buf req res err
proof (rule task_operationI)
  fix E :: "('w, 'j) env" and tab ctx g
  assume env: "env_ok E tab ctx"
  have "safe tab ctx (g\<lparr>m_httpType := 1\<rparr>) (BdxParseBody E apis buf req res err g)"
    unfolding BdxParseBody_def Let_def
    by (rule safe_rules phase_serve.safe_operation [OF env] | simp)+
  then show "safe tab ctx g (BdxParseBody E apis buf req res err g)" by (simp add: safe_def)
qed

section \<open>The run\<close>

lemma on_socket_keeps:
  assumes "env_ok E tab ctx" "on_socket operation sock g = (r, g')" "m_pclSock g = Some sock"
    and "\<And>t. tracks_fds (e_sys E) t \<Longrightarrow> t (fst (snd (operation (g_world g, sock)))) = t (g_world g)"
    and "snd (snd (operation (g_world g, sock))) = sock"
  shows "keeps tab ctx g g'"
proof -
  obtain w where w: "operation (g_world g, sock) = (r, w, sock)" and g': "g' = g\<lparr>g_world := w, m_pclSock := Some sock\<rparr>"
    using assms(2,5) by (cases "operation (g_world g, sock)") (auto simp: on_socket_def)
  have "live w = live (g_world g)" if "ctx = Some live" for live
    using assms(4) [OF framed_tracks [OF env_ok_table(1) [OF assms(1)]], of live "live (g_world g)"] assms(1) that w
      framed_same [of live "g_world g" tab w] by (simp add: env_ok_def)
  then have "fits ctx others g' = fits ctx others g" for others by (intro fits_same) (simp_all add: g')
  moreover have "tab w = tab (g_world g)" using assms(4) [OF env_ok_table(1) [OF assms(1)]] w by simp
  ultimately show ?thesis using assms(3) by (simp add: keeps_def g')
qed

lemma packet_safe:
  assumes "env_ok E tab ctx" "m_pclSock g = Some sock"
  shows "safe tab ctx g (BdxGetHttpPacket E apis sock req res g)"
proof -
  obtain iRes mem g1 where rd: "on_socket (TcpRead (e_sys E) 8192) sock g = ((iRes, mem), g1)" by (metis surj_pair)
  have "t (fst (snd (TcpRead (e_sys E) 8192 (g_world g, sock)))) = t (g_world g) \<and>
      snd (snd (TcpRead (e_sys E) 8192 (g_world g, sock))) = sock" if "tracks_fds (e_sys E) t" for t
    using read_timed_fds [OF that] unfolding TcpRead_def by (metis fst_conv prod.collapse snd_conv)
  then have k: "keeps tab ctx g g1" using on_socket_keeps [OF assms(1) rd assms(2)] env_ok_table(1) [OF assms(1)] by blast
  have "safe tab ctx g1 (BdxGetHttpPacket E apis sock req res g)"
    unfolding BdxGetHttpPacket_def rd Let_def prod.case
    by (rule safe_rules phase_body.safe_operation [OF assms(1)] | simp)+
  with k show ?thesis by (auto simp: safe_def intro: keeps_trans)
qed

lemma sent_keeps:
  assumes "env_ok E tab ctx" "m_pclSock g = Some sock" "on_socket (TcpWrite (e_sys E) packet) sock g = (sent, g')"
  shows "keeps tab ctx g g'"
  using on_socket_keeps [OF assms(1,3,2)] TcpWrite_fds [where buf = packet and st = "(g_world g, sock)"]
    env_ok_table(1) [OF assms(1)] by (metis fst_conv snd_conv)

lemma count_answer_safe: "env_ok E tab ctx \<Longrightarrow> safe_state tab ctx g (count_answer E res g)"
  unfolding count_answer_def by (rule safe_rules safe_redis_calls | assumption | simp)+

lemma answer_safe:
  assumes "env_ok E tab ctx" "m_pclSock g = Some sock"
  shows "safe tab ctx g (BdxSendRespones E res sock g)" "safe tab ctx g (BdxSendEmpyRespones E msg sock g)"
proof -
  let ?p = "if m_httpType g \<noteq> 0 then response_head (e_now E (g_world g)) (mResValue res) @ mResValue res else cstr (mResValue res)"
  obtain sent g1 where w: "on_socket (TcpWrite (e_sys E) (cstr ?p)) sock g = (sent, g1)" by (metis surj_pair)
  note k = sent_keeps [OF assms w]
  have "safe tab ctx g1 (BdxSendRespones E res sock g)"
    unfolding BdxSendRespones_def Let_def w prod.case
  proof (intro safe_cases safe_ends)
    show "safe tab ctx g1 (count_answer E res g1 \<bind> (\<lambda>g. Some (SUCCESS, g)))"
      by (rule safe_rules count_answer_safe [OF assms(1)] | simp)+
    show "safe tab ctx g1 (count_answer E res
        (bump (\<lambda>u. u\<lparr>m_ullTotalEmptyResNum := m_ullTotalEmptyResNum u + 1\<rparr>) (ssUserName res)
          (bump one_more_empty (ssUserName res) g1)) \<bind> (\<lambda>g. Some (LINKERROR, g)))" (is "safe tab ctx g1 (count_answer E res ?g \<bind> ?k)")
    proof -
      have "safe tab ctx ?g (count_answer E res ?g \<bind> ?k)" by (rule safe_rules count_answer_safe [OF assms(1)] | simp)+
      then show ?thesis by (simp add: safe_def)
    qed
  qed
  with k show "safe tab ctx g (BdxSendRespones E res sock g)" by (auto simp: safe_def intro: keeps_trans)
  show "safe tab ctx g (BdxSendEmpyRespones E msg sock g)"
    using sent_keeps [OF assms]
    by (auto simp: BdxSendEmpyRespones_def Let_def safe_def split: prod.splits if_splits)
qed

interpretation task_run: task_operation "\<lambda>E. BdxRunTask E apis req res" for apis req res
proof (rule task_operationI)
  fix E :: "('w, 'j) env" and tab ctx g
  assume env: "env_ok E tab ctx"
  show "safe tab ctx g (BdxRunTask E apis req res g)"
  proof (cases "m_pclSock g")
    case None
    then show ?thesis by (simp add: BdxRunTask_def safe_ends)
  next
    case (Some sock)
    show ?thesis
      unfolding safe_def
    proof (intro allI impI)
      fix r g' assume "BdxRunTask E apis req res g = Some (r, g')"
      then obtain code q s msg g1 where p: "BdxGetHttpPacket E apis sock req res g = Some ((code, q, s, msg), g1)"
        and a: "(if code = SUCCESS then BdxSendRespones E s (the (m_pclSock g1)) g1
          else BdxSendEmpyRespones E msg (the (m_pclSock g1)) g1) = Some (r, g')"
        by (auto simp: BdxRunTask_def Some split: Option.bind_split_asm)
      have 1: "keeps tab ctx g g1" using packet_safe [OF env Some] p by (simp add: safe_def)
      then have "m_pclSock g1 = Some sock" using Some by (simp add: keeps_def)
      with a answer_safe [OF env this] have "keeps tab ctx g1 g'" by (auto simp: safe_def split: if_splits)
      with 1 show "keeps tab ctx g g'" by (rule keeps_trans)
    qed
  qed
qed

text \<open>
  The runs of a working thread: \<open>BdxRunTask\<close> on the task's socket, from any state of the rest of the
  gateway (the table of APIs, the thread's Redis connections, its counters and records).
\<close>

definition task_runs :: "('w, 'j) env \<Rightarrow> 'w runs" where
  "task_runs E sock w r sock' w' \<longleftrightarrow>
     (\<exists>apis req res g g'. BdxRunTask E apis req res g = Some (r, g') \<and> g_world g = w \<and> m_pclSock g = Some sock \<and>
        g_world g' = w' \<and> m_pclSock g' = Some sock')"

lemma task_runs_ok:
  assumes "tracks_fds (e_sys E) tab" "leaves (e_redis E) tab"
  shows "runs_ok (task_runs E) tab"
  unfolding runs_ok_def
proof (intro allI impI)
  fix sock w r sock' w'
  assume "task_runs E sock w r sock' w'"
  then obtain apis req res g g' where run: "BdxRunTask E apis req res g = Some (r, g')"
    and g: "g_world g = w" "m_pclSock g = Some sock" "g_world g' = w'" "m_pclSock g' = Some sock'"
    unfolding task_runs_def by blast
  have "env_ok E tab None" using assms by (simp add: env_ok_def)
  from task_run.keeps_table [OF this run] g
  show "m_iSockfd sock' = m_iSockfd sock \<and> m_bConnect sock' = m_bConnect sock \<and> grows (tab w) (tab w')"
    by (auto simp: keeps_def)
qed

section \<open>The Redis connections of a thread\<close>

text \<open>
  The requests that a working thread runs one after the other, each with a new \<open>CTaskMain\<close> on the socket of its
  task. The table of APIs and the texts of a request are whatever they are by then.
\<close>

fun run_requests :: "('w, 'j) env \<Rightarrow> (BDXAPIGATEWAYCONFIF_S smap \<times> CTcpSocket \<times> BDXREQUEST_S \<times> BDXRESPONSE_S) list \<Rightarrow> 'w gateway \<Rightarrow>
    'w gateway option" where
  "run_requests E [] g = Some g"
| "run_requests E ((apis, sock, req, res) # ts) g =
     do { (_, g) \<leftarrow> BdxRunTask E apis req res (new_CTaskMain sock g); run_requests E ts g }"

lemma new_task_fits [simp]: "fits ctx others (new_CTaskMain sock g) = fits ctx others g"
  by (cases ctx) (simp_all add: fits_def new_CTaskMain_def)

lemma run_requests_fit:
  "env_ok E tab ctx \<Longrightarrow> fits ctx others g \<Longrightarrow> run_requests E ts g = Some g' \<Longrightarrow> fits ctx others g'"
proof (induction ts arbitrary: g)
  case (Cons t ts)
  obtain apis sock req res where t: "t = (apis, sock, req, res)" by (cases t)
  obtain r g1 where g1: "BdxRunTask E apis req res (new_CTaskMain sock g) = Some (r, g1)" "run_requests E ts g1 = Some g'"
    using Cons.prems(3) by (auto simp: t split: Option.bind_split_asm)
  have "fits ctx others g1" using task_run.keeps_table [OF Cons.prems(1) g1(1)] Cons.prems(2) by (auto simp: keeps_def)
  from Cons.IH [OF Cons.prems(1) this g1(2)] show ?case .
qed simp

lemma AdWorkInit_fits:
  assumes "tracks_contexts h live" "length (m_ucIn md5) = 64" "AdWorkInit h md5 srv w p = Some (wk, w', p')"
  shows "adapter_ok live (live w) (w', w_pDataRedis wk)"
  using assms(3) Adapter_Init_ok [OF assms(1) refl assms(2)] by (auto simp: AdWorkInit_def split: Option.bind_split_asm)

text \<open>
  C5. From the start of a working thread on, over any sequence of requests and however each of them ends, the open
  hiredis contexts are those of the rest of the process and those the thread's cluster holds, pairwise distinct:
  none is lost, freed twice, or shared. Deleting the cluster frees exactly its own.
\<close>

theorem requests_keep_contexts:
  assumes "tracks_fds (e_sys E) tab" "leaves (e_redis E) tab" "keeps_view (e_sys E) live" "tracks_contexts (e_redis E) live"
    and "AdWorkInit (e_redis E) md5 srv w p = Some (wk, g_world g, p')" "m_pDataRedis g = w_pDataRedis wk" "length (m_ucIn md5) = 64"
    and "run_requests E ts g = Some g'"
  shows "live (g_world g') = live w \<union> set (contexts (data (m_pDataRedis g'))) \<and>
    distinct (contexts (data (m_pDataRedis g'))) \<and> set (contexts (data (m_pDataRedis g'))) \<inter> live w = {} \<and>
    live (delete_CDataAdapter (e_redis E) (g_world g', m_pDataRedis g')) = live w"
proof -
  have "env_ok E tab (Some live)" using assms(1-4) by (simp add: env_ok_def)
  moreover have "fits (Some live) (live w) g" using AdWorkInit_fits [OF assms(4,7,5)] assms(6) by (simp add: fits_def)
  ultimately have "fits (Some live) (live w) g'" using assms(8) by (rule run_requests_fit)
  then have c: "cluster_owns live (live w) (g_world g', data (m_pDataRedis g'))" by (simp add: fits_def adapter_ok_def)
  with delete_servers_live [OF assms(4) c] show ?thesis by (simp add: cluster_owns_def delete_CDataAdapter_def)
qed

section \<open>The gateway\<close>

text \<open>
  The composition: with \<open>BdxRunTask\<close> as the run of a task, in every interleaving of the server thread
  and the working threads, each known connection is open and at exactly one place, the server thread has a
  next step, and every step of any thread is a step in the life of one connection. Nothing is assumed of
  the runs: only the kernel's descriptor table, and that hiredis keeps to its own descriptors.
\<close>

lemma gateway_scheduling:
  assumes "kernel_ok (e_sys E) K tab" "startup_ok (e_sys E) K tab" "leaves (e_redis E) tab"
    "sched_init (e_sys E) K srv n w = Some a" "reachable (e_sys E) K name (task_runs E) a (s, pc, ws)"
  shows "(\<forall>fd \<in> dom (m_mpSocketTask s). fd \<in> opened tab (s_world s) \<and>
       count (mset (map (fd_of s) (held (s, pc, ws)) @ reported s)) fd + (if fd \<in> polled tab (s_world s) then 1 else 0) = 1) \<and>
    (\<exists>s' pc'. server_step (e_sys E) K name (s, pc) (s', pc')) \<and>
    (\<forall>s' pc' ws'. sched_step (e_sys E) K name (task_runs E) (s, pc, ws) (s', pc', ws') \<longrightarrow>
       phases (polled tab) s' = phases (polled tab) s \<or> life_step (phases (polled tab) s) (phases (polled tab) s'))"
proof (intro conjI)
  have runs: "runs_ok (task_runs E) tab"
    by (rule task_runs_ok [OF kernel_calls(1) [OF assms(1)] assms(3)])
  note own = reachable_inv [OF assms(5,1,2) runs assms(4), THEN conjunct1]
  show "\<forall>fd \<in> dom (m_mpSocketTask s). fd \<in> opened tab (s_world s) \<and>
       count (mset (map (fd_of s) (held (s, pc, ws)) @ reported s)) fd + (if fd \<in> polled tab (s_world s) then 1 else 0) = 1"
    using owned_places [OF own] by blast
  show "\<exists>s' pc'. server_step (e_sys E) K name (s, pc) (s', pc')" by (rule server_step_enabled [OF assms(1) own])
  show "\<forall>s' pc' ws'. sched_step (e_sys E) K name (task_runs E) (s, pc, ws) (s', pc', ws') \<longrightarrow>
       phases (polled tab) s' = phases (polled tab) s \<or> life_step (phases (polled tab) s) (phases (polled tab) s')"
    using sched_step_moves [OF assms(1) runs _ own] by metis
qed

text \<open>The small kernel of \<open>Scheduler\<close> with a Redis that is down: a client that closes is answered with an error.\<close>

definition k_env :: "(kworld, string) env" where
  "k_env =
     \<lparr>e_sys = k_sys,
      e_redis = \<lparr>redisConnectWithTimeout = (\<lambda>w host port t. (None, w)), redisFree = (\<lambda>w c. w),
                 redisCommand = (\<lambda>w c fmt args. (None, w)), getenv = (\<lambda>w name. None)\<rparr>,
      e_getenv = (\<lambda>name. None), e_now = (\<lambda>w. sample_tm), e_json = sample_json\<rparr>"

lemma k_leaves: "leaves (e_redis k_env) f"
  by (simp add: leaves_def k_env_def)

lemma k_env_sys [simp]: "e_sys k_env = k_sys"
  by (simp add: k_env_def)

lemma k_writes: "buf \<noteq> [] \<Longrightarrow> TcpWrite k_sys buf (w, s) = (True, w, s)"
  by (simp add: TcpWrite_def k_sys_def write_loop.simps)

lemma k_run: "task_runs k_env (new_accepted 4 300000) w SUCCESS (new_accepted 4 300000) w"
proof -
  let ?g = "\<lparr>g_world = w, InitSSLFlag = 0, m_sRegion = [],
      m_pDataRedis = \<lparr>serv_count = 1, data = [new_CDataRedis], m_clMd5 = sample_md5\<rparr>,
      m_vecReport = [], m_vecHiveLog = [], g_strDataHubToken = [], m_httpType = 0, m_pclSock = Some (new_accepted 4 300000)\<rparr>"
  let ?msg = "''1101 Read Socket Error''"
  have rd: "TcpRead k_sys 8192 (w, new_accepted 4 300000) = ((0, []), w, new_accepted 4 300000)"
    by (simp add: TcpRead_def read_timed_def k_sys_def new_accepted_def)
  have len: "length (response_head sample_tm ?msg @ ?msg) < 8192 \<and> response_head sample_tm ?msg @ ?msg \<noteq> []" by code_simp
  have "BdxRunTask k_env [] \<lparr>m_strRequestParam = []\<rparr> zero_response ?g = Some (SUCCESS, ?g)"
    using len k_writes
    by (simp add: BdxRunTask_def BdxGetHttpPacket_def on_socket_def rd BdxSendEmpyRespones_def Let_def) 
       (simp add: k_env_def)
  then show ?thesis unfolding task_runs_def by fastforce
qed

text \<open>The same with a Redis that gives one connection at a time; its context is recorded in the world, at -10.\<close>

definition k_live :: "kworld \<Rightarrow> nat set" where
  "k_live w = {c. - 10 - int c \<in> k_reg w}"

definition slot_redis :: "kworld hiredis" where
  "slot_redis =
     \<lparr>redisConnectWithTimeout = (\<lambda>w host port t.
        if k_live w = {} then (Some (0, False), w\<lparr>k_reg := insert (- 10) (k_reg w)\<rparr>) else (None, w)),
      redisFree = (\<lambda>w c. w\<lparr>k_reg := k_reg w - {- 10 - int c}\<rparr>), redisCommand = (\<lambda>w c fmt args. (Some ok_reply, w)),
      getenv = (\<lambda>w name. None)\<rparr>"

definition slot_env :: "(kworld, string) env" where
  "slot_env = k_env\<lparr>e_redis := slot_redis\<rparr>"

lemma slot_ok:
  "tracks_fds (e_sys slot_env) k_tab" "leaves (e_redis slot_env) k_tab" "keeps_view (e_sys slot_env) k_live"
  "tracks_contexts (e_redis slot_env) k_live"
proof -
  show "tracks_fds (e_sys slot_env) k_tab" using k_tracks by (simp add: slot_env_def)
  show "leaves (e_redis slot_env) k_tab" by (auto simp: slot_env_def slot_redis_def leaves_def k_tab_def fun_eq_iff)
  show "keeps_view (e_sys slot_env) k_live"
    by (auto simp: slot_env_def keeps_view_def k_sys_def k_open_def k_live_def)
  show "tracks_contexts (e_redis slot_env) k_live"
    by (auto simp: slot_env_def slot_redis_def tracks_contexts_def k_live_def dest: spec [of _ 0])
qed

lemma closed_client_run:
  assumes "e_sys E = k_sys" "\<And>w. e_now E w = sample_tm" "m_httpType g = 0" "m_pclSock g = Some (new_accepted 4 300000)"
  shows "BdxRunTask E [] req res g = Some (SUCCESS, g)"
proof -
  let ?msg = "''1101 Read Socket Error''"
  have rd: "TcpRead k_sys 8192 (w, new_accepted 4 300000) = ((0, []), w, new_accepted 4 300000)" for w
    by (simp add: TcpRead_def read_timed_def k_sys_def new_accepted_def)
  have len: "length (response_head sample_tm ?msg @ ?msg) < 8192 \<and> response_head sample_tm ?msg @ ?msg \<noteq> []" by code_simp
  show ?thesis
    using len k_writes assms
    by (simp add: BdxRunTask_def BdxGetHttpPacket_def on_socket_def rd BdxSendEmpyRespones_def Let_def)
qed

definition slot_server :: IPPORT_S where
  "slot_server = \<lparr>m_pchIp = ''10.0.0.1'', m_uiPort = 6379, m_idx = 0, m_count = 1\<rparr>"

lemma slot_server_text: "serv_list_text slot_server = Some sample_list"
  by (simp add: serv_list_text_def slot_server_def sample_list_def print_serv_list_def print_entry_def sprintf_into_def
      show_nat.simps show_int_def cstr_def NUL_def)

definition slot_pool :: pool where
  "slot_pool = \<lparr>m_uiCount = 0, p_vecTaskBuf = [], p_vecTaskStauts = [], p_vecReport = [], p_vecHiveLog = []\<rparr>"

lemma sample_list_starts: "\<exists>b w' a. Adapter_Init h sample_list (w, new_CDataAdapter md5) = Some (b, w', a)"
proof -
  obtain ok w' ds where "init_servers h 0 [(''10.0.0.1'', 6379, 0)]
      (w, replicate (length [(''10.0.0.1'', 6379 :: u16, 0 :: u16)]) new_CDataRedis) = (ok, w', ds)"
    by (metis prod.exhaust)
  then show ?thesis using sample_list_parses by (simp add: Adapter_Init_def del: init_servers.simps)
qed

lemma slot_worker_starts: "\<exists>wk w' p'. AdWorkInit h md5 slot_server w p = Some (wk, w', p')"
proof -
  obtain b w' a where "Adapter_Init h sample_list (w, new_CDataAdapter md5) = Some (b, w', a)"
    using sample_list_starts [of h w md5] by blast
  with slot_server_text show ?thesis by (cases b) (simp_all add: AdWorkInit_def)
qed

definition closed_requests :: "(BDXAPIGATEWAYCONFIF_S smap \<times> CTcpSocket \<times> BDXREQUEST_S \<times> BDXRESPONSE_S) list" where
  "closed_requests = [([], new_accepted 4 300000, \<lparr>m_strRequestParam = []\<rparr>, zero_response)]"

lemma closed_requests_run:
  assumes "m_httpType g = 0"
  shows "run_requests slot_env closed_requests g = Some (new_CTaskMain (new_accepted 4 300000) g)"
proof -
  define g' where "g' = new_CTaskMain (new_accepted 4 300000) g"
  have "m_httpType g' = 0" "m_pclSock g' = Some (new_accepted 4 300000)" by (simp_all add: g'_def new_CTaskMain_def assms)
  from closed_client_run [OF _ _ this, of slot_env] show ?thesis
    by (simp add: closed_requests_def slot_env_def k_env_def flip: g'_def)
qed

theorem requests_keep_contexts_witness:
  "\<exists>wk w p g g'. AdWorkInit slot_redis sample_md5 slot_server \<lparr>k_fds = {4}, k_reg = {4}\<rparr> slot_pool = Some (wk, w, p) \<and>
     run_requests slot_env closed_requests g = Some g' \<and> g_world g = w \<and>
     m_pDataRedis g = w_pDataRedis wk \<and> k_live (delete_CDataAdapter slot_redis (g_world g', m_pDataRedis g')) = {}"
proof -
  define w0 :: kworld where "w0 = \<lparr>k_fds = {4}, k_reg = {4}\<rparr>"
  obtain wk w p where init: "AdWorkInit slot_redis sample_md5 slot_server w0 slot_pool = Some (wk, w, p)"
    using slot_worker_starts [of slot_redis sample_md5 w0 slot_pool] by blast
  obtain g :: "kworld gateway" where g: "g_world g = w" "m_pDataRedis g = w_pDataRedis wk" "m_httpType g = 0"
    using gateway.select_convs by metis
  note run = closed_requests_run [OF g(3)]
  have r: "e_redis slot_env = slot_redis" by (simp add: slot_env_def)
  have n: "length (m_ucIn sample_md5) = 64" by (simp add: sample_md5_def)
  have i: "AdWorkInit (e_redis slot_env) sample_md5 slot_server w0 slot_pool = Some (wk, g_world g, p)"
    using init by (simp add: r g(1))
  have "k_live w0 = {}" by (simp add: k_live_def w0_def)
  with requests_keep_contexts [OF slot_ok i g(2) n run] init run g show ?thesis
    unfolding r w0_def by metis
qed

text \<open>The thread takes the task of the client, runs it and reports the descriptor.\<close>

definition k_reported :: "kworld server" where
  "k_reported = (k_server {3, 4} {3} True [])\<lparr>m_vecTaskStauts := [[\<lparr>m_iSockFd = 4, m_bStatus = True\<rparr>]]\<rparr>"

lemma k_served: "reachable k_sys k_epoll ''query'' (task_runs k_env) k_start (k_reported, EVENTS [], [AT_LOCK])"
proof -
  let ?locked = "\<lambda>q. set_lock (the (MutexLock new_CMutexLock)) 0 (k_server {3, 4} {3} True q)"
  have 1: "worker_step (task_runs k_env) 0 (k_server {3, 4} {3} True [0], [AT_LOCK] ! 0) (?locked [0], IN_LOCK)"
    by (simp, rule worker_step.locking)
       (simp add: worker_lock_def k_server_def MutexLock_def new_CMutexLock_def)
  have 2: "worker_step (task_runs k_env) 0 (?locked [0], [IN_LOCK] ! 0) (?locked [], RUNNING 0)"
    by (simp, rule worker_step.taking) (simp add: worker_take_def k_server_def set_lock_def)
  have 3: "worker_step (task_runs k_env) 0 (?locked [], [RUNNING 0] ! 0) (k_reported, AT_LOCK)"
    unfolding nth_Cons_0
  proof (rule worker_step.reporting)
    show "s_heap (?locked []) 0 = Some (new_accepted 4 300000)" by (simp add: k_server_def set_lock_def)
    show "task_runs k_env (new_accepted 4 300000) (s_world (?locked [])) SUCCESS (new_accepted 4 300000) (s_world (?locked []))"
      by (rule k_run)
    show "worker_report 0 0 SUCCESS (new_accepted 4 300000) (s_world (?locked [])) (?locked []) = Some k_reported"
      by (simp add: worker_report_def k_server_def set_lock_def k_reported_def TcpGetSockfd_def new_accepted_def
          MutexLock_def MutexUnlock_def MutexNotify_def new_CMutexLock_def)
  qed
  have later: "reachable k_sys k_epoll ''query'' (task_runs k_env) k_start (s, EVENTS [], [p]) \<Longrightarrow>
      worker_step (task_runs k_env) 0 (s, [p] ! 0) (s', p') \<Longrightarrow>
      reachable k_sys k_epoll ''query'' (task_runs k_env) k_start (s', EVENTS [], [p'])" for s s' p p'
    using reachable.later [OF _ sched_step.by_worker [of 0 "[p]"]] by fastforce
  show ?thesis by (rule later [OF later [OF later [OF k_queued 1] 2] 3])
qed

end
