(* ===== verification/UdpSocket.thy ===== *)
theory UdpSocket
  imports TcpSocket
begin

text \<open>
  \<open>src/CommonTools/Socket/UdpSocket.cpp\<close>: the class \<open>CUdpSocket\<close>, a datagram socket with a peer address and two
  counters. The kernel calls that it shares with \<open>CTcpSocket\<close> are those of \<open>sys\<close>; the calls for datagrams are a
  second parameter. An address is the text given to \<open>inet_addr\<close>, \<open>None\<close> for \<open>INADDR_ANY\<close>. What the constructor
  leaves unset is \<open>None\<close>, and reading it has no result.
\<close>

record sockaddr_in =
  sin_addr :: "string option"
  sin_port :: u16

record 'w udp_sys =
  udp_socket :: "'w \<Rightarrow> int \<times> 'w"
  udp_recvfrom :: "int \<Rightarrow> nat \<Rightarrow> 'w \<Rightarrow> received \<times> 'w"
  udp_sendto :: "int \<Rightarrow> string \<Rightarrow> sockaddr_in \<Rightarrow> 'w \<Rightarrow> int \<times> 'w"

section \<open>The object\<close>

record CUdpSocket =
  u_iSockfd :: int
  u_uiTimeout :: u32
  m_iWeight :: "int option"
  m_iIndexDevice :: "int option"
  m_stSockaddr :: "sockaddr_in option"

type_synonym 'w udpstate = "'w \<times> CUdpSocket"

text \<open>\<open>None\<close> is the exception \<open>runtime_error\<close>.\<close>

definition new_CUdpSocket :: "'w udp_sys \<Rightarrow> u32 \<Rightarrow> 'w \<Rightarrow> 'w udpstate option" where
  "new_CUdpSocket U uiTimeout w =
     (let (fd, w) = udp_socket U w
      in if fd < 0 then None
         else Some (w, \<lparr>u_iSockfd = fd, u_uiTimeout = uiTimeout, m_iWeight = None, m_iIndexDevice = None, m_stSockaddr = None\<rparr>))"

text \<open>A descriptor is closed when it is greater than 0.\<close>

definition delete_CUdpSocket :: "'w sys \<Rightarrow> 'w udpstate \<Rightarrow> 'w" where
  "delete_CUdpSocket S = (\<lambda>(w, u). if 0 < u_iSockfd u then sys_close S (u_iSockfd u) w else w)"

definition UdpSetTimeout :: "u32 \<Rightarrow> CUdpSocket \<Rightarrow> CUdpSocket" where
  "UdpSetTimeout uiTimeout u = u\<lparr>u_uiTimeout := uiTimeout\<rparr>"

definition UdpSetTimeOut :: "u32 \<Rightarrow> CUdpSocket \<Rightarrow> CUdpSocket" where
  "UdpSetTimeOut ui_Timeout u = u\<lparr>u_uiTimeout := ui_Timeout\<rparr>"

definition UdpSetAddr :: "sockaddr_in \<Rightarrow> CUdpSocket \<Rightarrow> CUdpSocket" where
  "UdpSetAddr pAddr u = u\<lparr>m_stSockaddr := Some pAddr\<rparr>"

definition UdpInitClient :: "string \<Rightarrow> u16 \<Rightarrow> CUdpSocket \<Rightarrow> bool \<times> CUdpSocket" where
  "UdpInitClient strIp in_portPort u =
     (if strIp = [] then (False, u)
      else (True, u\<lparr>m_stSockaddr := Some \<lparr>sin_addr = Some (cstr strIp), sin_port = in_portPort\<rparr>\<rparr>))"

definition UdpInitServer :: "'w sys \<Rightarrow> u16 \<Rightarrow> string \<Rightarrow> 'w udpstate \<Rightarrow> bool \<times> 'w udpstate" where
  "UdpInitServer S in_portPort strIp = (\<lambda>(w, u).
     let addr = (if strIp \<noteq> [] then Some (cstr strIp) else None);
         (r, w) = sys_bind S (u_iSockfd u) addr in_portPort w
     in (r \<noteq> -1, w, u\<lparr>m_stSockaddr := Some \<lparr>sin_addr = addr, sin_port = in_portPort\<rparr>\<rparr>))"

definition UdpClose :: "'w sys \<Rightarrow> 'w udpstate \<Rightarrow> 'w udpstate" where
  "UdpClose S = (\<lambda>(w, u). if 0 < u_iSockfd u then (sys_close S (u_iSockfd u) w, u\<lparr>u_iSockfd := -1\<rparr>) else (w, u))"

definition UdpNewSocket :: "'w sys \<Rightarrow> 'w udp_sys \<Rightarrow> 'w udpstate \<Rightarrow> bool \<times> 'w udpstate" where
  "UdpNewSocket S U st =
     (let (w, u) = UdpClose S st; (fd, w) = udp_socket U w in (0 \<le> fd, w, u\<lparr>u_iSockfd := fd\<rparr>))"

definition UdpBindNewSocket :: "'w sys \<Rightarrow> 'w udp_sys \<Rightarrow> 'w udpstate \<Rightarrow> bool \<times> 'w udpstate" where
  "UdpBindNewSocket S U st = (let (ok, st) = UdpNewSocket S U st in if \<not> ok then (False, st) else (True, st))"

definition UdpGetSockfd :: "CUdpSocket \<Rightarrow> int" where
  "UdpGetSockfd u = u_iSockfd u"

definition UdpGetTimeout :: "CUdpSocket \<Rightarrow> u32" where
  "UdpGetTimeout u = u_uiTimeout u"

section \<open>Reading and writing\<close>

text \<open>The timeout in milliseconds is multiplied as an unsigned number and stored as microseconds.\<close>

definition UdpRead :: "'w sys \<Rightarrow> 'w udp_sys \<Rightarrow> nat \<Rightarrow> 'w udpstate \<Rightarrow> (int \<times> string) \<times> 'w udpstate" where
  "UdpRead S U sizeRecvLen = (\<lambda>(w, u).
     if sizeRecvLen = 0 \<or> u_iSockfd u = -1 then ((-1, []), w, u)
     else let (r, w) = sys_setsockopt S (u_iSockfd u) (SO_RCVTIMEO 0 (unat (u_uiTimeout u * 1000))) w
          in if r = -1 then ((-1, []), w, u)
             else let (res, w) = udp_recvfrom U (u_iSockfd u) sizeRecvLen w
                  in case res of
                       Received bs \<Rightarrow> ((int (length bs), bs), w, u)
                     | Again \<Rightarrow> ((-2, []), w, u)
                     | Broken \<Rightarrow> ((-1, []), w, u))"

lemma UdpRead_length: "UdpRead S U n st = ((r, bs), st') \<Longrightarrow> 0 \<le> r \<Longrightarrow> r = int (length bs)"
  by (cases st) (auto simp: UdpRead_def split: prod.splits if_splits received.splits)

function udp_read_loop :: "'w sys \<Rightarrow> 'w udp_sys \<Rightarrow> nat \<Rightarrow> string \<Rightarrow> 'w udpstate \<Rightarrow> (int \<times> string) \<times> 'w udpstate" where
  "udp_read_loop S U sizeRecvLen buf st =
     (let ((ilength, bs), st) = UdpRead S U (sizeRecvLen - length buf) st
      in if ilength > 0 then
           (let buf = buf @ bs
            in if length buf \<ge> sizeRecvLen then ((int (length buf), buf), st)
               else udp_read_loop S U sizeRecvLen buf st)
         else if ilength < 0 then ((ilength, buf), st)
         else ((int (length buf), buf), st))"
  by pat_completeness auto
termination
  by (relation "measure (\<lambda>(S, U, n, buf, st). n - length buf)") (auto, drule UdpRead_length [OF sym], auto simp flip: length_greater_0_conv)

declare udp_read_loop.simps [simp del]

definition UdpReadAll :: "'w sys \<Rightarrow> 'w udp_sys \<Rightarrow> nat \<Rightarrow> 'w udpstate \<Rightarrow> (int \<times> string) \<times> 'w udpstate" where
  "UdpReadAll S U sizeRecvLen st =
     (if sizeRecvLen = 0 then ((-1, []), st) else udp_read_loop S U sizeRecvLen [] st)"

text \<open>A message to the peer; \<open>None\<close> when no address has been set.\<close>

definition UdpWrite :: "'w udp_sys \<Rightarrow> string \<Rightarrow> 'w udpstate \<Rightarrow> (bool \<times> 'w udpstate) option" where
  "UdpWrite U buf = (\<lambda>(w, u).
     if buf = [] then Some (False, w, u)
     else case m_stSockaddr u of
       None \<Rightarrow> None
     | Some addr \<Rightarrow> let (r, w) = udp_sendto U (u_iSockfd u) buf addr w in Some (r \<noteq> -1, w, u))"

section \<open>The counters\<close>

definition UdpInitWeight :: "CUdpSocket \<Rightarrow> CUdpSocket" where
  "UdpInitWeight u = u\<lparr>m_iWeight := Some 1\<rparr>"

definition UdpInitIndexDevice :: "CUdpSocket \<Rightarrow> CUdpSocket" where
  "UdpInitIndexDevice u = u\<lparr>m_iIndexDevice := Some 0\<rparr>"

text \<open>The increment of the largest \<open>int\<close> has no result.\<close>

definition incr_int :: "int option \<Rightarrow> int option" where
  "incr_int x = (case x of None \<Rightarrow> None | Some i \<Rightarrow> if i < 2 ^ 31 - 1 then Some (i + 1) else None)"

definition UdpAddWeight :: "CUdpSocket \<Rightarrow> CUdpSocket option" where
  "UdpAddWeight u = map_option (\<lambda>i. u\<lparr>m_iWeight := Some i\<rparr>) (incr_int (m_iWeight u))"

definition UdpAddIndexDevice :: "CUdpSocket \<Rightarrow> CUdpSocket option" where
  "UdpAddIndexDevice u = map_option (\<lambda>i. u\<lparr>m_iIndexDevice := Some i\<rparr>) (incr_int (m_iIndexDevice u))"

definition UdpGetWeight :: "CUdpSocket \<Rightarrow> int option" where
  "UdpGetWeight u = m_iWeight u"

definition UdpGetIndexDevice :: "CUdpSocket \<Rightarrow> int option" where
  "UdpGetIndexDevice u = m_iIndexDevice u"

section \<open>The descriptor of the object\<close>

text \<open>
  The descriptor table, as in \<open>TcpSocket\<close>. The object takes descriptor 0 for none, so its contract holds for a
  process whose standard input is open.
\<close>

definition tracks_udp :: "'w sys \<Rightarrow> 'w udp_sys \<Rightarrow> ('w \<Rightarrow> int \<rightharpoonup> bool) \<Rightarrow> bool" where
  "tracks_udp S U tab \<longleftrightarrow>
     tracks_fds S tab \<and> (\<forall>w fd. fd < 0 \<longrightarrow> tab w fd = None) \<and>
     (\<forall>w fd w'. udp_socket U w = (fd, w') \<longrightarrow>
        (if fd < 0 then tab w' = tab w else tab w fd = None \<and> tab w' = (tab w)(fd \<mapsto> False))) \<and>
     (\<forall>fd n w. tab (snd (udp_recvfrom U fd n w)) = tab w) \<and>
     (\<forall>fd b a w. tab (snd (udp_sendto U fd b a w)) = tab w) \<and>
     (\<forall>fd a p w. tab (snd (sys_bind S fd a p w)) = tab w)"

definition owns_udp :: "('w \<Rightarrow> int \<rightharpoonup> bool) \<Rightarrow> (int \<rightharpoonup> bool) \<Rightarrow> 'w udpstate \<Rightarrow> bool" where
  "owns_udp tab others st \<longleftrightarrow>
     (case st of (w, u) \<Rightarrow>
        others 0 \<noteq> None \<and> others (u_iSockfd u) = None \<and>
        tab w = (if u_iSockfd u < 0 then others else others(u_iSockfd u \<mapsto> False)))"

lemma owns_udp_positive: "owns_udp tab others (w, u) \<Longrightarrow> u_iSockfd u \<noteq> 0"
  by (auto simp: owns_udp_def)

lemma tracks_udp_calls:
  assumes "tracks_udp S U tab"
  shows "tracks_fds S tab"
    and "\<And>w fd w'. udp_socket U w = (fd, w') \<Longrightarrow>
      (if fd < 0 then tab w' = tab w else tab w fd = None \<and> tab w' = (tab w)(fd \<mapsto> False))"
    and "\<And>fd n w r w'. udp_recvfrom U fd n w = (r, w') \<Longrightarrow> tab w' = tab w"
    and "\<And>fd b a w r w'. udp_sendto U fd b a w = (r, w') \<Longrightarrow> tab w' = tab w"
    and "\<And>fd a p w r w'. sys_bind S fd a p w = (r, w') \<Longrightarrow> tab w' = tab w"
    and "\<And>w fd. fd < 0 \<Longrightarrow> tab w fd = None"
proof -
  show "tracks_fds S tab" "\<And>w fd. fd < 0 \<Longrightarrow> tab w fd = None" using assms by (auto simp: tracks_udp_def)
  note t = assms [unfolded tracks_udp_def, THEN conjunct2]
  show "if fd < 0 then tab w' = tab w else tab w fd = None \<and> tab w' = (tab w)(fd \<mapsto> False)"
    if "udp_socket U w = (fd, w')" for w fd w' using t [THEN conjunct2, THEN conjunct1, rule_format, OF that] .
  show "tab w' = tab w" if "udp_recvfrom U fd n w = (r, w')" for fd n w r w'
    using t [THEN conjunct2, THEN conjunct2, THEN conjunct1, rule_format, of fd n w] that by simp
  show "tab w' = tab w" if "udp_sendto U fd b a w = (r, w')" for fd b a w r w'
    using t [THEN conjunct2, THEN conjunct2, THEN conjunct2, THEN conjunct1, rule_format, of fd b a w] that by simp
  show "tab w' = tab w" if "sys_bind S fd a p w = (r, w')" for fd a p w r w'
    using t [THEN conjunct2, THEN conjunct2, THEN conjunct2, THEN conjunct2, rule_format, of fd a p w] that by simp
qed

locale udp_operation =
  fixes operation :: "'w sys \<Rightarrow> 'w udp_sys \<Rightarrow> 'w udpstate \<Rightarrow> 'w udpstate option"
  assumes keeps_datagram: "tracks_udp S U tab \<Longrightarrow> owns_udp tab others st \<Longrightarrow> operation S U st = Some st' \<Longrightarrow>
    owns_udp tab others st'"
begin

lemma destructor_releases:
  assumes "tracks_udp S U tab" "owns_udp tab others st" "operation S U st = Some st'"
  shows "tab (delete_CUdpSocket S st') = others"
proof -
  obtain w u where st': "st' = (w, u)" by (cases st')
  have own: "owns_udp tab others (w, u)" using keeps_datagram [OF assms] st' by simp
  note close = tracks_fds_calls(1) [OF tracks_udp_calls(1) [OF assms(1)]]
  from own owns_udp_positive [OF own] show ?thesis
    unfolding st' by (auto simp: delete_CUdpSocket_def owns_udp_def close fun_upd_idem split: if_splits)
qed

end

lemma owns_udp_same:
  "owns_udp tab others st \<Longrightarrow> tab (fst st') = tab (fst st) \<Longrightarrow> u_iSockfd (snd st') = u_iSockfd (snd st) \<Longrightarrow> owns_udp tab others st'"
  by (cases st; cases st') (simp add: owns_udp_def)

lemma UdpRead_table:
  assumes "tracks_udp S U tab" "UdpRead S U n st = (r, st')"
  shows "tab (fst st') = tab (fst st) \<and> snd st' = snd st"
proof -
  obtain w u where st: "st = (w, u)" by (cases st)
  obtain q v where opt: "sys_setsockopt S (u_iSockfd u) (SO_RCVTIMEO 0 (unat (u_uiTimeout u * 1000))) w = (q, v)"
    by (metis surj_pair)
  obtain res x where rcv: "udp_recvfrom U (u_iSockfd u) n v = (res, x)" by (metis surj_pair)
  from tracks_fds_calls(2) [OF tracks_udp_calls(1) [OF assms(1)] opt] tracks_udp_calls(3) [OF assms(1) rcv] assms(2)
  show ?thesis by (simp add: st UdpRead_def opt rcv split: if_splits received.splits) (safe, simp_all)
qed

lemma udp_read_loop_table:
  "udp_read_loop S U n buf st = (r, st') \<Longrightarrow> tracks_udp S U tab \<Longrightarrow> tab (fst st') = tab (fst st) \<and> snd st' = snd st"
proof (induction S U n buf st rule: udp_read_loop.induct)
  case (1 S U n buf st)
  obtain ilength bs st1 where rd: "UdpRead S U (n - length buf) st = ((ilength, bs), st1)" by (metis surj_pair)
  note same = UdpRead_table [OF "1.prems"(2) rd]
  from "1.IH" [OF rd [symmetric] refl refl] "1.prems" same rd show ?case
    unfolding udp_read_loop.simps [of S U n buf st] by (auto simp: Let_def split: if_splits)
qed

interpretation udp_read: udp_operation "\<lambda>S U st. Some (snd (UdpRead S U n st))"
  by unfold_locales (metis UdpRead_table owns_udp_same option.inject prod.collapse)

interpretation udp_read_all: udp_operation "\<lambda>S U st. Some (snd (UdpReadAll S U n st))"
  by unfold_locales (metis UdpReadAll_def udp_read_loop_table owns_udp_same option.inject prod.collapse snd_conv)

lemma UdpWrite_table:
  assumes "tracks_udp S U tab" "UdpWrite U buf st = Some (r, st')"
  shows "tab (fst st') = tab (fst st) \<and> snd st' = snd st"
proof -
  obtain w u where st: "st = (w, u)" by (cases st)
  show ?thesis
    using assms(2) tracks_udp_calls(4) [OF assms(1)]
    by (fastforce simp: st UdpWrite_def split: if_splits option.splits prod.splits)
qed

interpretation udp_write: udp_operation "\<lambda>S U st. map_option snd (UdpWrite U buf st)"
  by unfold_locales (auto dest!: UdpWrite_table elim!: owns_udp_same)

interpretation udp_server: udp_operation "\<lambda>S U st. Some (snd (UdpInitServer S port ip st))"
proof
  fix S :: "'w sys" and U :: "'w udp_sys" and tab others st st'
  assume *: "tracks_udp S U tab" "owns_udp tab others st" "Some (snd (UdpInitServer S port ip st)) = Some st'"
  obtain w u where st: "st = (w, u)" by (cases st)
  obtain r v where b: "sys_bind S (u_iSockfd u) (if ip \<noteq> [] then Some (cstr ip) else None) port w = (r, v)" by (metis surj_pair)
  from *(3) have "tab (fst st') = tab (fst st)" "u_iSockfd (snd st') = u_iSockfd (snd st)"
    using tracks_udp_calls(5) [OF *(1) b] by (auto simp: st UdpInitServer_def b Let_def)
  with *(2) show "owns_udp tab others st'" by (rule owns_udp_same)
qed

lemma UdpClose_owns:
  assumes "tracks_udp S U tab" "owns_udp tab others st"
  shows "owns_udp tab others (UdpClose S st) \<and> u_iSockfd (snd (UdpClose S st)) < 0"
proof -
  obtain w u where st: "st = (w, u)" by (cases st)
  note t = tracks_udp_calls(1) [OF assms(1)]
  have "others (-1) = None"
    using assms(2) tracks_udp_calls(6) [OF assms(1), of "-1" w] by (auto simp: st owns_udp_def split: if_splits)
  with assms(2) owns_udp_positive [of tab others w u] show ?thesis
    by (auto simp: st UdpClose_def owns_udp_def tracks_fds_calls(1) [OF t] fun_upd_idem split: if_splits)
qed

interpretation udp_close: udp_operation "\<lambda>S U st. Some (UdpClose S st)"
  by unfold_locales (metis UdpClose_owns option.inject)

interpretation udp_new: udp_operation "\<lambda>S U st. Some (snd (UdpNewSocket S U st))"
proof
  fix S :: "'w sys" and U :: "'w udp_sys" and tab others st st'
  assume *: "tracks_udp S U tab" "owns_udp tab others st" "Some (snd (UdpNewSocket S U st)) = Some st'"
  obtain w u where c: "UdpClose S st = (w, u)" by (metis surj_pair)
  have own: "owns_udp tab others (w, u)" "u_iSockfd u < 0" using UdpClose_owns [OF *(1,2)] c by simp_all
  obtain fd v where f: "udp_socket U w = (fd, v)" by (metis surj_pair)
  have "others x = None" if "x < 0" for x
    using own tracks_udp_calls(6) [OF *(1) that, of w] by (simp add: owns_udp_def)
  with *(3) own tracks_udp_calls(2) [OF *(1) f] show "owns_udp tab others st'"
    by (auto simp: UdpNewSocket_def c f owns_udp_def split: if_splits)
qed

interpretation udp_bind: udp_operation "\<lambda>S U st. Some (snd (UdpBindNewSocket S U st))"
proof
  fix S :: "'w sys" and U :: "'w udp_sys" and tab others st st'
  assume *: "tracks_udp S U tab" "owns_udp tab others st" "Some (snd (UdpBindNewSocket S U st)) = Some st'"
  have "snd (UdpBindNewSocket S U st) = snd (UdpNewSocket S U st)" by (simp add: UdpBindNewSocket_def split: prod.split)
  with *(3) udp_new.keeps_datagram [OF *(1,2)] show "owns_udp tab others st'" by simp
qed

section \<open>Messages\<close>

text \<open>Datagrams arrive whole: a read takes one, and what does not fit is lost.\<close>

definition delivers :: "'w sys \<Rightarrow> 'w udp_sys \<Rightarrow> (int \<Rightarrow> 'w \<Rightarrow> string list) \<Rightarrow> bool" where
  "delivers S U inbox \<longleftrightarrow>
     (\<forall>fd opt w. fst (sys_setsockopt S fd opt w) = 0 \<and> inbox fd (snd (sys_setsockopt S fd opt w)) = inbox fd w) \<and>
     (\<forall>fd n w. case inbox fd w of
        [] \<Rightarrow> fst (udp_recvfrom U fd n w) = Again \<and> inbox fd (snd (udp_recvfrom U fd n w)) = []
      | m # ms \<Rightarrow> fst (udp_recvfrom U fd n w) = Received (take n m) \<and> inbox fd (snd (udp_recvfrom U fd n w)) = ms)"

lemma UdpRead_message:
  assumes "delivers S U inbox" "0 < n" "u_iSockfd u \<noteq> -1"
  shows "inbox (u_iSockfd u) w = [] \<Longrightarrow> \<exists>w'. UdpRead S U n (w, u) = ((-2, []), w', u) \<and> inbox (u_iSockfd u) w' = []"
    and "inbox (u_iSockfd u) w = m # ms \<Longrightarrow>
      \<exists>w'. UdpRead S U n (w, u) = ((int (length (take n m)), take n m), w', u) \<and> inbox (u_iSockfd u) w' = ms"
proof -
  let ?o = "SO_RCVTIMEO 0 (unat (u_uiTimeout u * 1000))"
  obtain q v where opt: "sys_setsockopt S (u_iSockfd u) ?o w = (q, v)" by (metis surj_pair)
  have v: "q = 0" "inbox (u_iSockfd u) v = inbox (u_iSockfd u) w"
    using assms(1) [unfolded delivers_def, THEN conjunct1, rule_format, of "u_iSockfd u" ?o w] opt by simp_all
  note rcv = assms(1) [unfolded delivers_def, THEN conjunct2, rule_format, of "u_iSockfd u" n v]
  show "\<exists>w'. UdpRead S U n (w, u) = ((-2, []), w', u) \<and> inbox (u_iSockfd u) w' = []" if "inbox (u_iSockfd u) w = []"
    using rcv v that assms(2,3) opt by (cases "udp_recvfrom U (u_iSockfd u) n v") (simp add: UdpRead_def)
  show "\<exists>w'. UdpRead S U n (w, u) = ((int (length (take n m)), take n m), w', u) \<and> inbox (u_iSockfd u) w' = ms"
    if "inbox (u_iSockfd u) w = m # ms"
    using rcv v that assms(2,3) opt by (cases "udp_recvfrom U (u_iSockfd u) n v") (simp add: UdpRead_def)
qed

text \<open>
  \<open>UdpReadAll\<close> puts messages together until the buffer is exactly full. When they end before that the call
  reports a timeout, and the length of what it has read is lost.
\<close>

lemma udp_read_loop_messages:
  assumes "delivers S U inbox" "u_iSockfd u \<noteq> -1" "[] \<notin> set ms" "ms \<noteq> [] \<or> later = []" "length buf < n"
    "inbox (u_iSockfd u) w = ms @ later"
    "length buf + length (concat ms) = n \<or> later = [] \<and> length buf + length (concat ms) < n"
  shows "\<exists>w'. udp_read_loop S U n buf (w, u) =
      ((if length buf + length (concat ms) = n then int n else -2, buf @ concat ms), w', u) \<and> inbox (u_iSockfd u) w' = later"
  using assms(3-)
proof (induction ms arbitrary: buf w)
  case Nil
  then have "inbox (u_iSockfd u) w = []" "later = []" "length buf < n" by simp_all
  with UdpRead_message(1) [OF assms(1) _ assms(2), of "n - length buf" w] show ?case
    by (subst udp_read_loop.simps) auto
next
  case (Cons m ms)
  have m: "0 < length m" "length m \<le> n - length buf" using Cons.prems by auto
  then obtain v where rd: "UdpRead S U (n - length buf) (w, u) = ((int (length m), m), v, u)"
      and v: "inbox (u_iSockfd u) v = ms @ later"
    using UdpRead_message(2) [OF assms(1) _ assms(2), of "n - length buf" w m "ms @ later"] Cons.prems by auto
  show ?case
  proof (cases "length (buf @ m) < n")
    case True
    then have "ms \<noteq> [] \<or> later = []" using Cons.prems by auto
    with Cons.IH [of "buf @ m" v] Cons.prems True v obtain w' where
      "udp_read_loop S U n (buf @ m) (v, u) = ((if length buf + length (concat (m # ms)) = n then int n else -2,
        buf @ concat (m # ms)), w', u)" "inbox (u_iSockfd u) w' = later" by (auto simp: add.assoc)
    with True m rd show ?thesis by (subst udp_read_loop.simps) auto
  next
    case False
    then have "length buf + length m = n" "concat ms = []" using Cons.prems by auto
    moreover have "ms = []" using \<open>concat ms = []\<close> Cons.prems(1) by (cases ms) auto
    ultimately show ?thesis using m rd v by (subst udp_read_loop.simps) auto
  qed
qed

theorem udp_read_all_messages:
  assumes "delivers S U inbox" "u_iSockfd u \<noteq> -1" "[] \<notin> set ms" "ms \<noteq> []" "inbox (u_iSockfd u) w = ms @ later"
    "length (concat ms) = n \<or> later = [] \<and> length (concat ms) < n"
  shows "\<exists>w'. UdpReadAll S U n (w, u) =
      ((if length (concat ms) = n then int n else -2, concat ms), w', u) \<and> inbox (u_iSockfd u) w' = later"
proof -
  have "0 < length (concat ms)" using assms(3,4) by (cases ms) auto
  then have n: "0 < n" using assms(6) by auto
  from udp_read_loop_messages [OF assms(1-3), of later "[]" n w] assms(4-6) n show ?thesis by (simp add: UdpReadAll_def)
qed

text \<open>On the small operating system of \<open>TcpSocket\<close>: one message of three bytes, read into a buffer of eight.\<close>

definition toy_udp :: "toy udp_sys" where
  "toy_udp =
     \<lparr>udp_socket = sys_socket toy_sys,
      udp_recvfrom = (\<lambda>_ n w. if toy_in w = [] then (Again, w) else (Received (take n (toy_in w)), w\<lparr>toy_in := []\<rparr>)),
      udp_sendto = (\<lambda>_ b _ w. (int (length b), w\<lparr>toy_out := toy_out w @ b\<rparr>))\<rparr>"

definition toy_inbox :: "int \<Rightarrow> toy \<Rightarrow> string list" where
  "toy_inbox fd w = (if toy_in w = [] then [] else [toy_in w])"

lemma toy_delivers: "delivers toy_sys toy_udp toy_inbox"
  by (auto simp: delivers_def toy_udp_def toy_inbox_def toy_sys_def)

lemma toy_tracks_udp: "tracks_udp toy_sys toy_udp toy_tab"
  using toy_tracks_fds by (auto simp: tracks_udp_def toy_udp_def toy_sys_def toy_tab_def fun_eq_iff)

theorem udp_read_all_messages_witness:
  "\<exists>w u st. new_CUdpSocket toy_udp 30 (toy_world ''abc'') = Some (w, u) \<and> UdpReadAll toy_sys toy_udp 8 (w, u) = ((-2, ''abc''), st)"
proof -
  obtain w u where new: "new_CUdpSocket toy_udp 30 (toy_world ''abc'') = Some (w, u)" "u_iSockfd u \<noteq> -1" "toy_in w = ''abc''"
    by (simp add: new_CUdpSocket_def toy_udp_def toy_sys_def toy_world_def)
  then have "toy_inbox (u_iSockfd u) w = [''abc''] @ []" by (simp add: toy_inbox_def)
  from udp_read_all_messages [OF toy_delivers new(2) _ _ this, of 8] new(1) show ?thesis by auto
qed

end
