(* ===== verification/Sections.thy ===== *)
theory Sections
  imports Lock Files
begin

text \<open>
  The pieces of code that several threads run under one mutex, instruction by instruction: the one-time
  initialisation of the TLS library under the global \<open>mutex\<close> (\<open>TaskMain.cpp\<close>, \<open>UserQueryUpdate.cpp\<close>) and the
  writing of a line under the mutex of the log (\<open>Log.cpp\<close>). In the other theories these are single operations,
  \<open>ssl_init_once\<close> and \<open>write_d\<close>; here it is shown that any interleaving of the threads does what these operations
  do one after another.
\<close>

section \<open>Threads and one mutex\<close>

text \<open>
  A call waits for the mutex, is inside of the section, or has unlocked the mutex. \<open>micro\<close> is one instruction
  inside, on the registers of the thread and what the mutex protects; \<open>None\<close> is the end of the section.
\<close>

datatype 'l call = BEFORE 'l | INSIDE 'l | AFTER 'l

type_synonym ('l, 's) crowd = "'s \<times> pthread_mutex_t \<times> 'l call list"

definition thread_next :: "('l \<Rightarrow> 's \<Rightarrow> ('l \<times> 's) option) \<Rightarrow> nat \<Rightarrow> ('l, 's) crowd \<Rightarrow> ('l, 's) crowd option" where
  "thread_next micro i = (\<lambda>(s, m, ts).
     (if i < length ts then
        (case ts ! i of
           BEFORE l \<Rightarrow> (case pthread_mutex_lock m of None \<Rightarrow> None | Some m \<Rightarrow> Some (s, m, ts[i := INSIDE l]))
         | INSIDE l \<Rightarrow>
             (case micro l s of
                None \<Rightarrow> Some (s, pthread_mutex_unlock m, ts[i := AFTER l])
              | Some (l, s) \<Rightarrow> Some (s, m, ts[i := INSIDE l]))
         | AFTER l \<Rightarrow> None)
      else None))"

text \<open>An interleaving: the threads in the order of their instructions.\<close>

fun interleave :: "('l \<Rightarrow> 's \<Rightarrow> ('l \<times> 's) option) \<Rightarrow> nat list \<Rightarrow> ('l, 's) crowd \<Rightarrow> ('l, 's) crowd option" where
  "interleave micro [] c = Some c"
| "interleave micro (i # is) c = (case thread_next micro i c of None \<Rightarrow> None | Some c \<Rightarrow> interleave micro is c)"

text \<open>What is to be shown equal to it: the sections as a whole, one thread after the other.\<close>

fun finish :: "('l \<Rightarrow> 's \<Rightarrow> ('l \<times> 's) option) \<Rightarrow> nat \<Rightarrow> 'l \<Rightarrow> 's \<Rightarrow> 'l \<times> 's" where
  "finish micro 0 l s = (l, s)"
| "finish micro (Suc n) l s = (case micro l s of None \<Rightarrow> (l, s) | Some (l, s) \<Rightarrow> finish micro n l s)"

fun in_turn :: "('l \<Rightarrow> 's \<Rightarrow> 'l \<times> 's) \<Rightarrow> nat list \<Rightarrow> 's \<times> 'l call list \<Rightarrow> 's \<times> 'l call list" where
  "in_turn whole [] st = st"
| "in_turn whole (i # is) (s, ts) =
     (case ts ! i of
        BEFORE l \<Rightarrow> (case whole l s of (l, s) \<Rightarrow> in_turn whole is (s, ts[i := AFTER l]))
      | _ \<Rightarrow> in_turn whole is (s, ts))"

lemma in_turn_append: "in_turn whole (is @ js) st = in_turn whole js (in_turn whole is st)"
  by (induction "is" arbitrary: st) (auto split: call.split prod.split)

lemma in_turn_length [simp]: "length (snd (in_turn whole is st)) = length (snd st)"
  by (induction "is" arbitrary: st) (auto split: call.split prod.split)

lemma in_turn_other: "i \<notin> set is \<Longrightarrow> snd (in_turn whole is (s, ts)) ! i = ts ! i"
  by (induction "is" arbitrary: s ts) (auto split: call.split prod.split)

text \<open>
  \<open>order\<close> is the order in which threads have taken the mutex. A section that a thread is inside of counts as done
  from the moment the mutex is taken.
\<close>

definition serialised :: "('l \<Rightarrow> 's \<Rightarrow> 'l \<times> 's) \<Rightarrow> 's \<times> 'l call list \<Rightarrow> nat list \<Rightarrow> ('l, 's) crowd \<Rightarrow> bool" where
  "serialised whole start order = (\<lambda>(s, m, ts).
     distinct order \<and> set order \<subseteq> {..<length ts} \<and> (\<forall>i < length ts. i \<in> set order \<longleftrightarrow> (\<forall>l. ts ! i \<noteq> BEFORE l)) \<and>
     (m = Mutex False \<and> (\<forall>i < length ts. \<forall>l. ts ! i \<noteq> INSIDE l) \<and> in_turn whole order start = (s, ts) \<or>
      m = Mutex True \<and> (\<exists>i < length ts. \<exists>l. ts ! i = INSIDE l \<and> (\<forall>j < length ts. j \<noteq> i \<longrightarrow> (\<forall>l. ts ! j \<noteq> INSIDE l)) \<and>
        in_turn whole order start = (snd (whole l s), ts[i := AFTER (fst (whole l s))]))))"

section \<open>The contract of a section\<close>

text \<open>The code of a section has no loop: every instruction leaves fewer to do.\<close>

locale guarded_section =
  fixes micro :: "'l \<Rightarrow> 's \<Rightarrow> ('l \<times> 's) option" and left :: "'l \<Rightarrow> nat"
  assumes shrinks: "micro l s = Some (l', s') \<Longrightarrow> left l' < left l"
begin

lemma finish_more: "left l \<le> n \<Longrightarrow> finish micro n l s = finish micro (left l) l s"
proof (induction n arbitrary: l s rule: less_induct)
  case (less n)
  show ?case
  proof (cases "micro l s")
    case None
    then have "finish micro k l s = (l, s)" for k by (cases k) simp_all
    then show ?thesis by simp
  next
    case (Some r)
    obtain l' s' where r: "micro l s = Some (l', s')" using Some by (cases r) simp
    then have lt: "left l' < left l" by (rule shrinks)
    then obtain n' k where n': "n = Suc n'" "left l = Suc k" "left l' \<le> n'" "left l' \<le> k" "k \<le> n'"
      using less.prems by (cases n; cases "left l") auto
    have "finish micro n' l' s' = finish micro (left l') l' s'" using less.IH [of n' l' s'] n' by simp
    moreover have "finish micro k l' s' = finish micro (left l') l' s'" using less.IH [of k l' s'] n' by simp
    ultimately show ?thesis using r n' by simp
  qed
qed

lemma whole_end: "micro l s = None \<Longrightarrow> finish micro (left l) l s = (l, s)"
  by (cases "left l") simp_all

lemma whole_step:
  assumes "micro l s = Some (l', s')"
  shows "finish micro (left l) l s = finish micro (left l') l' s'"
proof -
  from shrinks [OF assms] obtain k where k: "left l = Suc k" "left l' \<le> k" by (cases "left l") auto
  with assms finish_more [OF k(2)] show ?thesis by simp
qed

abbreviation whole :: "'l \<Rightarrow> 's \<Rightarrow> 'l \<times> 's" where
  "whole l s \<equiv> finish micro (left l) l s"

lemma next_serialised:
  assumes "serialised whole start order (s, m, ts)" "thread_next micro i (s, m, ts) = Some c"
  shows "\<exists>order. serialised whole start order c"
proof -
  have i: "i < length ts" using assms(2) by (auto simp: thread_next_def split: if_splits)
  note inv = assms(1) [unfolded serialised_def, simplified]
  show ?thesis
  proof (cases "ts ! i")
    case (BEFORE l)
    then obtain m' where m: "pthread_mutex_lock m = Some m'" and c: "c = (s, m', ts[i := INSIDE l])"
      using assms(2) i by (auto simp: thread_next_def split: option.splits)
    then have idle: "m = Mutex False" "m' = Mutex True" "\<forall>i < length ts. \<forall>l. ts ! i \<noteq> INSIDE l" "in_turn whole order start = (s, ts)"
      using inv by auto
    have "i \<notin> set order" using inv BEFORE i by auto
    moreover have "in_turn whole (order @ [i]) start = (snd (whole l s), ts[i := AFTER (fst (whole l s))])"
      using idle(4) BEFORE by (simp add: in_turn_append split: prod.split)
    ultimately have "serialised whole start (order @ [i]) c"
      using inv i idle by (auto simp: c serialised_def nth_list_update intro!: exI [of _ i])
    then show ?thesis ..
  next
    case (INSIDE l)
    then have busy: "m = Mutex True" "\<forall>j < length ts. j \<noteq> i \<longrightarrow> (\<forall>l. ts ! j \<noteq> INSIDE l)"
      "in_turn whole order start = (snd (whole l s), ts[i := AFTER (fst (whole l s))])"
      using inv i by (auto; metis call.inject(2))+
    show ?thesis
    proof (cases "micro l s")
      case None
      then have c: "c = (s, Mutex False, ts[i := AFTER l])" using assms(2) i INSIDE busy(1) by (auto simp: thread_next_def)
      have "serialised whole start order c"
        using inv i INSIDE busy whole_end [OF None] by (auto simp: c serialised_def nth_list_update)
      then show ?thesis ..
    next
      case (Some r)
      then obtain l' s' where r: "micro l s = Some (l', s')" by (cases r) simp
      then have c: "c = (s', m, ts[i := INSIDE l'])" using assms(2) i INSIDE by (auto simp: thread_next_def)
      have "serialised whole start order c"
        using inv i INSIDE busy whole_step [OF r] by (auto simp: c serialised_def nth_list_update intro!: exI [of _ i])
      then show ?thesis ..
    qed
  next
    case (AFTER l)
    then show ?thesis using assms(2) i by (simp add: thread_next_def)
  qed
qed

lemma interleave_serialised:
  assumes "serialised whole start order c" "interleave micro is c = Some c'"
  shows "\<exists>order. serialised whole start order c'"
  using assms
proof (induction "is" arbitrary: order c)
  case (Cons i "is")
  then obtain c1 where c1: "thread_next micro i c = Some c1" "interleave micro is c1 = Some c'" by (auto split: option.splits)
  obtain s m ts where c: "c = (s, m, ts)" by (cases c)
  from next_serialised [of start order s m ts i c1] Cons.prems(1) c1(1) c
  obtain order' where "serialised whole start order' c1" by blast
  from Cons.IH [OF this c1(2)] show ?case .
qed auto

lemma start_serialised: "serialised whole (s, map BEFORE ls) [] (s, Mutex False, map BEFORE ls)"
  by (simp add: serialised_def)

text \<open>No deadlock, and no interleaving is endless.\<close>

definition todo :: "'l call \<Rightarrow> nat" where
  "todo c = (case c of BEFORE l \<Rightarrow> left l + 2 | INSIDE l \<Rightarrow> left l + 1 | AFTER l \<Rightarrow> 0)"

lemma next_shrinks:
  assumes "thread_next micro i (s, m, ts) = Some (s', m', ts')"
  shows "sum_list (map todo ts') < sum_list (map todo ts)"
proof -
  have i: "i < length ts" using assms by (auto simp: thread_next_def split: if_splits)
  obtain c where c: "ts' = ts[i := c]" "todo c < todo (ts ! i)"
    using assms i shrinks by (auto simp: thread_next_def todo_def split: call.splits option.splits)
  have "sum_list (map todo ts) = sum_list (map todo (take i ts)) + todo (ts ! i) + sum_list (map todo (drop (Suc i) ts))"
    using i by (subst id_take_nth_drop [OF i]) simp
  moreover have "sum_list (map todo ts') = sum_list (map todo (take i ts)) + todo c + sum_list (map todo (drop (Suc i) ts))"
    using i c(1) by (simp add: upd_conv_take_nth_drop)
  ultimately show ?thesis using c(2) by simp
qed

lemma interleave_bounded:
  "interleave micro is (s, m, ts) = Some (s', m', ts') \<Longrightarrow> length is + sum_list (map todo ts') \<le> sum_list (map todo ts)"
proof (induction "is" arbitrary: s m ts)
  case (Cons i "is")
  then obtain s1 m1 ts1 where n: "thread_next micro i (s, m, ts) = Some (s1, m1, ts1)" "interleave micro is (s1, m1, ts1) = Some (s', m', ts')"
    by (auto split: option.splits)
  show ?case using Cons.IH [OF n(2)] next_shrinks [OF n(1)] by simp
qed simp

lemma some_thread_runs:
  assumes "serialised whole start order (s, m, ts)" "\<forall>i. thread_next micro i (s, m, ts) = None"
  shows "\<forall>i < length ts. \<exists>l. ts ! i = AFTER l"
proof (intro allI impI)
  fix i assume i: "i < length ts"
  have no: "ts ! j \<noteq> INSIDE l" if "j < length ts" for j l
    using assms(2) [THEN spec, of j] that by (auto simp: thread_next_def split: option.splits)
  then have "m = Mutex False" using assms(1) by (auto simp: serialised_def)
  then show "\<exists>l. ts ! i = AFTER l"
    using no i assms(2) [THEN spec, of i] by (cases "ts ! i") (auto simp: thread_next_def)
qed

text \<open>
  Any interleaving of the calls \<open>ls\<close>: while no thread is inside, what the mutex protects and the results are those
  of the calls that have run, as wholes, in the order of taking the mutex. At most one thread is inside; the
  interleaving has an end, and where no thread can go on all have.
\<close>

lemma interleaving:
  assumes "interleave micro is (s0, Mutex False, map BEFORE ls) = Some (s, m, ts)"
  shows "length ts = length ls" "length is \<le> (\<Sum>l\<leftarrow>ls. left l + 2)"
    "\<And>i j l l'. i < length ls \<Longrightarrow> j < length ls \<Longrightarrow> ts ! i = INSIDE l \<Longrightarrow> ts ! j = INSIDE l' \<Longrightarrow> i = j"
    "(\<forall>i. thread_next micro i (s, m, ts) = None) \<Longrightarrow> \<forall>i < length ls. \<exists>l. ts ! i = AFTER l"
    "(\<forall>i < length ls. \<forall>l. ts ! i \<noteq> INSIDE l) \<Longrightarrow> \<exists>order. distinct order \<and> set order = {i. i < length ls \<and> (\<exists>l. ts ! i = AFTER l)} \<and>
       in_turn whole order (s0, map BEFORE ls) = (s, ts)"
proof -
  from interleave_serialised [OF start_serialised assms] obtain order where o: "serialised whole (s0, map BEFORE ls) order (s, m, ts)" ..
  have "length (snd (in_turn whole order (s0, map BEFORE ls))) = length ts"
    using o by (auto simp: serialised_def simp del: in_turn_length)
  then show len: "length ts = length ls" by simp
  show "length is \<le> (\<Sum>l\<leftarrow>ls. left l + 2)"
    using interleave_bounded [OF assms] by (simp add: todo_def o_def)
  have "\<exists>k. \<forall>j < length ts. j \<noteq> k \<longrightarrow> (\<forall>l. ts ! j \<noteq> INSIDE l)" using o by (auto simp: serialised_def)
  then show "i = j" if "i < length ls" "j < length ls" "ts ! i = INSIDE l" "ts ! j = INSIDE l'" for i j l l'
    using that len by metis
  show "\<forall>i < length ls. \<exists>l. ts ! i = AFTER l" if "\<forall>i. thread_next micro i (s, m, ts) = None"
    using some_thread_runs [OF o that] len by simp
  show "\<exists>order. distinct order \<and> set order = {i. i < length ls \<and> (\<exists>l. ts ! i = AFTER l)} \<and>
      in_turn whole order (s0, map BEFORE ls) = (s, ts)" if no: "\<forall>i < length ls. \<forall>l. ts ! i \<noteq> INSIDE l"
  proof (intro exI [of _ order] conjI)
    show "distinct order" "in_turn whole order (s0, map BEFORE ls) = (s, ts)" using o no len by (auto simp: serialised_def)
    have "(\<exists>l. ts ! i = AFTER l) \<longleftrightarrow> (\<forall>l. ts ! i \<noteq> BEFORE l)" if "i < length ls" for i
      using no that by (cases "ts ! i") auto
    then show "set order = {i. i < length ls \<and> (\<exists>l. ts ! i = AFTER l)}"
      using o len by (auto simp: serialised_def)
  qed
qed

text \<open>Conversely, every order of whole sections is an interleaving.\<close>

lemma interleave_append:
  "interleave micro (is @ js) c = (case interleave micro is c of None \<Rightarrow> None | Some c \<Rightarrow> interleave micro js c)"
  by (induction "is" arbitrary: c) (auto split: option.split)

lemma section_ends:
  assumes "i < length ts" "ts ! i = INSIDE l"
  shows "\<exists>is. interleave micro is (s, m, ts) = Some (snd (whole l s), pthread_mutex_unlock m, ts[i := AFTER (fst (whole l s))])"
  using assms
proof (induction "left l" arbitrary: l s ts rule: less_induct)
  case less
  show ?case
  proof (cases "micro l s")
    case None
    then show ?thesis using less.prems whole_end [OF None] by (intro exI [of _ "[i]"]) (simp add: thread_next_def)
  next
    case (Some r)
    obtain l' s' where r: "micro l s = Some (l', s')" using Some by (cases r) simp
    from less.hyps [OF shrinks [OF r], of "ts[i := INSIDE l']" s'] less.prems
    obtain "is" where "interleave micro is (s', m, ts[i := INSIDE l']) =
        Some (snd (whole l' s'), pthread_mutex_unlock m, ts[i := AFTER (fst (whole l' s'))])" by auto
    then show ?thesis using less.prems r whole_step [OF r] by (intro exI [of _ "i # is"]) (simp add: thread_next_def)
  qed
qed

lemma in_turn_is_interleaving:
  assumes "\<forall>i \<in> set order. i < length ts"
  shows "\<exists>is. interleave micro is (s, Mutex False, ts) =
    (case in_turn whole order (s, ts) of (s', ts') \<Rightarrow> Some (s', Mutex False, ts'))"
  using assms
proof (induction order arbitrary: s ts)
  case Nil
  show ?case by (intro exI [of _ "[]"]) simp
next
  case (Cons i order)
  show ?case
  proof (cases "ts ! i")
    case (BEFORE l)
    from section_ends [of i "ts[i := INSIDE l]" l s "Mutex True"] Cons.prems
    obtain is1 where 1: "interleave micro is1 (s, Mutex True, ts[i := INSIDE l]) =
        Some (snd (whole l s), Mutex False, ts[i := AFTER (fst (whole l s))])" by auto
    from Cons.IH [of "ts[i := AFTER (fst (whole l s))]" "snd (whole l s)"] Cons.prems
    obtain is2 where "interleave micro is2 (snd (whole l s), Mutex False, ts[i := AFTER (fst (whole l s))]) =
        (case in_turn whole order (snd (whole l s), ts[i := AFTER (fst (whole l s))]) of (s', ts') \<Rightarrow> Some (s', Mutex False, ts'))"
      by auto
    with 1 BEFORE Cons.prems show ?thesis
      by (intro exI [of _ "i # is1 @ is2"]) (simp add: thread_next_def interleave_append split: prod.split)
  qed (use Cons in auto)
qed

end

section \<open>The one-time initialisation of the TLS library\<close>

text \<open>
  The lines between \<open>pthread_mutex_lock (&mutex)\<close> and its unlocking: the flag is tested, the library initialised and the
  flag set. The registers of the thread are its place in the code and its socket; the mutex protects \<open>InitSSLFlag\<close>
  and the state of the library.
\<close>

datatype ssl_pc = TEST | INIT | MARK | READY

definition ssl_micro :: "'w sys \<Rightarrow> ssl_pc \<times> CTcpSocket \<Rightarrow> 'w \<times> int \<Rightarrow> ((ssl_pc \<times> CTcpSocket) \<times> 'w \<times> int) option" where
  "ssl_micro S = (\<lambda>(pc, k) (w, flag).
     (case pc of
        TEST \<Rightarrow> Some ((if flag = 0 then INIT else READY, k), w, flag)
      | INIT \<Rightarrow> (case TcpSslInitParams S (w, k) of (w, k) \<Rightarrow> Some ((MARK, k), w, flag))
      | MARK \<Rightarrow> Some ((READY, k), w, 1)
      | READY \<Rightarrow> None))"

definition ssl_left :: "ssl_pc \<times> CTcpSocket \<Rightarrow> nat" where
  "ssl_left = (\<lambda>(pc, k). case pc of TEST \<Rightarrow> 3 | INIT \<Rightarrow> 2 | MARK \<Rightarrow> 1 | READY \<Rightarrow> 0)"

interpretation ssl: guarded_section "ssl_micro S" ssl_left for S
  by unfold_locales (auto simp: ssl_micro_def ssl_left_def split: ssl_pc.splits if_splits prod.splits)

text \<open>The section as a whole is the operation of the sequential model.\<close>

lemma ssl_section:
  "finish (ssl_micro S) (ssl_left (TEST, k)) (TEST, k) (w, flag) =
     (case ssl_init_once S flag (w, k) of (flag, w, k) \<Rightarrow> ((READY, k), w, flag))"
  by (simp add: ssl_left_def ssl_micro_def ssl_init_once_def numeral_3_eq_3 TcpSslInitParams_def)

text \<open>What is known of a thread: the flag goes up once, between the initialisation and the end of the section.\<close>

definition ssl_at :: "'w sys \<Rightarrow> 'w \<Rightarrow> 'w \<times> int \<Rightarrow> (ssl_pc \<times> CTcpSocket) call \<Rightarrow> bool" where
  "ssl_at S w0 s c =
     (case c of
        BEFORE (pc, k) \<Rightarrow> pc = TEST
      | INSIDE (pc, k) \<Rightarrow>
          (case pc of
             TEST \<Rightarrow> s = (w0, 0) \<or> s = (SSL_library_init S w0, 1)
           | INIT \<Rightarrow> s = (w0, 0)
           | MARK \<Rightarrow> s = (SSL_library_init S w0, 0)
           | READY \<Rightarrow> s = (SSL_library_init S w0, 1))
      | AFTER (pc, k) \<Rightarrow> pc = READY \<and> s = (SSL_library_init S w0, 1))"

definition ssl_inv :: "'w sys \<Rightarrow> 'w \<Rightarrow> (ssl_pc \<times> CTcpSocket, 'w \<times> int) crowd \<Rightarrow> bool" where
  "ssl_inv S w0 = (\<lambda>(s, m, ts).
     (\<forall>c \<in> set ts. ssl_at S w0 s c) \<and>
     (s = (w0, 0) \<or> s = (SSL_library_init S w0, 1) \<or> (\<exists>l. INSIDE l \<in> set ts)))"

lemma ssl_next:
  assumes "ssl_inv S w0 (s, m, ts)" "thread_next (ssl_micro S) i (s, m, ts) = Some (s', m', ts')"
    "serialised whole start order (s, m, ts)"
  shows "ssl_inv S w0 (s', m', ts')"
proof -
  have i: "i < length ts" using assms(2) by (auto simp: thread_next_def split: if_splits)
  have each: "\<And>j. j < length ts \<Longrightarrow> ssl_at S w0 s (ts ! j)" and s: "s = (w0, 0) \<or> s = (SSL_library_init S w0, 1) \<or> (\<exists>l. INSIDE l \<in> set ts)"
    using assms(1) by (auto simp: ssl_inv_def)
  have keep: "ssl_inv S w0 (s', m', ts')"
    if "ts' = ts[i := c]" "ssl_at S w0 s' c" "\<And>j. j < length ts \<Longrightarrow> j \<noteq> i \<Longrightarrow> ssl_at S w0 s' (ts ! j)"
      "s' = (w0, 0) \<or> s' = (SSL_library_init S w0, 1) \<or> (\<exists>l. c = INSIDE l)" for c
  proof -
    have "c \<in> set (ts[i := c])" using i by (rule set_update_memI)
    with that i show ?thesis by (fastforce simp: ssl_inv_def all_set_conv_all_nth nth_list_update)
  qed
  show ?thesis
  proof (cases "ts ! i")
    case (BEFORE l)
    then have m: "m = Mutex False" "s' = s" "ts' = ts[i := INSIDE l]" and no: "\<forall>l. INSIDE l \<notin> set ts"
      using assms(2,3) i by (auto simp: thread_next_def serialised_def in_set_conv_nth split: option.splits)
    moreover have "ssl_at S w0 s (INSIDE l)" using each [OF i] s no BEFORE by (auto simp: ssl_at_def)
    ultimately show ?thesis using each by (intro keep [of "INSIDE l"]) simp_all
  next
    case (INSIDE l)
    obtain pc k where l: "l = (pc, k)" by (cases l)
    have others: "ssl_at S w0 t (ts ! j)" if "j < length ts" "j \<noteq> i" "snd s = 0" for j t
    proof -
      have "\<exists>k. \<forall>j < length ts. j \<noteq> k \<longrightarrow> (\<forall>l. ts ! j \<noteq> INSIDE l)" using assms(3) by (auto simp: serialised_def)
      then have "\<forall>l. ts ! j \<noteq> INSIDE l" using that(1,2) i INSIDE by metis
      with each [OF that(1)] that(3) show ?thesis by (auto simp: ssl_at_def split: call.splits)
    qed
    have at: "ssl_at S w0 s (INSIDE (pc, k))" using each [OF i] INSIDE l by simp
    show ?thesis
    proof (cases pc)
      case TEST
      let ?c = "INSIDE (if snd s = 0 then INIT else READY, k)"
      have "s' = s" "ts' = ts[i := ?c]"
        using assms(2) i INSIDE l TEST by (auto simp: thread_next_def ssl_micro_def split: prod.splits)
      moreover have "ssl_at S w0 s ?c" using at TEST by (auto simp: ssl_at_def)
      ultimately show ?thesis using each by (intro keep [of ?c]) simp_all
    next
      case INIT
      then have st: "s = (w0, 0)" using at by (simp add: ssl_at_def)
      then obtain k' where k': "s' = (SSL_library_init S w0, 0)" "ts' = ts[i := INSIDE (MARK, k')]"
        using assms(2) i INSIDE l INIT by (auto simp: thread_next_def ssl_micro_def TcpSslInitParams_def)
      moreover have "ssl_at S w0 s' (INSIDE (MARK, k'))" using k' by (simp add: ssl_at_def)
      ultimately show ?thesis using others st by (intro keep [of "INSIDE (MARK, k')"]) simp_all
    next
      case MARK
      then have st: "s = (SSL_library_init S w0, 0)" using at by (simp add: ssl_at_def)
      then have k': "s' = (SSL_library_init S w0, 1)" "ts' = ts[i := INSIDE (READY, k)]"
        using assms(2) i INSIDE l MARK by (auto simp: thread_next_def ssl_micro_def)
      moreover have "ssl_at S w0 s' (INSIDE (READY, k))" using k' by (simp add: ssl_at_def)
      ultimately show ?thesis using others st by (intro keep [of "INSIDE (READY, k)"]) simp_all
    next
      case READY
      have "s' = s" "ts' = ts[i := AFTER (READY, k)]"
        using assms(2) i INSIDE l READY by (auto simp: thread_next_def ssl_micro_def split: prod.splits)
      moreover have "ssl_at S w0 s (AFTER (READY, k))" "s = (SSL_library_init S w0, 1)" using at READY by (simp_all add: ssl_at_def)
      ultimately show ?thesis using each by (intro keep [of "AFTER (READY, k)"]) simp_all
    qed
  next
    case (AFTER l)
    then show ?thesis using assms(2) i by (simp add: thread_next_def)
  qed
qed

lemma ssl_interleaved:
  assumes "ssl_inv S w0 c" "serialised (\<lambda>l. finish (ssl_micro S) (ssl_left l) l) start order c" "interleave (ssl_micro S) is c = Some c'"
  shows "ssl_inv S w0 c'"
  using assms
proof (induction "is" arbitrary: c order)
  case (Cons i "is")
  then obtain c1 where c1: "thread_next (ssl_micro S) i c = Some c1" "interleave (ssl_micro S) is c1 = Some c'" by (auto split: option.splits)
  obtain s m ts s1 m1 ts1 where c: "c = (s, m, ts)" "c1 = (s1, m1, ts1)" by (metis surj_pair)
  from ssl.next_serialised [of S start order s m ts i c1] Cons.prems(2) c1(1) c(1)
  obtain order' where "serialised (\<lambda>l. finish (ssl_micro S) (ssl_left l) l) start order' c1" by blast
  then show ?case using ssl_next [of S w0 s m ts i s1 m1 ts1] Cons c1 c by blast
qed simp

section \<open>A line of the log\<close>

text \<open>
  The code of \<open>write_d\<close> from \<open>pthread_mutex_lock (&m_Mutex)\<close> on, for a call whose rank suffices. The registers are the
  arguments of the call and its place in the code; the mutex protects the members of the log and the file. An
  error leads to the unlocking, and the stream is closed after it.
\<close>

datatype log_pc = L_DIR | L_HEAD | L_TEXT | L_LINE_END | L_WRITTEN | L_FAILED | L_CRASHED

type_synonym log_entry = "LOG_RANK \<times> string \<times> int \<times> string"

definition log_print :: "'w stdio \<Rightarrow> string \<Rightarrow> log_pc \<Rightarrow> log_pc \<Rightarrow> 'w logstate \<Rightarrow> log_pc \<times> 'w logstate" where
  "log_print F s good bad = (\<lambda>(w, l).
     (case l_pFile l of
        None \<Rightarrow> (L_CRASHED, w, l)
      | Some h \<Rightarrow> (case f_print F h s w of None \<Rightarrow> (L_CRASHED, w, l) | Some (ok, w) \<Rightarrow> (if ok then good else bad, w, l))))"

definition log_head :: "('w \<Rightarrow> tm) \<Rightarrow> log_entry \<Rightarrow> 'w \<Rightarrow> string" where
  "log_head now = (\<lambda>(rank, file, line, msg) w.
     getfulltime (now w) @ '' '' @ rank_text rank @ '' '' @ file @ '':'' @ show_int line @ '' '')"

definition log_micro :: "'w stdio \<Rightarrow> ('w \<Rightarrow> tm) \<Rightarrow> log_entry \<times> log_pc \<Rightarrow> 'w logstate \<Rightarrow> ((log_entry \<times> log_pc) \<times> 'w logstate) option" where
  "log_micro F now = (\<lambda>(e, pc) st.
     map_option (\<lambda>(pc, st). ((e, pc), st))
       (case pc of
          L_DIR \<Rightarrow> Some (case LogCreatLogDir F now st of None \<Rightarrow> (L_CRASHED, st) | Some (_, st) \<Rightarrow> (L_HEAD, st))
        | L_HEAD \<Rightarrow> Some (log_print F (log_head now e (fst st)) L_TEXT L_FAILED st)
        | L_TEXT \<Rightarrow> Some (log_print F (snd (snd (snd e))) L_LINE_END L_FAILED st)
        | L_LINE_END \<Rightarrow> Some (log_print F [CTRL_N] L_WRITTEN L_WRITTEN st)
        | _ \<Rightarrow> None))"

definition log_left :: "log_entry \<times> log_pc \<Rightarrow> nat" where
  "log_left = (\<lambda>(e, pc). case pc of L_DIR \<Rightarrow> 4 | L_HEAD \<Rightarrow> 3 | L_TEXT \<Rightarrow> 2 | L_LINE_END \<Rightarrow> 1 | _ \<Rightarrow> 0)"

text \<open>What follows the unlocking.\<close>

definition log_rest :: "'w stdio \<Rightarrow> log_pc \<Rightarrow> 'w logstate \<Rightarrow> (bool \<times> 'w logstate) option" where
  "log_rest F pc = (\<lambda>(w, l).
     (case pc of
        L_WRITTEN \<Rightarrow> Some (True, w, l)
      | L_FAILED \<Rightarrow> do { h \<leftarrow> l_pFile l; log_failed F h (w, l) }
      | _ \<Rightarrow> None))"

interpretation log: guarded_section "log_micro F now" log_left for F now
  by unfold_locales
    (auto simp: log_micro_def log_left_def log_print_def split: log_pc.splits option.splits prod.splits if_splits)

abbreviation log_section :: "'w stdio \<Rightarrow> ('w \<Rightarrow> tm) \<Rightarrow> log_entry \<times> log_pc \<Rightarrow> 'w logstate \<Rightarrow> (log_entry \<times> log_pc) \<times> 'w logstate" where
  "log_section F now l st \<equiv> finish (log_micro F now) (log_left l) l st"

text \<open>The section and what follows it make up the operation of the sequential model.\<close>

lemma log_section_is_write_d:
  assumes "rank_num (l_Rank (snd st)) \<le> rank_num rank"
  shows "write_d F now rank src ln msg st =
    (case log_section F now ((rank, src, ln, msg), L_DIR) st of ((_, pc), st) \<Rightarrow> log_rest F pc st)"
  using assms
  by (auto simp: write_d_def log_left_def log_micro_def log_print_def log_head_def log_rest_def numeral_eq_Suc
      split: option.split prod.split bind_splits)

lemma log_section_keeps: "fst (fst (finish (log_micro F now) n (e, pc) st)) = e"
  by (induction n arbitrary: pc st) (auto simp: log_micro_def split: option.split prod.split)

lemma log_section_writes:
  assumes "write_d F now rank src ln msg st = Some (True, st')" "rank_num (l_Rank (snd st)) \<le> rank_num rank"
  shows "log_section F now ((rank, src, ln, msg), L_DIR) st = (((rank, src, ln, msg), L_WRITTEN), st')"
proof -
  obtain e pc st1 where r: "log_section F now ((rank, src, ln, msg), L_DIR) st = ((e, pc), st1)" by (metis surj_pair)
  have "e = (rank, src, ln, msg)" using log_section_keeps [of F now _ "(rank, src, ln, msg)" L_DIR st] r by (metis fst_conv)
  moreover have "log_rest F pc st1 = Some (True, st')" using log_section_is_write_d [where F = F and now = now and src = src and ln = ln and msg = msg, OF assms(2)] assms(1) r by simp
  ultimately show ?thesis
    using r by (cases pc; cases st1) (auto simp: log_rest_def log_failed_def split: bind_splits)
qed

text \<open>The calls one after the other are a run of the sequential model.\<close>

lemma log_in_turn:
  assumes "streams F content handle" "never_fails F" "\<forall>w. LogGetDate (now w) = Some date"
    and "log_ready F handle date p (w, l)" "distinct order"
    and "\<And>i. i \<in> set order \<Longrightarrow> i < length ts \<and> ts ! i = BEFORE (es ! i, L_DIR) \<and> rank_num (l_Rank l) \<le> rank_num (fst (es ! i))"
  shows "\<exists>st' ts'. in_turn (log_section F now) order ((w, l), ts) = (st', ts') \<and>
    write_all F now (map ((!) es) order) (w, l) = Some st' \<and> (\<forall>i \<in> set order. ts' ! i = AFTER (es ! i, L_WRITTEN))"
  using assms(4-)
proof (induction order arbitrary: w l ts)
  case (Cons i order)
  obtain rank src ln msg where e: "es ! i = (rank, src, ln, msg)" by (cases "es ! i")
  have i: "i < length ts" "ts ! i = BEFORE (es ! i, L_DIR)" "rank_num (l_Rank l) \<le> rank_num rank"
    using Cons.prems(3) [of i] e by auto
  obtain w1 n where w1: "write_d F now rank src ln msg (w, l) = Some (True, w1, l\<lparr>m_iLogFileId := n\<rparr>)"
    "log_ready F handle date p (w1, l\<lparr>m_iLogFileId := n\<rparr>)"
    using write_d_appends [where now = now, OF assms(1,2) Cons.prems(1) _ i(3)] assms(3) by metis
  let ?ts = "ts[i := AFTER (es ! i, L_WRITTEN)]"
  have "\<And>j. j \<in> set order \<Longrightarrow> j < length ?ts \<and> ?ts ! j = BEFORE (es ! j, L_DIR) \<and>
      rank_num (l_Rank (l\<lparr>m_iLogFileId := n\<rparr>)) \<le> rank_num (fst (es ! j))"
    using Cons.prems(2,3) by (auto simp: nth_list_update)
  from Cons.IH [OF w1(2) _ this] Cons.prems(2) obtain st' ts' where
    r: "in_turn (log_section F now) order ((w1, l\<lparr>m_iLogFileId := n\<rparr>), ?ts) = (st', ts')"
      "write_all F now (map ((!) es) order) (w1, l\<lparr>m_iLogFileId := n\<rparr>) = Some st'" "\<forall>j \<in> set order. ts' ! j = AFTER (es ! j, L_WRITTEN)"
    by auto
  have "ts' ! i = AFTER (es ! i, L_WRITTEN)"
    using in_turn_other [of i order "log_section F now" "(w1, l\<lparr>m_iLogFileId := n\<rparr>)" ?ts] r(1) Cons.prems(2) i(1) by simp
  with r show ?case
    using log_section_writes [OF w1(1)] i w1(1) e by auto
qed simp

text \<open>Every order of the calls is that of an interleaving.\<close>

lemma log_orders:
  assumes "streams F content handle" "never_fails F" "\<forall>w. LogGetDate (now w) = Some date" "log_ready F handle date p (w, l)"
    and "\<forall>e \<in> set es. rank_num (l_Rank l) \<le> rank_num (fst e)" "distinct order" "\<forall>i \<in> set order. i < length es"
  shows "\<exists>is w' l' ts. interleave (log_micro F now) is ((w, l), Mutex False, map (\<lambda>e. BEFORE (e, L_DIR)) es) = Some ((w', l'), Mutex False, ts) \<and>
    (\<forall>i \<in> set order. ts ! i = AFTER (es ! i, L_WRITTEN))"
proof -
  let ?ts = "map (\<lambda>e. BEFORE (e, L_DIR)) es"
  have "i < length ?ts \<and> ?ts ! i = BEFORE (es ! i, L_DIR) \<and> rank_num (l_Rank l) \<le> rank_num (fst (es ! i))" if "i \<in> set order" for i
    using assms(5,7) that by simp
  from log_in_turn [OF assms(1-4,6) this] obtain st' ts where
    t: "in_turn (log_section F now) order ((w, l), ?ts) = (st', ts)" "\<forall>i \<in> set order. ts ! i = AFTER (es ! i, L_WRITTEN)"
    by blast
  obtain w' l' where "st' = (w', l')" by (cases st')
  moreover have "\<forall>i \<in> set order. i < length ?ts" using assms(7) by simp
  from log.in_turn_is_interleaving [OF this, of F now "(w, l)"] obtain "is" where
    "interleave (log_micro F now) is ((w, l), Mutex False, ?ts) = Some (st', Mutex False, ts)" unfolding t(1) by auto
  ultimately show ?thesis using t(2) by blast
qed

section \<open>Theorems\<close>

text \<open>
  C18. However the threads interleave, the TLS library is initialised once: no two threads are in the section, a
  thread that has left it finds the library initialised and the flag set, and no thread waits for ever.
\<close>

theorem ssl_initialised_once:
  assumes "interleave (ssl_micro S) is ((w0, 0), Mutex False, map (\<lambda>k. BEFORE (TEST, k)) ks) = Some ((w, flag), m, ts)"
  shows "(w = w0 \<or> w = SSL_library_init S w0) \<and>
    (\<forall>i < length ks. \<forall>c. ts ! i = AFTER c \<longrightarrow> w = SSL_library_init S w0 \<and> flag = 1) \<and>
    (\<forall>i j c d. i < length ks \<longrightarrow> j < length ks \<longrightarrow> ts ! i = INSIDE c \<longrightarrow> ts ! j = INSIDE d \<longrightarrow> i = j) \<and>
    length is \<le> 5 * length ks \<and> ((\<forall>i. thread_next (ssl_micro S) i ((w, flag), m, ts) = None) \<longrightarrow> (\<forall>i < length ks. \<exists>c. ts ! i = AFTER c))"
proof -
  let ?start = "((w0, 0), Mutex False, map BEFORE (map (\<lambda>k. (TEST, k)) ks))"
  have run: "interleave (ssl_micro S) is ?start = Some ((w, flag), m, ts)" using assms by (simp add: o_def)
  have "ssl_inv S w0 ?start" by (auto simp: ssl_inv_def ssl_at_def)
  from ssl_interleaved [OF this ssl.start_serialised run] have inv: "ssl_inv S w0 ((w, flag), m, ts)" .
  note r = ssl.interleaving [OF run, simplified]
  have "ssl_at S w0 (w, flag) (ts ! i)" if "i < length ks" for i using inv that r(1) by (simp add: ssl_inv_def)
  then have "\<forall>i < length ks. \<forall>c. ts ! i = AFTER c \<longrightarrow> w = SSL_library_init S w0 \<and> flag = 1" by (fastforce simp: ssl_at_def)
  moreover have "w = w0 \<or> w = SSL_library_init S w0"
    using inv by (auto simp: ssl_inv_def ssl_at_def split: ssl_pc.splits)
  moreover have "length is \<le> 5 * length ks" using r(2) by (simp add: o_def ssl_left_def sum_list_triv)
  ultimately show ?thesis using r(3,4) by blast
qed

text \<open>A library that records its initialisations, and two threads.\<close>

definition counting_sys :: "toy sys" where
  "counting_sys = toy_sys\<lparr>SSL_library_init := (\<lambda>w. w\<lparr>toy_out := toy_out w @ ''I''\<rparr>)\<rparr>"

theorem ssl_initialised_once_witness:
  "\<exists>w flag m ts. interleave (ssl_micro counting_sys) [1, 1, 1, 1, 1, 0, 0, 0]
      ((toy_world [], 0), Mutex False, [BEFORE (TEST, toy_socket), BEFORE (TEST, toy_socket)]) = Some ((w, flag), m, ts) \<and>
     (\<exists>c. ts ! 0 = AFTER c) \<and> flag = 1 \<and> toy_out w = ''I''"
proof -
  let ?ks = "[toy_socket, toy_socket]" and ?is = "[1, 1, 1, 1, 1, 0, 0, 0]"
  obtain w flag m ts where r: "interleave (ssl_micro counting_sys) ?is ((toy_world [], 0), Mutex False, map (\<lambda>k. BEFORE (TEST, k)) ?ks)
      = Some ((w, flag), m, ts)" "\<exists>c. ts ! 0 = AFTER c"
    by (simp add: thread_next_def ssl_micro_def TcpSslInitParams_def)
  from ssl_initialised_once [OF r(1)] r(2) have "w = SSL_library_init counting_sys (toy_world [])" "flag = 1" by auto
  with r show ?thesis by (simp add: counting_sys_def toy_world_def)
qed



end
