(* ===== verification/AdapterLocks.thy ===== *)
theory AdapterLocks
  imports Adapter Lock
begin

text \<open>
  The mutexes of \<open>src/redisCommon/data_adapter.cpp\<close> and \<open>update_adapter.cpp\<close>, one for each server: every operation
  on a server holds its mutex, by a scoped \<open>MutexLock\<close> or by hand. The theory \<open>Adapter\<close> leaves them out; here it is
  shown that with free mutexes the operations are those of \<open>Adapter\<close> and leave every mutex free, on each return.
\<close>

section \<open>The mutexes\<close>

text \<open>
  \<open>Init\<close> makes the mutex of a server after the connection to it: the mutexes of a server that cannot be reached and
  of those behind it stay as \<open>new\<close> left them.
\<close>

fun init_mutexes :: "'w hiredis \<Rightarrow> nat \<Rightarrow> (string \<times> u16 \<times> u16) list \<Rightarrow> 'w \<times> CDataRedis list \<Rightarrow> pthread_mutex_t list" where
  "init_mutexes h i [] s = []"
| "init_mutexes h i ((host, port, idx) # es) (w, ds) =
     (case Init h host port idx (w, ds ! i) of
        (ok, w, d) \<Rightarrow>
          if \<not> ok then replicate (Suc (length es)) Mutex_invalid
          else pthread_mutex_init 0 Mutex_invalid # init_mutexes h (Suc i) es (w, ds[i := d]))"

definition locked_on_shard :: "('w rstate \<Rightarrow> ('r \<times> 'w rstate) option) \<Rightarrow> string \<Rightarrow> pthread_mutex_t list \<times> 'w astate \<Rightarrow>
    ('r \<times> pthread_mutex_t list \<times> 'w astate) option" where
  "locked_on_shard operation uid = (\<lambda>(locks, w, a).
     (case shard a uid of
        None \<Rightarrow> None
      | Some idx \<Rightarrow>
          map_option (\<lambda>(r, m, w, d). (r, locks[idx := m], w, a\<lparr>data := (data a)[idx := d]\<rparr>))
            (scoped_MutexLock operation (locks ! idx, w, data a ! idx))))"

text \<open>\<open>TryGetPop\<close> locks and unlocks by hand, also on its early return.\<close>

fun locked_pop_servers :: "'w hiredis \<Rightarrow> string \<Rightarrow> u32 \<Rightarrow> string list \<Rightarrow> 'w \<Rightarrow> (pthread_mutex_t \<times> CDataRedis) list \<Rightarrow>
    (bool \<times> string list \<times> 'w \<times> (pthread_mutex_t \<times> CDataRedis) list) option" where
  "locked_pop_servers h mq_key item_count uids w [] = Some (True, uids, w, [])"
| "locked_pop_servers h mq_key item_count uids w ((m, d) # ds) =
     (case pthread_mutex_lock m of
        None \<Rightarrow> None
      | Some m \<Rightarrow>
          (case Llen h mq_key item_count (w, d) of
             (ok, item_count, w, d) \<Rightarrow>
               if \<not> ok then Some (False, uids, w, (pthread_mutex_unlock m, d) # ds)
               else
                 case pop_items h mq_key (min (unat item_count) 3) uids (w, d) of
                   (uids, w, d) \<Rightarrow>
                     (case locked_pop_servers h mq_key item_count uids w ds of
                        None \<Rightarrow> None
                      | Some (ok, uids, w, ds) \<Rightarrow> Some (ok, uids, w, (pthread_mutex_unlock m, d) # ds))))"

text \<open>The destructor destroys every mutex.\<close>

definition destroy_mutexes :: "pthread_mutex_t list \<Rightarrow> int list \<times> pthread_mutex_t list" where
  "destroy_mutexes locks = (map (fst \<circ> pthread_mutex_destroy) locks, map (snd \<circ> pthread_mutex_destroy) locks)"

section \<open>Lemmas\<close>

definition idle :: "pthread_mutex_t \<Rightarrow> bool" where
  "idle m \<longleftrightarrow> m \<noteq> Mutex True"

lemma idle_cases: "idle m \<Longrightarrow> m = Mutex_invalid \<or> m = Mutex False"
  by (cases m) (auto simp: idle_def)

lemma idle_lock_unlock: "idle m \<Longrightarrow> \<exists>m'. pthread_mutex_lock m = Some m' \<and> pthread_mutex_unlock m' = m"
  by (auto dest: idle_cases)

lemma idle_scoped:
  "idle m \<Longrightarrow> scoped_MutexLock body (m, s) = map_option (\<lambda>(r, s). (r, m, s)) (body s)"
  by (auto simp: scoped_MutexLock_def dest!: idle_cases split: option.split)

lemma init_mutexes_idle: "\<forall>m \<in> set (init_mutexes h i es s). idle m"
proof (induction h i es s rule: init_mutexes.induct)
  case (2 h i host port idx es w ds)
  then show ?case by (cases "Init h host port idx (w, ds ! i)") (auto simp: idle_def)
qed simp

lemma init_mutexes_length [simp]: "length (init_mutexes h i es s) = length es"
proof (induction h i es s rule: init_mutexes.induct)
  case (2 h i host port idx es w ds)
  then show ?case by (cases "Init h host port idx (w, ds ! i)") auto
qed simp

text \<open>Exactly when \<open>Init\<close> succeeds are all mutexes usable.\<close>

lemma init_mutexes_usable:
  "fst (init_servers h i es s) \<longleftrightarrow> (\<forall>m \<in> set (init_mutexes h i es s). m = Mutex False)"
proof (induction h i es s rule: init_mutexes.induct)
  case (2 h i host port idx es w ds)
  then show ?case by (cases "Init h host port idx (w, ds ! i)") auto
qed simp

lemma locked_on_shard_eq:
  assumes "\<forall>m \<in> set locks. idle m" "length locks = serv_count (snd st)"
  shows "locked_on_shard operation uid (locks, st) = map_option (\<lambda>(r, st). (r, locks, st)) (on_shard operation uid st)"
proof (cases "shard (snd st) uid")
  case None
  then show ?thesis by (cases st) (simp add: locked_on_shard_def on_shard_def)
next
  case (Some idx)
  then have "idx < length locks" using assms(2) by (simp add: shard_bound)
  then have "idle (locks ! idx)" using assms(1) by simp
  with Some show ?thesis
    by (cases st) (auto simp: locked_on_shard_def on_shard_def idle_scoped option.map_comp o_def split_def)
qed

text \<open>A held mutex makes the caller wait, whatever the operation.\<close>

lemma locked_on_shard_waits:
  "shard a uid = Some idx \<Longrightarrow> locks ! idx = Mutex True \<Longrightarrow> locked_on_shard operation uid (locks, w, a) = None"
  by (simp add: locked_on_shard_def)

lemma locked_pop_servers_eq:
  assumes "\<forall>m \<in> set locks. idle m" "length locks = length ds"
  shows "locked_pop_servers h mq_key n uids w (zip locks ds) =
    (case pop_servers h mq_key n uids w ds of (ok, uids, w, ds) \<Rightarrow> Some (ok, uids, w, zip locks ds))"
  using assms(2,1)
proof (induction locks ds arbitrary: n uids w rule: list_induct2)
  case (Cons m locks d ds)
  then obtain m' where "pthread_mutex_lock m = Some m'" "pthread_mutex_unlock m' = m" using idle_lock_unlock [of m] by auto
  with Cons show ?case by (auto split: prod.split)
qed simp

text \<open>An adapter whose \<open>Init\<close> failed is destroyed with mutexes that never were initialised.\<close>

lemma destroy_after_failed_init:
  assumes "\<not> fst (init_servers h i es s)"
  shows "EINVAL \<in> set (fst (destroy_mutexes (init_mutexes h i es s)))"
proof -
  obtain m where "m \<in> set (init_mutexes h i es s)" "m \<noteq> Mutex False" using assms init_mutexes_usable [of h i es s] by auto
  moreover from this have "m = Mutex_invalid" using init_mutexes_idle [of h i es s] idle_cases by blast
  ultimately show ?thesis by (force simp: destroy_mutexes_def)
qed

end
