(* ===== verification/Spec2Isabelle.thy ===== *)
theory Spec2Isabelle
  imports Startup TaskRun UdpSocket Sections AdapterLocks
begin

text \<open>
  \<^bold>\<open>Verification of the LDP API gateway\<close>

  The gateway (C++, \<open>src/src\<close>) takes HTTP requests for APIs of a data market, checks the caller's token and
  order, calls the API at its provider and sends the answer back. It is one process. A server thread accepts
  connections and hands readable ones to working threads over queues; a working thread runs a request to its
  end, with Redis for tokens, orders and counters, the data hub for what Redis does not have, and the provider
  for the answer; three more threads keep the table of APIs up to date from MySQL, write the counters, and
  write the records of the calls.

  \<^bold>\<open>Theories and the code they model\<close> (paths below \<open>src/src\<close>)

    \<^item> \<open>Prelude\<close>: C strings, machine integers, \<open>std::string\<close> searches, numbers as text, \<open>std::map\<close> with string
      keys, the locale \<open>codec\<close>.
    \<^item> \<open>UrlEncode\<close>, \<open>Base64\<close>, \<open>Md5\<close> (\<open>CommonTools/UrlEncode\<close>, \<open>Base64Encode\<close>, \<open>Md5\<close>): the encodings and the hash;
      round trips, and the equality of the incremental hash with a reference definition.
    \<^item> \<open>Conf\<close>, \<open>MainConfig\<close> (\<open>CommonTools/Conf\<close>, \<open>UserQueryMain\<close>): the reader of configuration files and the
      configuration; what is printed in the documented format is read back.
    \<^item> \<open>Redis\<close>, \<open>Adapter\<close>, \<open>AdapterLocks\<close> (\<open>redisCommon\<close>): the connection to one server, the cluster, and the mutex of
      each server of it; ownership of contexts, choice of the server of a key.
    \<^item> \<open>Task\<close>, \<open>TcpSocket\<close>, \<open>DataHub\<close>, \<open>RemoteApi\<close>, \<open>TaskMain\<close> (\<open>UserQueryStruct\<close>, \<open>CommonTools/Socket\<close>,
      \<open>UserQueryTask\<close>): the data of a request, the sockets, the calls to the data hub and to the provider, and
      the processing of a request. \<open>TaskMain\<close> composes the others as \<open>CTaskMain\<close> does.
    \<^item> \<open>UdpSocket\<close> (\<open>CommonTools/Socket/UdpSocket\<close>): datagram sockets, a class that the gateway does not use.
    \<^item> \<open>Lock\<close>, \<open>Server\<close> (\<open>CommonTools/Lock\<close>, \<open>UserQueryServer\<close>, \<open>UserQueryWorkThreads\<close>): the operations of the
      server thread and of a working thread on the shared queues.
    \<^item> \<open>Scheduler\<close>: the same operations as step relations of all threads, with every interleaving; reachable
      states, the ownership of connections, and the life of a connection as the abstract specification.
    \<^item> \<open>TaskRun\<close>: a request as the scheduler sees it. \<open>BdxRunTask\<close> is shown, phase by phase, to keep the socket of its
      task and every entry of the descriptor table, which is what the scheduler needs of a run, and over any
      sequence of requests to keep the hiredis contexts of the thread.
    \<^item> \<open>Sections\<close>: two critical sections of several threads, the initialisation of the TLS library
      (\<open>TaskMain.cpp\<close>, \<open>UserQueryUpdate.cpp\<close>) and the writing of a log line (\<open>CLog\<close>), as instructions of threads that interleave.
    \<^item> \<open>Files\<close>, \<open>Mysql\<close>, \<open>Update\<close>, \<open>Statistics\<close> (\<open>CommonTools/File\<close>, \<open>Log\<close>, \<open>Mysql\<close>, \<open>UserQueryUpdate\<close>,
      \<open>UserQueryCount\<close>, \<open>UserQueryHiveLog\<close>): files and the log, the MySQL client and the three service threads.
    \<^item> \<open>Startup\<close> (\<open>AIBdxUserQuery.cpp\<close>, \<open>UserQueryMainCore\<close>, \<open>CommonTools/Thread\<close>, \<open>Time\<close>): \<open>main\<close> up to the
      running threads, which gives the initial state of \<open>Scheduler\<close>.

  \<^bold>\<open>How the code is modelled\<close>

  A class is a record of its members, with the source's names where they are free; an operation is a function
  of the object and of the world, and returns both. A \<open>char\<close> buffer is a string; \<open>cstr\<close> cuts a string where its
  \<open>c_str()\<close> ends. Unsigned members are words; \<open>int\<close> is \<open>int\<close> with \<open>to_int32\<close> where a value is narrowed. A
  \<open>std::map\<close> with string keys is a sorted association list. The result \<open>None\<close> stands for what has no result
  in C++: a null pointer, an access out of bounds, an overrun of an array, an uncaught exception, or a loop that
  does not end; the last comes from \<open>partial_function (option)\<close>, and no fuel is used. Error codes and the errors
  sent to the caller are values.

  Code that is not in \<open>src/src\<close> is a parameter, a record of its calls over a world of any type: the kernel and
  OpenSSL (\<open>sys\<close>), epoll (\<open>epoll\<close>), hiredis (\<open>hiredis\<close>), JSON (\<open>json\<close>), MySQL (\<open>mysql_api\<close>), files (\<open>stdio\<close>), and
  the thread library (\<open>pthread\<close>); clock, environment and random numbers are functions of the world. What a
  theorem assumes of them is a named predicate (\<open>tracks_fds\<close> and \<open>kernel_ok\<close> on the descriptor table, \<open>leaves\<close>, \<open>tracks_contexts\<close>, \<open>cursor\<close>,
  \<open>streams\<close>, \<open>tree\<close>, and others), and a concrete instance (\<open>toy_sys\<close>, \<open>k_sys\<close>, \<open>sample_hiredis\<close>, \<open>toy_mysql\<close>,
  \<open>mem_stdio\<close>) shows in the witnesses that it can hold.

  \<^bold>\<open>Interfaces\<close>

  A contract that several operations share is a locale, proved once and interpreted for each of them: \<open>codec\<close>
  and \<open>base64_alphabet\<close> (encodings), \<open>section_reader\<close> (configuration), \<open>redis_operation\<close> and \<open>adapter_operation\<close>
  (a hiredis context is neither lost nor freed twice), \<open>stream_reader\<close>, \<open>descriptor_operation\<close> and \<open>udp_operation\<close>
  (a socket operation touches no descriptor but its own), \<open>hub_operation\<close> (a call of a service keeps the task and closes
  nothing), its weaker form \<open>task_operation\<close> (every phase of a request keeps the descriptor table) and
  \<open>neutral_operation\<close> (a Redis command does not touch it), \<open>exclusive_lock\<close> (the class \<open>CMutexLock\<close> and the bare
  POSIX mutex), \<open>guarded_section\<close> (instructions between lock and unlock run as a whole: the TLS library and the log), \<open>table_sync\<close> (a table of the update thread), \<open>dir_tools\<close> (the two copies of the
  file tools) and \<open>row_writer\<close> (a row of statistics).

  \<^bold>\<open>What is shown\<close>

  The whole: \<open>gateway_from_start\<close> below, from \<open>main\<close> to every state the threads can reach. Scheduling: in every interleaving each connection is at exactly one place and no thread meets a deleted task;
  the server never stops; no wake-up is lost; every step is a step in the life of one connection. The lines of
  the log never mix and the TLS library is initialised once, however the threads interleave. Requests: a
  request that is served has been authorised at each check; what is sent is what was asked; answers and e-mails
  are written whole; over any sequence of requests no connection to Redis is lost or freed twice. Service threads: the table of APIs follows the database, counters and records reach the
  files completely and in order, the log writes whole lines. Tools: round trips, the hash, the reading of
  configurations. The theorems of kind \<open>error\<close> and some of kind \<open>termination\<close> state what the code does where it
  fails: loops that do not end, buffers that are overrun, states that later calls cannot use.

  \<^bold>\<open>Not modelled\<close>

  The read-write lock \<open>CRWLock\<close> is declared and has no code. Functions that only print are left out (\<open>BdxPrintConfig\<close>,
  \<open>TimeDisplay\<close>, the two printers of \<open>CUdpSocket\<close>), and so is code that is switched off by the preprocessor. The headers
  of MySQL, JSON and hiredis under \<open>src/include\<close> belong to these libraries and have no code of the gateway;
  only the MySQL types that the gateway takes apart are modelled. An access of the server and of a working thread to a status queue
  is one step, and a round of a statistics thread takes the vectors of the working threads at once, although the
  code takes no lock there; such races are undefined in C++ and have no model. A run of a request is atomic
  towards the other threads; one that has no result (a crash, or a loop that does not end) has no step. The
  descriptor table leaves out what libraries open for themselves (hiredis, MySQL, files).
  Memory is not modelled as such: objects that are never freed are invisible here.
\<close>

section \<open>From the start to every state of the gateway\<close>

text \<open>
  C1. Whatever \<open>main\<close> starts, with any number of threads and in every interleaving of the server thread and the
  working threads, each of which runs requests with \<open>BdxRunTask\<close>: each known connection is open and at exactly one
  place (under epoll, queued, running, being handed over or reported), the server thread has a next step, so it
  never meets a deleted task or deletes one twice, and every step of any thread is a step in the life of one
  connection. Of the world only the descriptor table is assumed: the documented behaviour of the kernel's calls
  (\<open>kernel_ok\<close>, \<open>startup_ok\<close>), and that hiredis opens and closes no descriptor but its own (\<open>leaves\<close>).
\<close>

theorem gateway_from_start:
  assumes "UserQueryMainCore (e_sys E) K (e_redis E) H P md5 c1 c2 c3 m wt = Some pr" "n = unat (m_uiThreadsNum m)"
    "kernel_ok (e_sys E) K tab" "startup_ok (e_sys E) K tab" "leaves (e_redis E) tab"
    "reachable (e_sys E) K name (task_runs E) (p_server pr, FREEING 0, replicate n AT_LOCK) (s, pc, ws)"
  shows "(\<forall>fd \<in> dom (m_mpSocketTask s). fd \<in> opened tab (s_world s) \<and>
       count (mset (map (fd_of s) (held (s, pc, ws)) @ reported s)) fd + (if fd \<in> polled tab (s_world s) then 1 else 0) = 1) \<and>
    (\<exists>s' pc'. server_step (e_sys E) K name (s, pc) (s', pc')) \<and>
    (\<forall>s' pc' ws'. sched_step (e_sys E) K name (task_runs E) (s, pc, ws) (s', pc', ws') \<longrightarrow>
       phases (polled tab) s' = phases (polled tab) s \<or> life_step (phases (polled tab) s) (phases (polled tab) s'))"
proof -
  from start_state [OF assms(1,2)] obtain w1 where
    "sched_init (e_sys E) K (m_stLocalServer (m_stServerInfo m)) n w1 = Some (p_server pr, FREEING 0, replicate n AT_LOCK)"
    by blast
  from gateway_scheduling [OF assms(3-5) this assms(6)] show ?thesis .
qed

theorem gateway_from_start_witness:
  "\<exists>pr. k_process = Some pr \<and>
     reachable k_sys k_epoll ''query'' (task_runs k_env) (p_server pr, FREEING 0, [AT_LOCK]) (k_reported, EVENTS [], [AT_LOCK]) \<and>
     count (mset (map (fd_of k_reported) (held (k_reported, EVENTS [], [AT_LOCK])) @ reported k_reported)) 4 = 1"
proof -
  obtain pr where pr: "k_process = Some pr" "p_server pr = k_server {3} {3} False []" using k_process_starts by blast
  have redis: "e_redis k_env = k_redis" by (simp add: k_env_def k_redis_def)
  have n: "1 = unat (m_uiThreadsNum k_main)" by (simp add: k_main_def)
  have r: "reachable k_sys k_epoll ''query'' (task_runs k_env) (p_server pr, FREEING 0, replicate 1 AT_LOCK) (k_reported, EVENTS [], [AT_LOCK])"
    using k_served pr(2) by simp
  have "4 \<in> dom (m_mpSocketTask k_reported)" "4 \<notin> polled k_tab (s_world k_reported)"
    by (simp_all add: k_reported_def k_server_def polled_def k_tab_def)
  moreover note gateway_from_start [of k_env, unfolded k_env_sys redis, OF pr(1) n k_kernel k_startup
      k_leaves [unfolded redis] r, THEN conjunct1, THEN bspec, of 4]
  ultimately show ?thesis using pr(1) r by simp
qed

end
